(* ===== verification/Prelude.thy ===== *)
theory Prelude
  imports Main "HOL-Library.Word" "HOL-Library.Signed_Division"
begin

text \<open>
  Shared material of the development: the basic types of the C program, the two GLib
  array operations the interpreter uses on its stacks, and the state-and-error programs in
  which every operation of the interpreter is written, with the rules by which the component
  theories reason about them.
\<close>

section \<open>Basic types\<close>

text \<open>
  \<open>gchar\<close> buffers are byte strings, for which HOL's \<open>string\<close> (a list of 8-bit characters) is
  used; \<open>gunichar\<close> is an unsigned 32-bit code point; \<open>teco_int_t\<close> is the signed 64-bit integer
  of a default build (\<open>TECO_INTEGER\<close> is 64 in \<open>configure.ac\<close>), a word read with \<open>sint\<close>.
\<close>

unbundle bit_operations_syntax

type_synonym unichar = "32 word"
type_synonym teco_int = "64 word"

abbreviation uc :: "char \<Rightarrow> unichar" where
  "uc c \<equiv> of_char c"

named_theorems run_simps \<open>unfolding of state-and-error programs\<close>
named_theorems wp_simps \<open>weakest preconditions of the primitive programs\<close>

section \<open>GLib arrays\<close>

text \<open>
  Removing at an index that is out of range fails its check and does nothing. Inserting beyond the
  end extends the array; the gap is uninitialized memory, here copies of the element.
\<close>

definition garray_remove_index :: "nat \<Rightarrow> 'a list \<Rightarrow> 'a list" where
  "garray_remove_index i xs = take i xs @ drop (Suc i) xs"

definition garray_insert_val :: "nat \<Rightarrow> 'a \<Rightarrow> 'a list \<Rightarrow> 'a list" where
  "garray_insert_val i x xs = take i xs @ replicate (i - length xs) x @ x # drop i xs"

lemma garray_remove_append [simp]: "garray_remove_index (length xs) (xs @ [x]) = xs"
  by (simp add: garray_remove_index_def)

lemma garray_remove_last [simp]: "xs \<noteq> [] \<Longrightarrow> garray_remove_index (length xs - Suc 0) xs = butlast xs"
  by (simp add: garray_remove_index_def butlast_conv_take)

lemma garray_insert_length [simp]: "garray_insert_val (length xs) x xs = xs @ [x]"
  by (simp add: garray_insert_val_def)

lemma garray_insert_remove [simp]:
  assumes "i < length xs"
  shows "garray_insert_val i (xs ! i) (garray_remove_index i xs) = xs"
proof -
  have "i - (length xs - Suc 0) = 0" using assms by simp
  then show ?thesis using assms
    by (simp add: garray_insert_val_def garray_remove_index_def min_def id_take_nth_drop [symmetric])
qed

lemma garray_insert_last [simp]:
  "xs \<noteq> [] \<Longrightarrow> garray_insert_val (length xs - Suc 0) (xs ! (length xs - Suc 0)) (butlast xs) = xs"
  using garray_insert_remove [of "length xs - Suc 0" xs] by simp

lemma length_garray_remove [simp]:
  "i < length xs \<Longrightarrow> length (garray_remove_index i xs) = length xs - 1"
  by (simp add: garray_remove_index_def)

lemma length_garray_insert [simp]:
  "i \<le> length xs \<Longrightarrow> length (garray_insert_val i x xs) = Suc (length xs)"
  by (simp add: garray_insert_val_def)

lemma count_list_garray_remove:
  "i < length xs \<Longrightarrow>
   count_list (garray_remove_index i xs) y = count_list xs y - (if xs ! i = y then 1 else 0)"
  by (subst (2) id_take_nth_drop [of i xs]) (auto simp: garray_remove_index_def)

lemma butlast_Nil: "butlast xs = [] \<longleftrightarrow> length xs \<le> 1"
  by (cases xs rule: rev_cases) (auto simp: Suc_le_eq)

lemma count_list_nth: "i < length xs \<Longrightarrow> xs ! i = y \<Longrightarrow> 0 < count_list xs y"
  by (metis count_list_0_iff gr0I nth_mem)

section \<open>Programs with state and errors\<close>

text \<open>
  A C function that takes a \<open>GError **\<close> and works on global variables is a function of the
  state that returns either an error or a result, and in both cases the new state: side effects
  made before an error stay (the caller undoes them, see theory \<open>Undo\<close>).
\<close>

type_synonym ('s, 'e, 'a) prog = "'s \<Rightarrow> ('e + 'a) \<times> 's"

definition ret :: "'a \<Rightarrow> ('s, 'e, 'a) prog" where
  "ret x = (\<lambda>s. (Inr x, s))"

definition throw :: "'e \<Rightarrow> ('s, 'e, 'a) prog" where
  "throw e = (\<lambda>s. (Inl e, s))"

definition gets :: "('s \<Rightarrow> 'a) \<Rightarrow> ('s, 'e, 'a) prog" where
  "gets f = (\<lambda>s. (Inr (f s), s))"

definition modify :: "('s \<Rightarrow> 's) \<Rightarrow> ('s, 'e, unit) prog" where
  "modify f = (\<lambda>s. (Inr (), f s))"

definition bindM :: "('s, 'e, 'a) prog \<Rightarrow> ('a \<Rightarrow> ('s, 'e, 'b) prog) \<Rightarrow> ('s, 'e, 'b) prog" where
  "bindM m f = (\<lambda>s. case m s of (Inl e, s') \<Rightarrow> (Inl e, s') | (Inr x, s') \<Rightarrow> f x s')"

definition thenM :: "('s, 'e, 'a) prog \<Rightarrow> ('s, 'e, 'b) prog \<Rightarrow> ('s, 'e, 'b) prog" where
  "thenM m n = bindM m (\<lambda>_. n)"

definition whenM :: "bool \<Rightarrow> ('s, 'e, unit) prog \<Rightarrow> ('s, 'e, unit) prog" where
  "whenM b m = (if b then m else ret ())"

fun mapM :: "('a \<Rightarrow> ('s, 'e, unit) prog) \<Rightarrow> 'a list \<Rightarrow> ('s, 'e, unit) prog" where
  "mapM f [] = ret ()"
| "mapM f (x # xs) = thenM (f x) (mapM f xs)"

text \<open>Congruence rules, so that recursive programs can be defined with \<open>fun\<close>.\<close>

lemma bindM_cong [fundef_cong]:
  "m s = m' s \<Longrightarrow> (\<And>x s'. m' s = (Inr x, s') \<Longrightarrow> f x s' = f' x s') \<Longrightarrow> bindM m f s = bindM m' f' s"
  by (auto simp: bindM_def split: prod.splits sum.splits)

lemma thenM_cong [fundef_cong]:
  "m s = m' s \<Longrightarrow> (\<And>x s'. m' s = (Inr x, s') \<Longrightarrow> n s' = n' s') \<Longrightarrow> thenM m n s = thenM m' n' s"
  by (auto simp: thenM_def bindM_def split: prod.splits sum.splits)

lemma if_run_cong [fundef_cong]:
  "b = b' \<Longrightarrow> (b' \<Longrightarrow> m s = m' s) \<Longrightarrow> (\<not> b' \<Longrightarrow> n s = n' s) \<Longrightarrow>
   (if b then m else n) s = (if b' then m' else n') s"
  by simp

lemma bindM_run: "bindM m f s = (case m s of (Inl e, s') \<Rightarrow> (Inl e, s') | (Inr x, s') \<Rightarrow> f x s')"
  by (simp add: bindM_def)

lemma thenM_run: "thenM m n s = (case m s of (Inl e, s') \<Rightarrow> (Inl e, s') | (Inr x, s') \<Rightarrow> n s')"
  by (simp add: thenM_def bindM_def)

lemma ret_run: "ret x s = (Inr x, s)"
  by (simp add: ret_def)

lemma throw_run: "throw e s = (Inl e, s)"
  by (simp add: throw_def)

lemma gets_run: "gets f s = (Inr (f s), s)"
  by (simp add: gets_def)

lemma modify_run: "modify f s = (Inr (), f s)"
  by (simp add: modify_def)

lemma whenM_run: "whenM b m s = (if b then m s else (Inr (), s))"
  by (simp add: whenM_def ret_def)

lemmas prog_run [run_simps] =
  bindM_run thenM_run ret_run throw_run gets_run modify_run whenM_run

section \<open>Weakest preconditions\<close>

text \<open>
  \<open>wp m Q E s\<close>: run from \<open>s\<close>, the program \<open>m\<close> ends in a result and a state for which \<open>Q\<close>
  holds, or in an error and a state for which \<open>E\<close> holds.
\<close>

definition wp :: "('s, 'e, 'a) prog \<Rightarrow> ('a \<Rightarrow> 's \<Rightarrow> bool) \<Rightarrow> ('e \<Rightarrow> 's \<Rightarrow> bool) \<Rightarrow> 's \<Rightarrow> bool" where
  "wp m Q E s = (case m s of (Inl e, s') \<Rightarrow> E e s' | (Inr x, s') \<Rightarrow> Q x s')"

lemma wp_ret [wp_simps]: "wp (ret x) Q E s = Q x s"
  by (simp add: wp_def ret_def)

lemma wp_throw [wp_simps]: "wp (throw e) Q E s = E e s"
  by (simp add: wp_def throw_def)

lemma wp_gets [wp_simps]: "wp (gets f) Q E s = Q (f s) s"
  by (simp add: wp_def gets_def)

lemma wp_modify [wp_simps]: "wp (modify f) Q E s = Q () (f s)"
  by (simp add: wp_def modify_def)

lemma wp_bindM [wp_simps]: "wp (bindM m f) Q E s = wp m (\<lambda>x. wp (f x) Q E) E s"
  by (simp add: wp_def bindM_def split: prod.splits sum.splits)

lemma wp_thenM [wp_simps]: "wp (thenM m n) Q E s = wp m (\<lambda>_. wp n Q E) E s"
  by (simp add: thenM_def wp_bindM)

lemma wp_whenM [wp_simps]: "wp (whenM b m) Q E s = (if b then wp m Q E s else Q () s)"
  by (simp add: whenM_def wp_ret)

lemma wp_if [wp_simps]: "wp (if b then m else n) Q E s = (if b then wp m Q E s else wp n Q E s)"
  by simp

lemma wp_mono:
  "wp m Q E s \<Longrightarrow> (\<And>x t. Q x t \<Longrightarrow> Q' x t) \<Longrightarrow> (\<And>e t. E e t \<Longrightarrow> E' e t) \<Longrightarrow> wp m Q' E' s"
  by (auto simp: wp_def split: prod.splits sum.splits)

lemma wp_conj:
  "wp m Q E s \<Longrightarrow> wp m Q' E' s \<Longrightarrow> wp m (\<lambda>x t. Q x t \<and> Q' x t) (\<lambda>e t. E e t \<and> E' e t) s"
  by (auto simp: wp_def split: prod.splits sum.splits)

lemma wp_runI:
  "(\<And>x s'. m s = (Inr x, s') \<Longrightarrow> Q x s') \<Longrightarrow> (\<And>e s'. m s = (Inl e, s') \<Longrightarrow> E e s') \<Longrightarrow> wp m Q E s"
  by (auto simp: wp_def split: prod.splits sum.splits)

lemma wp_okD: "wp m Q E s \<Longrightarrow> m s = (Inr x, s') \<Longrightarrow> Q x s'"
  by (simp add: wp_def)

lemma wp_errD: "wp m Q E s \<Longrightarrow> m s = (Inl e, s') \<Longrightarrow> E e s'"
  by (simp add: wp_def)

section \<open>State relations every step respects\<close>

text \<open>
  Many facts have the shape "whatever a program does, error or not, its final state is related
  to its initial state by \<open>R\<close>". For a reflexive and transitive \<open>R\<close> this is closed under all
  program constructors; the interface is proved once here and interpreted by the components
  on their own relations.
\<close>

definition obeys :: "('s \<Rightarrow> 's \<Rightarrow> bool) \<Rightarrow> ('s, 'e, 'a) prog \<Rightarrow> bool" where
  "obeys R m \<longleftrightarrow> (\<forall>s. R s (snd (m s)))"

lemma obeysD: "obeys R m \<Longrightarrow> R s (snd (m s))"
  by (simp add: obeys_def)

lemma obeys_okD: "obeys R m \<Longrightarrow> m s = (r, s') \<Longrightarrow> R s s'"
  by (metis obeysD snd_conv)

lemma obeys_conj: "obeys R m \<Longrightarrow> obeys S m \<Longrightarrow> obeys (\<lambda>s t. R s t \<and> S s t) m"
  by (simp add: obeys_def)

locale step_preorder =
  fixes R :: "'s \<Rightarrow> 's \<Rightarrow> bool"
  assumes R_refl: "R s s"
    and R_trans: "R s t \<Longrightarrow> R t u \<Longrightarrow> R s u"
begin

lemma ret: "obeys R (ret x)"
  by (simp add: obeys_def ret_def R_refl)

lemma throw: "obeys R (throw e)"
  by (simp add: obeys_def throw_def R_refl)

lemma gets: "obeys R (gets f)"
  by (simp add: obeys_def gets_def R_refl)

lemma modify: "(\<And>s. R s (f s)) \<Longrightarrow> obeys R (modify f)"
  by (simp add: obeys_def modify_def)

lemma bind:
  assumes m: "obeys R m" and f: "\<And>x. obeys R (f x)"
  shows "obeys R (bindM m f)"
  unfolding obeys_def
proof
  fix s
  have 1: "R s (snd (m s))" using m by (rule obeysD)
  have 2: "R (snd (m s)) (snd (f x (snd (m s))))" for x using f by (rule obeysD)
  show "R s (snd (bindM m f s))"
    using 1 R_trans [OF 1 2] by (auto simp: bindM_def split: prod.splits sum.splits)
qed

lemma thenM: "obeys R m \<Longrightarrow> obeys R n \<Longrightarrow> obeys R (thenM m n)"
  by (simp add: thenM_def bind)

lemma if_then: "obeys R m \<Longrightarrow> obeys R n \<Longrightarrow> obeys R (if b then m else n)"
  by simp

lemma whenM: "(b \<Longrightarrow> obeys R m) \<Longrightarrow> obeys R (whenM b m)"
  by (simp add: whenM_def ret)

lemma mapM_list: "(\<And>x. obeys R (f x)) \<Longrightarrow> obeys R (mapM f xs)"
  by (induction xs) (simp_all add: ret thenM)

lemma run: "(\<And>s. R s (snd (m s))) \<Longrightarrow> obeys R m"
  by (simp add: obeys_def)

lemmas intros = ret throw gets bind thenM if_then whenM mapM_list

text \<open>The same from one state on, for programs whose steps depend on what was tested before.\<close>

lemma bind_at:
  assumes m: "R s (snd (m s))" and f: "\<And>x s'. m s = (Inr x, s') \<Longrightarrow> R s' (snd (f x s'))"
  shows "R s (snd (bindM m f s))"
  using m f R_trans by (fastforce simp: bindM_def split: prod.splits sum.splits)

lemma then_at:
  "R s (snd (m s)) \<Longrightarrow> (\<And>x s'. m s = (Inr x, s') \<Longrightarrow> R s' (snd (n s'))) \<Longrightarrow> R s (snd (thenM m n s))"
  by (simp add: thenM_def bind_at)

lemma gets_at: "R s (snd (f (g s) s)) \<Longrightarrow> R s (snd (bindM (gets g) f s))"
  by (simp add: bindM_def gets_def)

lemma get_then: "(\<And>s. R s (snd (f (g s) s))) \<Longrightarrow> obeys R (bindM (gets g) f)"
  by (simp add: obeys_def gets_at)

end

end
