(* ===== verification/Undo.thy ===== *)
theory Undo
  imports Prelude
begin

text \<open>
  Undo tokens (\<open>src/undo.c\<close>, \<open>src/undo.h\<close>): the stack of token lists, one list per
  command-line character, that every side effect of the interpreter pushes to and that a
  rubout pops. In C a token is a heap block with a callback and its captured data; here a
  token is a value of some type \<open>'t\<close> and \<open>act\<close> gives its callback, so that this theory is
  independent of which tokens exist. The laws a callback has to keep are the locale
  \<open>undo_log\<close>; the interpreter's own tokens are interpreted in theory \<open>State\<close>.
\<close>

section \<open>State and operations\<close>

record 't undo_state =
  teco_undo_heads :: "'t list list"
  teco_undo_enabled :: bool
  cmdline_pc :: nat

text \<open>
  \<open>teco_undo_push_size\<close>: nothing happens when undo is disabled; otherwise the stack is filled
  with empty lists up to the current command-line character and the token becomes the first one
  of the top list. The assertion of the source is the error \<open>abort\<close>.
\<close>

definition teco_undo_pad :: "nat \<Rightarrow> 't list list \<Rightarrow> 't list list" where
  "teco_undo_pad n hs = hs @ replicate (n - length hs) []"

definition teco_undo_push :: "'e \<Rightarrow> 't \<Rightarrow> (('t, 'm) undo_state_scheme, 'e, unit) prog" where
  "teco_undo_push abort t = (\<lambda>s.
     if \<not> teco_undo_enabled s then (Inr (), s)
     else
       let hs = teco_undo_pad (Suc (cmdline_pc s)) (teco_undo_heads s)
       in if length hs \<noteq> Suc (cmdline_pc s) then (Inl abort, s\<lparr>teco_undo_heads := hs\<rparr>)
          else (Inr (), s\<lparr>teco_undo_heads := butlast hs @ [t # last hs]\<rparr>))"

text \<open>The inner loop of \<open>teco_undo_pop\<close>: run the tokens of one list, newest first.\<close>

fun run_tokens :: "('t \<Rightarrow> 's \<Rightarrow> 's) \<Rightarrow> 't list \<Rightarrow> 's \<Rightarrow> 's" where
  "run_tokens act [] s = s"
| "run_tokens act (t # ts) s = run_tokens act ts (act t s)"

text \<open>The outer loop: the lists above \<open>pc\<close> are removed from the top one by one and run.\<close>

fun undo_run_heads ::
  "('t \<Rightarrow> ('t, 'm) undo_state_scheme \<Rightarrow> ('t, 'm) undo_state_scheme) \<Rightarrow> 't list list \<Rightarrow>
   ('t, 'm) undo_state_scheme \<Rightarrow> ('t, 'm) undo_state_scheme" where
  "undo_run_heads act [] s = s"
| "undo_run_heads act (h # hs) s =
     undo_run_heads act hs (run_tokens act h (s\<lparr>teco_undo_heads := butlast (teco_undo_heads s)\<rparr>))"

definition teco_undo_pop ::
  "('t \<Rightarrow> ('t, 'm) undo_state_scheme \<Rightarrow> ('t, 'm) undo_state_scheme) \<Rightarrow> nat \<Rightarrow>
   ('t, 'm) undo_state_scheme \<Rightarrow> ('t, 'm) undo_state_scheme" where
  "teco_undo_pop act pc s = undo_run_heads act (rev (drop pc (teco_undo_heads s))) s"

text \<open>\<open>teco_undo_clear\<close> frees all tokens without running them.\<close>

definition teco_undo_clear :: "('t, 'm) undo_state_scheme \<Rightarrow> ('t, 'm) undo_state_scheme" where
  "teco_undo_clear s = s\<lparr>teco_undo_heads := []\<rparr>"

section \<open>What rolling back means\<close>

text \<open>
  \<open>pending\<close> are the tokens of the current character, \<open>settled\<close> the lists of the earlier ones
  (with the implicit empty lists written out), \<open>core\<close> the state without the undo stack.
\<close>

definition undo_ok :: "('t, 'm) undo_state_scheme \<Rightarrow> bool" where
  "undo_ok s \<longleftrightarrow> length (teco_undo_heads s) \<le> Suc (cmdline_pc s)"

definition pending :: "('t, 'm) undo_state_scheme \<Rightarrow> 't list" where
  "pending s = last (teco_undo_pad (Suc (cmdline_pc s)) (teco_undo_heads s))"

definition settled :: "('t, 'm) undo_state_scheme \<Rightarrow> 't list list" where
  "settled s = butlast (teco_undo_pad (Suc (cmdline_pc s)) (teco_undo_heads s))"

definition core :: "('t, 'm) undo_state_scheme \<Rightarrow> ('t, 'm) undo_state_scheme" where
  "core s = s\<lparr>teco_undo_heads := []\<rparr>"

text \<open>
  \<open>rollback act s t\<close>: whatever happened between \<open>s\<close> and \<open>t\<close>, running the tokens pushed in
  between on \<open>t\<close> gives \<open>s\<close> back, in every component but the undo stack itself. It says nothing
  when undo is disabled.
\<close>

definition rollback ::
  "('t \<Rightarrow> ('t, 'm) undo_state_scheme \<Rightarrow> ('t, 'm) undo_state_scheme) \<Rightarrow>
   ('t, 'm) undo_state_scheme \<Rightarrow> ('t, 'm) undo_state_scheme \<Rightarrow> bool" where
  "rollback act s t \<longleftrightarrow> (undo_ok s \<and> teco_undo_enabled s \<longrightarrow>
     undo_ok t \<and> teco_undo_enabled t \<and> cmdline_pc t = cmdline_pc s \<and> settled t = settled s \<and>
     (\<exists>ts. pending t = ts @ pending s \<and> run_tokens act ts (core t) = core s))"

lemma rollbackI:
  "(undo_ok s \<Longrightarrow> teco_undo_enabled s \<Longrightarrow>
     undo_ok t \<and> teco_undo_enabled t \<and> cmdline_pc t = cmdline_pc s \<and> settled t = settled s \<and>
     (\<exists>ts. pending t = ts @ pending s \<and> run_tokens act ts (core t) = core s)) \<Longrightarrow> rollback act s t"
  by (simp add: rollback_def)

lemma run_tokens_append [simp]: "run_tokens act (ts @ us) s = run_tokens act us (run_tokens act ts s)"
  by (induction ts arbitrary: s) auto

lemma length_pad: "length hs \<le> n \<Longrightarrow> length (teco_undo_pad n hs) = n"
  by (simp add: teco_undo_pad_def)

lemma pad_pad [simp]: "length hs \<le> n \<Longrightarrow> teco_undo_pad n (teco_undo_pad n hs) = teco_undo_pad n hs"
  by (simp add: teco_undo_pad_def)

lemma pad_full: "length hs = n \<Longrightarrow> teco_undo_pad n hs = hs"
  by (simp add: teco_undo_pad_def)

lemma pad_fresh: "length hs \<le> n \<Longrightarrow> teco_undo_pad (Suc n) hs = teco_undo_pad n hs @ [[]]"
  by (simp add: teco_undo_pad_def Suc_diff_le replicate_append_same)

lemma undo_stack_conv:
  "undo_ok s \<Longrightarrow> teco_undo_pad (Suc (cmdline_pc s)) (teco_undo_heads s) = settled s @ [pending s]"
  unfolding settled_def pending_def undo_ok_def
  by (metis append_butlast_last_id length_pad list.size(3) nat.distinct(1))

text \<open>A pushed token becomes the newest pending one, and the assertion of the push holds.\<close>

lemma teco_undo_push_ok:
  "undo_ok s \<Longrightarrow> teco_undo_enabled s \<Longrightarrow>
   teco_undo_push abort t s = (Inr (), s\<lparr>teco_undo_heads := settled s @ [t # pending s]\<rparr>)"
  by (simp add: teco_undo_push_def undo_ok_def length_pad settled_def pending_def Let_def)

lemma teco_undo_push_disabled: "\<not> teco_undo_enabled s \<Longrightarrow> teco_undo_push abort t s = (Inr (), s)"
  by (simp add: teco_undo_push_def)

lemma length_settled: "undo_ok s \<Longrightarrow> length (settled s) = cmdline_pc s"
  by (simp add: settled_def undo_ok_def length_pad)

lemma pushed_stack [simp]:
  assumes "undo_ok s"
  shows "undo_ok (s\<lparr>teco_undo_heads := settled s @ [us]\<rparr>)"
    and "pending (s\<lparr>teco_undo_heads := settled s @ [us]\<rparr>) = us"
    and "settled (s\<lparr>teco_undo_heads := settled s @ [us]\<rparr>) = settled s"
proof -
  let ?hs = "settled s @ [us]"
  have l: "length ?hs = Suc (cmdline_pc s)" using assms by (simp add: length_settled)
  then show "undo_ok (s\<lparr>teco_undo_heads := ?hs\<rparr>)" by (simp add: undo_ok_def)
  have p: "teco_undo_pad (Suc (cmdline_pc s)) ?hs = ?hs" using l by (rule pad_full)
  show "pending (s\<lparr>teco_undo_heads := ?hs\<rparr>) = us" by (simp add: pending_def p)
  show "settled (s\<lparr>teco_undo_heads := ?hs\<rparr>) = settled s"
    by (simp add: settled_def [of "s\<lparr>teco_undo_heads := ?hs\<rparr>"] p)
qed

lemma core_idem [simp]: "core (core s) = core s"
  by (simp add: core_def)

lemma core_heads [simp]: "core (s\<lparr>teco_undo_heads := h\<rparr>) = core s"
  by (simp add: core_def)

section \<open>Interactive and batch mode\<close>

text \<open>
  \<open>batch s\<close> is the state as it is when undo is disabled, as in batch mode. A program is
  \<open>transparent\<close> from a state if recording undo tokens makes no difference to what it computes:
  the result is that of the same program in batch mode, and so is the final state.
\<close>

definition batch :: "('t, 'm) undo_state_scheme \<Rightarrow> ('t, 'm) undo_state_scheme" where
  "batch s = s\<lparr>teco_undo_heads := [], teco_undo_enabled := False\<rparr>"

definition undo_ready :: "('t, 'm) undo_state_scheme \<Rightarrow> bool" where
  "undo_ready s \<longleftrightarrow> teco_undo_enabled s \<longrightarrow> undo_ok s"

definition transparent :: "(('t, 'm) undo_state_scheme, 'e, 'a) prog \<Rightarrow> ('t, 'm) undo_state_scheme \<Rightarrow> bool" where
  "transparent m s \<longleftrightarrow> (undo_ready s \<longrightarrow>
     undo_ready (snd (m s)) \<and> m (batch s) = (fst (m s), batch (snd (m s))))"

lemma batch_idem [simp]: "batch (batch s) = batch s"
  by (simp add: batch_def)

lemma batch_disabled [simp]: "\<not> teco_undo_enabled (batch s)"
  by (simp add: batch_def)

lemma undo_ready_batch [simp]: "undo_ready (batch s)"
  by (simp add: undo_ready_def)

lemma transparentD:
  "transparent m s \<Longrightarrow> undo_ready s \<Longrightarrow> m s = (r, s') \<Longrightarrow> m (batch s) = (r, batch s') \<and> undo_ready s'"
  by (simp add: transparent_def)

lemma transparent_ret: "transparent (ret x) s"
  by (simp add: transparent_def ret_def)

lemma transparent_throw: "transparent (throw e) s"
  by (simp add: transparent_def throw_def)

lemma transparent_gets: "g (batch s) = g s \<Longrightarrow> transparent (gets g) s"
  by (simp add: transparent_def gets_def)

lemma transparent_modify:
  "f (batch s) = batch (f s) \<Longrightarrow> (undo_ready s \<Longrightarrow> undo_ready (f s)) \<Longrightarrow> transparent (modify f) s"
  by (simp add: transparent_def modify_def)

lemma transparent_bind:
  assumes m: "transparent m s" and f: "\<And>x s'. m s = (Inr x, s') \<Longrightarrow> transparent (f x) s'"
  shows "transparent (bindM m f) s"
proof (cases "m s")
  case (Pair r s')
  show ?thesis
  proof (cases r)
    case (Inl e)
    with m Pair show ?thesis by (simp add: transparent_def bindM_def)
  next
    case (Inr x)
    with m f [of x s'] Pair show ?thesis by (auto simp: transparent_def bindM_def)
  qed
qed

lemma transparent_then:
  "transparent m s \<Longrightarrow> (\<And>x s'. m s = (Inr x, s') \<Longrightarrow> transparent n s') \<Longrightarrow> transparent (thenM m n) s"
  by (simp add: thenM_def transparent_bind)

lemma transparent_get_bind:
  "g (batch s) = g s \<Longrightarrow> transparent (f (g s)) s \<Longrightarrow> transparent (bindM (gets g) f) s"
  by (rule transparent_bind) (auto simp: transparent_gets gets_run)

lemma transparent_if:
  "(b \<Longrightarrow> transparent m s) \<Longrightarrow> (\<not> b \<Longrightarrow> transparent n s) \<Longrightarrow> transparent (if b then m else n) s"
  by simp

lemma transparent_when: "(b \<Longrightarrow> transparent m s) \<Longrightarrow> transparent (whenM b m) s"
  by (simp add: whenM_def transparent_ret)

lemma transparent_push: "transparent (teco_undo_push abort t) s"
proof (cases "teco_undo_enabled s")
  case True
  then show ?thesis
    by (auto simp: transparent_def undo_ready_def teco_undo_push_ok teco_undo_push_disabled batch_def)
qed (simp add: transparent_def teco_undo_push_disabled undo_ready_def)

lemmas transparent_intros =
  transparent_ret transparent_throw transparent_push transparent_if transparent_when

section \<open>The interface of undo actions\<close>

text \<open>
  A client (the interpreter) provides the callbacks \<open>act\<close>; it promises that no callback touches
  the undo stack, reads it, switches undo on or off or moves the command-line program counter.
\<close>

locale undo_log =
  fixes act :: "'t \<Rightarrow> ('t, 'm) undo_state_scheme \<Rightarrow> ('t, 'm) undo_state_scheme"
    and abort :: 'e
  assumes act_heads: "act t (s\<lparr>teco_undo_heads := h\<rparr>) = (act t s)\<lparr>teco_undo_heads := h\<rparr>"
    and act_enabled: "teco_undo_enabled (act t s) = teco_undo_enabled s"
    and act_pc: "cmdline_pc (act t s) = cmdline_pc s"
begin

lemma act_core: "core (act t s) = act t (core s)"
  by (simp add: core_def act_heads)

lemma run_core: "core (run_tokens act ts s) = run_tokens act ts (core s)"
  by (induction ts arbitrary: s) (auto simp: act_core)

lemma run_heads: "run_tokens act ts (s\<lparr>teco_undo_heads := h\<rparr>) = (run_tokens act ts s)\<lparr>teco_undo_heads := h\<rparr>"
  by (induction ts arbitrary: s) (auto simp: act_heads)

lemma heads_act: "teco_undo_heads (act t s) = teco_undo_heads s"
  using act_heads [where t = t and s = s and h = "teco_undo_heads s"]
  by (metis undo_state.select_convs(1) undo_state.surjective undo_state.update_convs(1))

lemma heads_run: "teco_undo_heads (run_tokens act ts s) = teco_undo_heads s"
  by (induction ts arbitrary: s) (auto simp: heads_act)

lemma pc_run: "cmdline_pc (run_tokens act ts s) = cmdline_pc s"
  by (induction ts arbitrary: s) (auto simp: act_pc)

lemma enabled_run: "teco_undo_enabled (run_tokens act ts s) = teco_undo_enabled s"
  by (induction ts arbitrary: s) (auto simp: act_enabled)

lemma rollback_refl: "rollback act s s"
  by (rule rollbackI) (auto intro: exI [of _ "[]"])

lemma rollback_trans:
  assumes 1: "rollback act s t" and 2: "rollback act t u"
  shows "rollback act s u"
proof (rule rollbackI)
  assume s: "undo_ok s" "teco_undo_enabled s"
  from 1 s obtain ts where t: "undo_ok t" "teco_undo_enabled t" "cmdline_pc t = cmdline_pc s"
      "settled t = settled s" "pending t = ts @ pending s" "run_tokens act ts (core t) = core s"
    by (auto simp: rollback_def)
  from 2 t obtain us where u: "undo_ok u" "teco_undo_enabled u" "cmdline_pc u = cmdline_pc t"
      "settled u = settled t" "pending u = us @ pending t" "run_tokens act us (core u) = core t"
    by (auto simp: rollback_def)
  from t u have "pending u = (us @ ts) @ pending s \<and> run_tokens act (us @ ts) (core u) = core s"
    by simp
  with t u show "undo_ok u \<and> teco_undo_enabled u \<and> cmdline_pc u = cmdline_pc s \<and>
      settled u = settled s \<and> (\<exists>vs. pending u = vs @ pending s \<and> run_tokens act vs (core u) = core s)"
    by metis
qed

text \<open>
  The elementary step: push the token that reverts a change, then make the change. Every side
  effect of the interpreter that can be rubbed out has this shape.
\<close>

lemma rollback_step:
  assumes revert: "\<And>h. act (t s) (core (f (s\<lparr>teco_undo_heads := h\<rparr>))) = core s"
    and keep: "\<And>s. teco_undo_enabled (f s) = teco_undo_enabled s" "\<And>s. cmdline_pc (f s) = cmdline_pc s"
    and heads: "\<And>s. teco_undo_heads (f s) = teco_undo_heads s"
  shows "rollback act s (snd (thenM (teco_undo_push abort (t s)) (modify f) s))" (is "rollback act s ?u")
proof (rule rollbackI)
  assume s: "undo_ok s" "teco_undo_enabled s"
  let ?s' = "s\<lparr>teco_undo_heads := settled s @ [t s # pending s]\<rparr>"
  have u: "?u = f ?s'"
    using s by (simp add: run_simps teco_undo_push_ok)
  have fields: "undo_ok (f ?s') = undo_ok ?s'" "pending (f ?s') = pending ?s'" "settled (f ?s') = settled ?s'"
    by (simp_all add: undo_ok_def pending_def settled_def keep heads)
  have "act (t s) (core (f ?s')) = core s"
    by (rule revert)
  then have "pending ?u = [t s] @ pending s \<and> run_tokens act [t s] (core ?u) = core s"
    unfolding u using s by (simp add: fields)
  moreover have "undo_ok ?u \<and> teco_undo_enabled ?u \<and> cmdline_pc ?u = cmdline_pc s \<and> settled ?u = settled s"
    unfolding u using s by (simp add: fields keep)
  ultimately show "undo_ok ?u \<and> teco_undo_enabled ?u \<and> cmdline_pc ?u = cmdline_pc s \<and> settled ?u = settled s \<and>
      (\<exists>ts. pending ?u = ts @ pending s \<and> run_tokens act ts (core ?u) = core s)"
    by blast
qed

lemma rollback_step_after:
  assumes revert: "\<And>s. act (t (f s)) (core (f s)) = core s"
    and t: "\<And>s h. t (s\<lparr>teco_undo_heads := h\<rparr>) = t s"
    and keep: "\<And>s. teco_undo_enabled (f s) = teco_undo_enabled s" "\<And>s. cmdline_pc (f s) = cmdline_pc s"
    and heads: "\<And>s. teco_undo_heads (f s) = teco_undo_heads s"
  shows "rollback act s (snd (thenM (modify f) (bindM (gets t) (teco_undo_push abort)) s))" (is "rollback act s ?u")
proof (rule rollbackI)
  assume s: "undo_ok s" "teco_undo_enabled s"
  have fields: "undo_ok (f s)" "teco_undo_enabled (f s)" "pending (f s) = pending s" "settled (f s) = settled s"
    using s by (simp_all add: undo_ok_def pending_def settled_def keep heads)
  then have u: "?u = (f s)\<lparr>teco_undo_heads := settled (f s) @ [t (f s) # pending s]\<rparr>"
    by (simp add: run_simps teco_undo_push_ok)
  have o: "undo_ok ?u" "pending ?u = t (f s) # pending s" "settled ?u = settled s"
    unfolding u using pushed_stack [OF fields(1), of "t (f s) # pending s"]
    by (simp_all only: fields(4))
  have "core ?u = core (f s)" unfolding u by simp
  then have "run_tokens act [t (f s)] (core ?u) = core s"
    using revert [of s] by (simp only: run_tokens.simps)
  moreover have "pending ?u = [t (f s)] @ pending s"
    using o(2) by (simp only: append_Cons append_Nil)
  moreover have "teco_undo_enabled ?u \<and> cmdline_pc ?u = cmdline_pc s"
    unfolding u using s by (simp add: keep)
  ultimately show "undo_ok ?u \<and> teco_undo_enabled ?u \<and> cmdline_pc ?u = cmdline_pc s \<and> settled ?u = settled s \<and>
      (\<exists>ts. pending ?u = ts @ pending s \<and> run_tokens act ts (core ?u) = core s)"
    using o by blast
qed

text \<open>
  The rubout theorem: when the tokens of the current character are popped, the state is the one
  before that character.
\<close>

lemma pop_current:
  assumes rb: "rollback act s t" and s: "teco_undo_enabled s" "length (teco_undo_heads s) \<le> cmdline_pc s"
  shows "core (teco_undo_pop act (cmdline_pc s) t) = core s"
    and "teco_undo_heads (teco_undo_pop act (cmdline_pc s) t) = take (cmdline_pc s) (teco_undo_heads t)"
proof -
  have ok: "undo_ok s" using s(2) by (simp add: undo_ok_def)
  have ps: "pending s = []"
    using s(2) by (simp add: pending_def pad_fresh)
  from rb ok s(1) obtain ts where t: "undo_ok t" "cmdline_pc t = cmdline_pc s" "settled t = settled s"
      "pending t = ts" "run_tokens act ts (core t) = core s"
    by (auto simp: rollback_def ps)
  consider (short) "length (teco_undo_heads t) \<le> cmdline_pc t"
    | (full) "length (teco_undo_heads t) = Suc (cmdline_pc t)"
    using t(1) by (fastforce simp: undo_ok_def)
  then have "core (teco_undo_pop act (cmdline_pc s) t) = core s \<and>
      teco_undo_heads (teco_undo_pop act (cmdline_pc s) t) = take (cmdline_pc s) (teco_undo_heads t)"
  proof cases
    case short
    then have "ts = []" using t(4) by (simp add: pending_def pad_fresh)
    with t short show ?thesis by (simp add: teco_undo_pop_def)
  next
    case full
    then have hs: "teco_undo_heads t = settled t @ [ts]"
      using undo_stack_conv [OF t(1)] t(4) by (simp add: pad_full)
    have "length (settled t) = cmdline_pc s" using length_settled [OF t(1)] t(2) by simp
    with hs have d: "rev (drop (cmdline_pc s) (teco_undo_heads t)) = [ts]"
      and tk: "take (cmdline_pc s) (teco_undo_heads t) = settled t" by simp_all
    have "teco_undo_pop act (cmdline_pc s) t = run_tokens act ts (t\<lparr>teco_undo_heads := butlast (teco_undo_heads t)\<rparr>)"
      by (simp add: teco_undo_pop_def d)
    then show ?thesis
      using tk by (simp add: run_core t(5) heads_run hs)
  qed
  then show "core (teco_undo_pop act (cmdline_pc s) t) = core s"
    and "teco_undo_heads (teco_undo_pop act (cmdline_pc s) t) = take (cmdline_pc s) (teco_undo_heads t)"
    by simp_all
qed

end

text \<open>The relation is a step relation in the sense of the prelude, so it is closed under programs.\<close>

sublocale undo_log \<subseteq> rb: step_preorder "rollback act"
  by unfold_locales (fact rollback_refl, fact rollback_trans)

end
