(* ===== verification/Text.thy ===== *)
theory Text
  imports Prelude "HOL-Library.Sublist"
begin

text \<open>
  Strings (\<open>src/string-utils.c\<close>, \<open>src/string-utils.h\<close>, the character macros of
  \<open>src/sciteco.h\<close>). A \<open>teco_string_t\<close> is a byte list, its length is the list's length. The
  functions of GLib the program calls on characters and strings are the fields of a record
  \<open>glib\<close>, which the definitions using them take as an argument.
\<close>

section \<open>GLib's character functions\<close>

text \<open>
  \<open>g_unichar_to_utf8\<close>, \<open>g_utf8_get_char\<close> (on the bytes from the pointer on),
  \<open>g_utf8_next_char\<close> (which skips the first byte and the continuation bytes announced by it),
  \<open>g_utf8_validate\<close> with the length of the valid prefix it reports, the case and class
  functions on code points, on bytes and on strings, \<open>g_regex_escape_string\<close>,
  \<open>g_shell_quote\<close> and \<open>g_ascii_strtoll\<close> (the value, and the number of bytes read, \<open>None\<close> for
  an error).
\<close>

record glib =
  g_unichar_to_utf8 :: "unichar \<Rightarrow> string"
  g_utf8_get_char :: "string \<Rightarrow> unichar"
  g_utf8_cont :: "char \<Rightarrow> nat"
  g_utf8_valid_prefix :: "string \<Rightarrow> nat"
  g_unichar_validate :: "unichar \<Rightarrow> bool"
  g_unichar_toupper :: "unichar \<Rightarrow> unichar"
  g_unichar_tolower :: "unichar \<Rightarrow> unichar"
  g_unichar_isalpha :: "unichar \<Rightarrow> bool"
  g_unichar_isalnum :: "unichar \<Rightarrow> bool"
  g_unichar_isdigit :: "unichar \<Rightarrow> bool"
  g_unichar_islower :: "unichar \<Rightarrow> bool"
  g_unichar_isupper :: "unichar \<Rightarrow> bool"
  g_ascii_tolower :: "char \<Rightarrow> char"
  g_ascii_toupper :: "char \<Rightarrow> char"
  g_utf8_strup :: "string \<Rightarrow> string"
  g_utf8_strdown :: "string \<Rightarrow> string"
  g_ascii_strup :: "string \<Rightarrow> string"
  g_ascii_strdown :: "string \<Rightarrow> string"
  g_regex_escape_string :: "string \<Rightarrow> string"
  g_shell_quote :: "string \<Rightarrow> string"
  g_ascii_strtoll :: "string \<Rightarrow> (int \<times> nat) option"

text \<open>The documented laws of the UTF-8 functions, on the code points GLib accepts.\<close>

definition utf8_laws :: "glib \<Rightarrow> bool" where
  "utf8_laws G \<longleftrightarrow> (\<forall>c. g_unichar_validate G c \<longrightarrow>
     g_unichar_to_utf8 G c \<noteq> [] \<and>
     Suc (g_utf8_cont G (hd (g_unichar_to_utf8 G c))) = length (g_unichar_to_utf8 G c) \<and>
     (\<forall>s. g_utf8_get_char G (g_unichar_to_utf8 G c @ s) = c) \<and>
     (c < 0x80 \<longrightarrow> g_unichar_to_utf8 G c = [char_of (unat c)]))"

section \<open>Characters\<close>

definition teco_is_ctl :: "unichar \<Rightarrow> bool" where
  "teco_is_ctl c \<longleftrightarrow> c < 0x20"

definition teco_ctl_echo :: "unichar \<Rightarrow> unichar" where
  "teco_ctl_echo c = c OR 0x40"

definition teco_ctl_key :: "unichar \<Rightarrow> unichar" where
  "teco_ctl_key c = c AND NOT 0x40"

definition teco_ascii_toupper :: "unichar \<Rightarrow> unichar" where
  "teco_ascii_toupper c = (if uc CHR ''a'' \<le> c \<and> c \<le> uc CHR ''z'' then c AND NOT 0x20 else c)"

definition teco_is_noop :: "unichar \<Rightarrow> bool" where
  "teco_is_noop c \<longleftrightarrow> c = uc CHR '' '' \<or> c = 0x0C \<or> c = 0x0D \<or> c = 0x0A \<or> c = 0x0B"

text \<open>\<open>gchar\<close> is signed: the byte's value when it takes part in arithmetic.\<close>

definition schar :: "char \<Rightarrow> int" where
  "schar c = (if of_char c < (128 :: int) then of_char c else of_char c - 256)"

section \<open>Strings\<close>

definition teco_string_append_wc :: "glib \<Rightarrow> string \<Rightarrow> unichar \<Rightarrow> string" where
  "teco_string_append_wc G s c = s @ g_unichar_to_utf8 G c"

definition teco_string_truncate :: "string \<Rightarrow> nat \<Rightarrow> string option" where
  "teco_string_truncate s n = (if n \<le> length s then Some (take n s) else None)"

text \<open>
  For callers that cannot fail in the model: the string stays where the assertion of \<open>teco_string_truncate\<close> fails, which ends the program.
\<close>

definition truncated :: "string \<Rightarrow> nat \<Rightarrow> string" where
  "truncated s n = (case teco_string_truncate s n of None \<Rightarrow> s | Some r \<Rightarrow> r)"

lemma truncated_take: "truncated s n = take n s"
  by (simp add: truncated_def teco_string_truncate_def)

text \<open>
  \<open>teco_string_echo\<close>: control bytes (below 32; bytes above 127 are negative and thus, cast to
  \<open>gunichar\<close>, large) become a caret and the character that echoes them.
\<close>

fun teco_string_echo :: "string \<Rightarrow> string" where
  "teco_string_echo [] = []"
| "teco_string_echo (c # cs) =
     (if of_char c < (0x20 :: nat) then CHR ''^'' # char_of (or (of_char c :: nat) 0x40) # teco_string_echo cs
      else c # teco_string_echo cs)"

text \<open>
  \<open>teco_string_get_coord\<close>: the loop over the UTF-8 characters before offset \<open>off\<close>; \<open>rest\<close> are the
  bytes from index \<open>i\<close> on. CRLF counts as one character. The string is zero-terminated, so at its
  end the byte read is zero.
\<close>

function coord_loop :: "glib \<Rightarrow> nat \<Rightarrow> string \<Rightarrow> nat \<Rightarrow> nat \<times> nat \<times> nat \<Rightarrow> nat \<times> nat \<times> nat" where
  "coord_loop G off rest i (pos, line, column) =
     (if i < off then
        let c = (case rest of [] \<Rightarrow> CHR 0x00 | x # _ \<Rightarrow> x);
            crlf = (c = CHR 0x0D \<and> rest \<noteq> [] \<and> tl rest \<noteq> [] \<and> hd (tl rest) = CHR 0x0A);
            rest' = (if crlf then tl rest else rest);
            i' = (if crlf then Suc i else i);
            skip = Suc (g_utf8_cont G (case rest' of [] \<Rightarrow> CHR 0x00 | x # _ \<Rightarrow> x))
        in coord_loop G off (drop skip rest') (i' + skip)
             (if c = CHR 0x0D \<or> c = CHR 0x0A then (Suc pos, Suc line, 1) else (Suc pos, line, Suc column))
      else (pos, line, column))"
  by pat_completeness auto
termination
  by (relation "measure (\<lambda>(G, off, rest, i, _). off - i)") (auto simp: Let_def split: if_splits)

definition teco_string_get_coord :: "glib \<Rightarrow> string \<Rightarrow> nat \<Rightarrow> nat \<times> nat \<times> nat" where
  "teco_string_get_coord G s off = coord_loop G off s 0 (0, 1, 1)"

fun teco_string_diff :: "string \<Rightarrow> string \<Rightarrow> nat" where
  "teco_string_diff (x # xs) (y # ys) = (if x = y then Suc (teco_string_diff xs ys) else 0)"
| "teco_string_diff _ _ = 0"

function casediff_loop :: "glib \<Rightarrow> string \<Rightarrow> string \<Rightarrow> nat \<Rightarrow> nat" where
  "casediff_loop G a b len =
     (if len < length a \<and> len < length b \<and>
         g_unichar_tolower G (g_utf8_get_char G (drop len a)) =
         g_unichar_tolower G (g_utf8_get_char G (drop len b))
      then casediff_loop G a b (len + Suc (g_utf8_cont G (b ! len)))
      else len)"
  by pat_completeness auto
termination
  by (relation "measure (\<lambda>(G, a, b, len). length b - len)") auto

definition teco_string_casediff :: "glib \<Rightarrow> string \<Rightarrow> string \<Rightarrow> nat" where
  "teco_string_casediff G a b = casediff_loop G a b 0"

text \<open>
  \<open>teco_string_cmp\<close> and \<open>teco_string_casecmp\<close>: the same loop over the bytes of \<open>a\<close>, on the bytes
  themselves and on their lower case.
\<close>

fun string_cmp_by :: "(char \<Rightarrow> char) \<Rightarrow> string \<Rightarrow> string \<Rightarrow> int" where
  "string_cmp_by f [] b = (if b = [] then 0 else -1)"
| "string_cmp_by f (x # xs) [] = 1"
| "string_cmp_by f (x # xs) (y # ys) =
     (let r = schar (f x) - schar (f y) in if r \<noteq> 0 then r else string_cmp_by f xs ys)"

definition teco_string_cmp :: "string \<Rightarrow> string \<Rightarrow> int" where
  "teco_string_cmp = string_cmp_by (\<lambda>c. c)"

definition teco_string_casecmp :: "glib \<Rightarrow> string \<Rightarrow> string \<Rightarrow> int" where
  "teco_string_casecmp G = string_cmp_by (g_ascii_tolower G)"

definition teco_string_contains :: "string \<Rightarrow> char \<Rightarrow> bool" where
  "teco_string_contains s c \<longleftrightarrow> c \<in> set s"

text \<open>\<open>teco_string_rindex\<close>: the index of the last occurrence, or -1: the loop runs down from the end.\<close>

fun rindex_loop :: "string \<Rightarrow> char \<Rightarrow> nat \<Rightarrow> int" where
  "rindex_loop s c 0 = -1"
| "rindex_loop s c (Suc i) = (if s ! i = c then int i else rindex_loop s c i)"

definition teco_string_rindex :: "string \<Rightarrow> char \<Rightarrow> int" where
  "teco_string_rindex s c = rindex_loop s c (length s)"

text \<open>
  \<open>teco_string_last_occurrence\<close>: the \<open>do ... while (*chars++)\<close> loop tries every character of
  \<open>chars\<close> and, last, the terminating zero.
\<close>

fun last_occurrence_loop :: "string \<Rightarrow> string \<Rightarrow> string" where
  "last_occurrence_loop s [] = s"
| "last_occurrence_loop s (c # cs) =
     last_occurrence_loop (drop (nat (teco_string_rindex s c + 1)) s) cs"

definition teco_string_last_occurrence :: "string \<Rightarrow> string \<Rightarrow> string option" where
  "teco_string_last_occurrence s chars =
     (if s = [] then None else Some (last_occurrence_loop s (chars @ [CHR 0x00])))"

text \<open>
  \<open>teco_string_validate_utf8\<close>: \<open>g_utf8_validate\<close> stops at zero bytes, which are accepted and
  skipped. \<open>valid_prefix\<close> is the distance to the end pointer it stores; at the end of the string
  it reports success.
\<close>

function validate_loop :: "glib \<Rightarrow> string \<Rightarrow> bool" where
  "validate_loop G s =
     (let n = g_utf8_valid_prefix G s in
      if length s \<le> n then True
      else if s ! n = CHR 0x00 then validate_loop G (drop (Suc n) s) else False)"
  by pat_completeness auto
termination
  by (relation "measure (\<lambda>(G, s). length s)") auto

definition teco_string_validate_utf8 :: "glib \<Rightarrow> string \<Rightarrow> bool" where
  "teco_string_validate_utf8 G s = validate_loop G s"

fun teco_strv_remove :: "'a list \<Rightarrow> nat \<Rightarrow> ('a \<times> 'a list) option" where
  "teco_strv_remove [] i = None"
| "teco_strv_remove (x # xs) 0 = Some (x, xs)"
| "teco_strv_remove (x # xs) (Suc i) =
     (case teco_strv_remove xs i of None \<Rightarrow> None | Some (y, ys) \<Rightarrow> Some (y, x # ys))"

declare coord_loop.simps [simp del] casediff_loop.simps [simp del] validate_loop.simps [simp del]

section \<open>Laws of the comparison\<close>

text \<open>
  What a tree keyed by strings relies on: a comparison into signed integers that orders the keys
  linearly up to equivalence.
\<close>

locale key_order =
  fixes cmp :: "'k \<Rightarrow> 'k \<Rightarrow> int"
  assumes cmp_refl: "cmp a a = 0"
    and cmp_flip: "sgn (cmp a b) = - sgn (cmp b a)"
    and cmp_le_trans: "cmp a b \<le> 0 \<Longrightarrow> cmp b c \<le> 0 \<Longrightarrow> cmp a c \<le> 0"
begin

lemma cmp_pos_iff: "0 < cmp a b \<longleftrightarrow> cmp b a < 0"
  using cmp_flip [of a b] by (auto simp: sgn_if split: if_splits)

lemma cmp_zero_sym: "cmp a b = 0 \<longleftrightarrow> cmp b a = 0"
  using cmp_flip [of a b] by (auto simp: sgn_if split: if_splits)

lemma cmp_less_trans: "cmp a b < 0 \<Longrightarrow> cmp b c \<le> 0 \<Longrightarrow> cmp a c < 0"
  using cmp_le_trans [of a b c] cmp_le_trans [of b c a] cmp_zero_sym [of a c] cmp_pos_iff [of b a]
  by linarith

lemma cmp_le_less_trans: "cmp a b \<le> 0 \<Longrightarrow> cmp b c < 0 \<Longrightarrow> cmp a c < 0"
  using cmp_le_trans [of a b c] cmp_le_trans [of c a b] cmp_zero_sym [of a c] cmp_pos_iff [of c b]
  by linarith

lemma cmp_zero_left: "cmp a b = 0 \<Longrightarrow> cmp b c \<le> 0 \<longleftrightarrow> cmp a c \<le> 0"
  using cmp_le_trans [of a b c] cmp_le_trans [of b a c] cmp_zero_sym [of a b] by auto

end

lemma of_char_int_bounds: "0 \<le> (of_char c :: int) \<and> (of_char c :: int) < 256"
proof -
  have e: "(of_char c :: int) = int (of_char c :: nat)" by (simp add: of_nat_of_char)
  have "(of_char c :: nat) < 256" by (rule nat_of_char_less_256)
  then show ?thesis unfolding e by linarith
qed

lemma schar_inject [simp]: "schar a = schar b \<longleftrightarrow> a = b"
proof
  assume "schar a = schar b"
  then have "(of_char a :: int) = of_char b"
    using of_char_int_bounds [of a] of_char_int_bounds [of b]
    by (simp add: schar_def split: if_splits)
  then show "a = b" by (simp only: of_char_eq_iff)
qed simp

lemma string_cmp_by_refl: "string_cmp_by f a a = 0"
  by (induction a) auto

lemma string_cmp_by_flip: "sgn (string_cmp_by f a b) = - sgn (string_cmp_by f b a)"
proof (induction f a b rule: string_cmp_by.induct)
  case (1 f b)
  then show ?case by (cases b) simp_all
next
  case (3 f x xs y ys)
  then show ?case
    by (cases "f x = f y") (simp_all add: Let_def sgn_if)
qed simp

lemma string_cmp_by_trans:
  "string_cmp_by f a b \<le> 0 \<Longrightarrow> string_cmp_by f b c \<le> 0 \<Longrightarrow> string_cmp_by f a c \<le> 0"
proof (induction a arbitrary: b c)
  case Nil
  then show ?case by simp
next
  case (Cons x a)
  from Cons.prems(1) obtain y b' where b: "b = y # b'" by (cases b) auto
  from Cons.prems(2) b obtain z c' where c: "c = z # c'" by (cases c) auto
  show ?case
    using Cons.prems Cons.IH [of b' c'] by (auto simp: b c Let_def split: if_splits)
qed

interpretation cmp_by: key_order "string_cmp_by f" for f
  by unfold_locales (auto intro: string_cmp_by_refl string_cmp_by_flip string_cmp_by_trans)

lemma string_cmp_by_zero: "string_cmp_by f a b = 0 \<longleftrightarrow> map f a = map f b"
  by (induction f a b rule: string_cmp_by.induct) (auto simp: Let_def)

lemma teco_string_cmp_zero [simp]: "teco_string_cmp a b = 0 \<longleftrightarrow> a = b"
  by (simp add: teco_string_cmp_def string_cmp_by_zero)

section \<open>Laws of the other operations\<close>

lemma echo_append: "teco_string_echo (a @ b) = teco_string_echo a @ teco_string_echo b"
  by (induction a rule: teco_string_echo.induct) auto

lemma length_echo: "length (teco_string_echo s) \<le> 2 * length s"
  by (induction s rule: teco_string_echo.induct) auto

lemma diff_le: "teco_string_diff a b \<le> length a \<and> teco_string_diff a b \<le> length b"
  by (induction a b rule: teco_string_diff.induct) auto

lemma diff_take: "take (teco_string_diff a b) a = take (teco_string_diff a b) b"
  by (induction a b rule: teco_string_diff.induct) auto

lemma diff_max: "take n a = take n b \<Longrightarrow> n \<le> length a \<Longrightarrow> n \<le> length b \<Longrightarrow> n \<le> teco_string_diff a b"
proof (induction a b arbitrary: n rule: teco_string_diff.induct)
  case (1 x xs y ys)
  then show ?case by (cases n) auto
qed auto

lemma diff_prefix: "teco_string_diff a b = length b \<longleftrightarrow> prefix b a"
  by (induction a b rule: teco_string_diff.induct) auto

lemma diff_lcp: "take (teco_string_diff a b) a = longest_common_prefix a b"
  by (induction a b rule: teco_string_diff.induct) auto

lemma rindex_loop_bound: "-1 \<le> rindex_loop s c n \<and> rindex_loop s c n < int n"
  by (induction s c n rule: rindex_loop.induct) auto

lemma rindex_loop_none: "rindex_loop s c n = -1 \<longleftrightarrow> (\<forall>i<n. s ! i \<noteq> c)"
  by (induction s c n rule: rindex_loop.induct) (auto simp: less_Suc_eq)

lemma rindex_loop_some:
  "0 \<le> rindex_loop s c n \<Longrightarrow>
   s ! nat (rindex_loop s c n) = c \<and> (\<forall>i. rindex_loop s c n < int i \<and> i < n \<longrightarrow> s ! i \<noteq> c)"
  by (induction s c n rule: rindex_loop.induct) (auto simp: less_Suc_eq)

lemma drop_rindex: "c \<notin> set (drop (nat (teco_string_rindex s c + 1)) s)"
proof -
  have "s ! i \<noteq> c" if "teco_string_rindex s c < int i" "i < length s" for i
  proof (cases "teco_string_rindex s c = -1")
    case True
    then show ?thesis using that rindex_loop_none [of s c "length s"] by (simp add: teco_string_rindex_def)
  next
    case False
    then have "0 \<le> rindex_loop s c (length s)"
      using rindex_loop_bound [of s c "length s"] by (simp add: teco_string_rindex_def)
    then show ?thesis using rindex_loop_some [of s c "length s"] that by (simp add: teco_string_rindex_def)
  qed
  then show ?thesis by (force simp: in_set_conv_nth)
qed

lemma last_occurrence_loop_spec:
  "suffix (last_occurrence_loop s cs) s \<and> (\<forall>c \<in> set cs. c \<notin> set (last_occurrence_loop s cs))"
proof (induction s cs rule: last_occurrence_loop.induct)
  case (2 s c cs)
  let ?d = "drop (nat (teco_string_rindex s c + 1)) s"
  have d: "suffix ?d s" by (rule suffix_drop)
  from 2 have l: "suffix (last_occurrence_loop ?d cs) ?d" by blast
  have "c \<notin> set (last_occurrence_loop ?d cs)" using set_mono_suffix [OF l] drop_rindex [of c s] by blast
  with 2 l d show ?case by (auto intro: suffix_order.trans)
qed simp

lemma strv_remove_spec: "i < length xs \<Longrightarrow> teco_strv_remove xs i = Some (xs ! i, garray_remove_index i xs)"
  by (induction xs i rule: teco_strv_remove.induct) (auto simp: garray_remove_index_def)

lemma rindex_takeWhile:
  "drop (nat (teco_string_rindex s c + 1)) s = rev (takeWhile (\<lambda>x. x \<noteq> c) (rev s))"
proof (induction s rule: rev_induct)
  case Nil
  then show ?case by simp
next
  case (snoc x s)
  have r: "rindex_loop (s @ [x]) c (length s) = rindex_loop s c (length s)"
  proof -
    have "n \<le> length s \<Longrightarrow> rindex_loop (s @ [x]) c n = rindex_loop s c n" for n
      by (induction n) (simp_all add: nth_append)
    then show ?thesis by simp
  qed
  have b: "nat (teco_string_rindex s c + 1) \<le> length s"
    using rindex_loop_bound [of s c "length s"] by (simp add: teco_string_rindex_def nat_le_iff)
  have "teco_string_rindex (s @ [x]) c = (if x = c then int (length s) else teco_string_rindex s c)"
    by (simp add: teco_string_rindex_def r)
  then show ?case using snoc.IH b by (simp add: nat_add_distrib)
qed

lemma last_occurrence_loop_takeWhile:
  "last_occurrence_loop s cs = rev (takeWhile (\<lambda>x. x \<notin> set cs) (rev s))"
proof (induction s cs rule: last_occurrence_loop.induct)
  case (2 s c cs)
  have "takeWhile (\<lambda>x. x \<notin> set cs) (takeWhile (\<lambda>x. x \<noteq> c) xs) = takeWhile (\<lambda>x. x \<notin> set (c # cs)) xs" for xs
    by (induction xs) auto
  then show ?case using 2 by (simp only: last_occurrence_loop.simps rindex_takeWhile rev_rev_ident)
qed (metis (mono_tags, lifting) empty_iff empty_set last_occurrence_loop.simps(1) rev_rev_ident takeWhile_eq_all_conv)

section \<open>An instance of the character functions\<close>

text \<open>
  The functions of record \<open>glib\<close> on ASCII, where all of them are simple; concrete executions use it.
  \<open>g_ascii_strtoll\<close> is restricted to decimal numbers without a sign.
\<close>

definition ascii_char :: "unichar \<Rightarrow> char" where
  "ascii_char c = char_of (unat c)"

definition ascii_between :: "unichar \<Rightarrow> unichar \<Rightarrow> unichar \<Rightarrow> bool" where
  "ascii_between a b c \<longleftrightarrow> a \<le> c \<and> c \<le> b"

definition ascii_upcase :: "unichar \<Rightarrow> unichar" where
  "ascii_upcase c = (if ascii_between 0x61 0x7A c then c - 0x20 else c)"

definition ascii_downcase :: "unichar \<Rightarrow> unichar" where
  "ascii_downcase c = (if ascii_between 0x41 0x5A c then c + 0x20 else c)"

definition ascii_decimal :: "string \<Rightarrow> int" where
  "ascii_decimal str = foldl (\<lambda>v c. 10 * v + (schar c - 48)) 0 str"

definition ascii_glib :: glib where
  "ascii_glib =
     \<lparr>g_unichar_to_utf8 = (\<lambda>c. [ascii_char c]), g_utf8_get_char = (\<lambda>s. case s of [] \<Rightarrow> 0 | c # _ \<Rightarrow> uc c),
      g_utf8_cont = (\<lambda>_. 0), g_utf8_valid_prefix = (\<lambda>s. length (takeWhile (\<lambda>c. 0 < schar c) s)),
      g_unichar_validate = (\<lambda>c. c < 0x80),
      g_unichar_toupper = ascii_upcase, g_unichar_tolower = ascii_downcase,
      g_unichar_isalpha = (\<lambda>c. ascii_between 0x41 0x5A (ascii_upcase c)),
      g_unichar_isalnum = (\<lambda>c. ascii_between 0x41 0x5A (ascii_upcase c) \<or> ascii_between 0x30 0x39 c),
      g_unichar_isdigit = ascii_between 0x30 0x39, g_unichar_islower = ascii_between 0x61 0x7A,
      g_unichar_isupper = ascii_between 0x41 0x5A,
      g_ascii_tolower = (\<lambda>c. ascii_char (ascii_downcase (uc c))), g_ascii_toupper = (\<lambda>c. ascii_char (ascii_upcase (uc c))),
      g_utf8_strup = map (\<lambda>c. ascii_char (ascii_upcase (uc c))), g_utf8_strdown = map (\<lambda>c. ascii_char (ascii_downcase (uc c))),
      g_ascii_strup = map (\<lambda>c. ascii_char (ascii_upcase (uc c))), g_ascii_strdown = map (\<lambda>c. ascii_char (ascii_downcase (uc c))),
      g_regex_escape_string = (\<lambda>s. s), g_shell_quote = (\<lambda>s. [CHR 0x27] @ s @ [CHR 0x27]),
      g_ascii_strtoll = (\<lambda>s. let d = takeWhile (\<lambda>c. 48 \<le> schar c \<and> schar c \<le> 57) s in
        if d = [] then None else Some (ascii_decimal d, length d))\<rparr>"

lemma utf8_laws_ascii: "utf8_laws ascii_glib"
proof -
  have "(of_char (char_of (unat c) :: char) :: unichar) = c" if "c < 0x80" for c :: unichar
  proof -
    have u: "unat c < 128" using that by (simp add: word_less_nat_alt)
    have "(of_char (char_of (unat c) :: char) :: unichar) = of_nat (of_char (char_of (unat c) :: char))"
      by (simp only: of_nat_of_char)
    also have "\<dots> = of_nat (unat c)" using u by simp
    finally show ?thesis by simp
  qed
  then show ?thesis by (simp add: utf8_laws_def ascii_glib_def ascii_char_def)
qed

section \<open>Properties\<close>

text \<open>
  C21: \<open>teco_string_last_occurrence\<close> returns the longest suffix that contains none of the given
  characters and no zero byte, and nothing for the empty string.
\<close>

theorem last_occurrence_suffix:
  "teco_string_last_occurrence s chars =
     (if s = [] then None else Some (rev (takeWhile (\<lambda>c. c \<notin> set chars \<union> {CHR 0x00}) (rev s))))"
  by (simp add: teco_string_last_occurrence_def last_occurrence_loop_takeWhile)

text \<open>
  C20: \<open>teco_string_diff\<close> is the length of the longest common prefix, and \<open>teco_string_cmp\<close>, the key
  comparison of all tables, is a linear order of the byte strings: zero exactly on equal strings,
  antisymmetric and transitive.
\<close>

theorem string_order:
  "take (teco_string_diff a b) a = longest_common_prefix a b \<and>
   (teco_string_cmp a b = 0 \<longleftrightarrow> a = b) \<and>
   sgn (teco_string_cmp a b) = - sgn (teco_string_cmp b a) \<and>
   (teco_string_cmp a b \<le> 0 \<longrightarrow> teco_string_cmp b c \<le> 0 \<longrightarrow> teco_string_cmp a c \<le> 0)"
  using cmp_by.cmp_flip [of "\<lambda>c. c" a b] cmp_by.cmp_le_trans [of "\<lambda>c. c" a b c]
  by (simp add: diff_lcp teco_string_cmp_def string_cmp_by_zero)

theorem string_order_witness:
  "teco_string_cmp ''ab'' ''abc'' \<le> 0 \<and> teco_string_cmp ''abc'' ''b'' \<le> 0 \<and> teco_string_cmp ''ab'' ''b'' \<le> 0"
proof -
  have "teco_string_cmp ''ab'' ''abc'' \<le> 0" "teco_string_cmp ''abc'' ''b'' \<le> 0"
    by (simp_all add: teco_string_cmp_def schar_def Let_def)
  then show ?thesis using string_order [of "''ab''" "''abc''" "''b''"] by simp
qed

end
