(* ===== verification/Numbers.thy ===== *)
theory Numbers
  imports Text
begin

text \<open>
  Errors (\<open>src/error.h\<close>), TECO booleans and the default code page (\<open>src/sciteco.h\<close>), and the
  stack-independent part of \<open>src/expressions.c\<close>: operators with their precedence, what one
  operation computes, and the formatting of integers in a radix.
\<close>

section \<open>Errors\<close>

text \<open>
  One constructor per error code and setter, with what its message shows. \<open>G_assertion_failed\<close> is not
  a \<open>GError\<close>: it is the program's end by a failing \<open>g_assert\<close> or \<open>g_assert_not_reached\<close>, and
  \<open>Arithmetic_trap\<close> the processor's exception on dividing the smallest integer by -1.
  \<open>Out_of_fuel\<close> is no outcome of the program: the interpreter's loops take a bound on their
  number of steps, and this says that it was too small.
\<close>

datatype teco_error =
    TECO_ERROR_FAILED string
  | TECO_ERROR_SYNTAX unichar
  | TECO_ERROR_UNTERMINATED
  | TECO_ERROR_MODIFIER unichar
  | TECO_ERROR_ARGEXPECTED string
  | TECO_ERROR_LABEL string
  | TECO_ERROR_CODEPOINT string
  | TECO_ERROR_MOVE string
  | TECO_ERROR_WORDS string
  | TECO_ERROR_RANGE string
  | TECO_ERROR_SUBPATTERN string
  | TECO_ERROR_INVALIDBUF teco_int
  | TECO_ERROR_INVALIDQREG string bool
  | TECO_ERROR_QREGOPUNSUPPORTED string bool
  | TECO_ERROR_QREGCONTAINSNULL string bool
  | TECO_ERROR_EDITINGLOCALQREG string
  | TECO_ERROR_MEMLIMIT
  | TECO_ERROR_INTERRUPTED
  | TECO_ERROR_CMDLINE
  | TECO_ERROR_RETURN
  | TECO_ERROR_QUIT
  | G_assertion_failed
  | Arithmetic_trap
  | Out_of_fuel

text \<open>What ends the process instead of being reported and rubbed out.\<close>

definition crash :: "teco_error \<Rightarrow> bool" where
  "crash e \<longleftrightarrow> e = G_assertion_failed \<or> e = Arithmetic_trap"

section \<open>TECO booleans and flags\<close>

definition TECO_SUCCESS :: teco_int where "TECO_SUCCESS = - 1"
definition TECO_FAILURE :: teco_int where "TECO_FAILURE = 0"

definition teco_bool :: "bool \<Rightarrow> teco_int" where
  "teco_bool x = (if x then TECO_SUCCESS else TECO_FAILURE)"

definition teco_is_success :: "teco_int \<Rightarrow> bool" where
  "teco_is_success x \<longleftrightarrow> sint x < 0"

definition teco_is_failure :: "teco_int \<Rightarrow> bool" where
  "teco_is_failure x \<longleftrightarrow> 0 \<le> sint x"

lemma teco_bool_success [simp]: "teco_is_success (teco_bool x) \<longleftrightarrow> x"
  by (simp add: teco_is_success_def teco_bool_def TECO_SUCCESS_def TECO_FAILURE_def)

lemma teco_bool_failure [simp]: "teco_is_failure (teco_bool x) \<longleftrightarrow> \<not> x"
  by (simp add: teco_is_failure_def teco_bool_def TECO_SUCCESS_def TECO_FAILURE_def)

definition TECO_ED_EXIT :: teco_int where "TECO_ED_EXIT = 2"
definition TECO_ED_DEFAULT_ANSI :: teco_int where "TECO_ED_DEFAULT_ANSI = 4"
definition TECO_ED_AUTOCASEFOLD :: teco_int where "TECO_ED_AUTOCASEFOLD = 8"
definition TECO_ED_AUTOEOL :: teco_int where "TECO_ED_AUTOEOL = 16"
definition TECO_ED_HOOKS :: teco_int where "TECO_ED_HOOKS = 32"

text \<open>Scintilla's two code page constants the program compares with.\<close>

definition SC_CP_UTF8 :: nat where "SC_CP_UTF8 = 65001"
definition SC_CHARSET_ANSI :: nat where "SC_CHARSET_ANSI = 0"

definition teco_default_codepage :: "teco_int \<Rightarrow> nat" where
  "teco_default_codepage ed = (if ed AND TECO_ED_DEFAULT_ANSI \<noteq> 0 then SC_CHARSET_ANSI else SC_CP_UTF8)"

section \<open>Operators\<close>

datatype teco_operator =
    TECO_OP_NIL | TECO_OP_NEW | TECO_OP_BRACE | TECO_OP_NUMBER
  | TECO_OP_POW | TECO_OP_MOD | TECO_OP_DIV | TECO_OP_MUL | TECO_OP_SUB | TECO_OP_ADD
  | TECO_OP_AND | TECO_OP_XOR | TECO_OP_OR

fun op_value :: "teco_operator \<Rightarrow> nat" where
  "op_value TECO_OP_NIL = 0x00"
| "op_value TECO_OP_NEW = 0x01"
| "op_value TECO_OP_BRACE = 0x02"
| "op_value TECO_OP_NUMBER = 0x03"
| "op_value TECO_OP_POW = 0x60"
| "op_value TECO_OP_MOD = 0x50"
| "op_value TECO_OP_DIV = 0x51"
| "op_value TECO_OP_MUL = 0x52"
| "op_value TECO_OP_SUB = 0x40"
| "op_value TECO_OP_ADD = 0x41"
| "op_value TECO_OP_AND = 0x30"
| "op_value TECO_OP_XOR = 0x20"
| "op_value TECO_OP_OR = 0x10"

definition teco_expressions_precedence :: "teco_operator \<Rightarrow> nat" where
  "teco_expressions_precedence op = drop_bit 4 (op_value op)"

definition real_op :: "teco_operator \<Rightarrow> bool" where
  "real_op op \<longleftrightarrow> 0 < teco_expressions_precedence op"

lemma real_op_iff: "real_op op \<longleftrightarrow> op \<notin> {TECO_OP_NIL, TECO_OP_NEW, TECO_OP_BRACE, TECO_OP_NUMBER}"
  by (cases op) (simp_all add: real_op_def teco_expressions_precedence_def)

section \<open>One operation\<close>

text \<open>
  The \<open>for (;;)\<close> loop of \<open>TECO_OP_POW\<close> with its variables; the exponent is positive there and is
  shifted right, so it is read as a number.
\<close>

fun pow_loop :: "teco_int \<Rightarrow> teco_int \<Rightarrow> nat \<Rightarrow> teco_int" where
  "pow_loop res vleft vright =
     (let res' = (if odd vright then res * vleft else res); v = vright div 2
      in if v = 0 then res' else pow_loop res' (vleft * vleft) v)"

declare pow_loop.simps [simp del]

definition calc_pow :: "teco_int \<Rightarrow> teco_int \<Rightarrow> teco_error + teco_int" where
  "calc_pow vleft vright =
     (if vright = 0 then Inr (if sint vleft < 0 then - 1 else 1)
      else if sint vright < 0 then
        if vleft = 0 then Inl (TECO_ERROR_FAILED ''Negative power of 0 is not defined'')
        else Inr (if vleft = 1 \<or> vleft = - 1 then vleft else 0)
      else Inr (pow_loop 1 vleft (nat (sint vright))))"

text \<open>C's division and remainder truncate towards zero.\<close>

definition traps :: "teco_int \<Rightarrow> teco_int \<Rightarrow> bool" where
  "traps vleft vright \<longleftrightarrow> sint vleft = - (2 ^ 63) \<and> vright = - 1"

definition calc_result :: "teco_operator \<Rightarrow> teco_int \<Rightarrow> teco_int \<Rightarrow> teco_error + teco_int" where
  "calc_result op vleft vright =
     (case op of
        TECO_OP_POW \<Rightarrow> calc_pow vleft vright
      | TECO_OP_MUL \<Rightarrow> Inr (vleft * vright)
      | TECO_OP_DIV \<Rightarrow>
          if vright = 0 then Inl (TECO_ERROR_FAILED ''Division by zero'')
          else if traps vleft vright then Inl Arithmetic_trap
          else Inr (word_of_int (sint vleft sdiv sint vright))
      | TECO_OP_MOD \<Rightarrow>
          if vright = 0 then Inl (TECO_ERROR_FAILED ''Remainder of division by zero'')
          else if traps vleft vright then Inl Arithmetic_trap
          else Inr (word_of_int (sint vleft smod sint vright))
      | TECO_OP_ADD \<Rightarrow> Inr (vleft + vright)
      | TECO_OP_SUB \<Rightarrow> Inr (vleft - vright)
      | TECO_OP_AND \<Rightarrow> Inr (vleft AND vright)
      | TECO_OP_XOR \<Rightarrow> Inr (vleft XOR vright)
      | TECO_OP_OR \<Rightarrow> Inr (vleft OR vright)
      | _ \<Rightarrow> Inl G_assertion_failed)"

lemma pow_loop_power: "0 < n \<Longrightarrow> pow_loop r x n = r * x ^ n"
proof (induction n arbitrary: r x rule: less_induct)
  case (less n)
  let ?r = "if odd n then r * x else r"
  have unroll: "pow_loop r x n = (if n div 2 = 0 then ?r else pow_loop ?r (x * x) (n div 2))"
    by (subst pow_loop.simps) (simp only: Let_def)
  have split: "x ^ n = (if odd n then x else 1) * (x * x) ^ (n div 2)"
  proof (cases "odd n")
    case True
    then obtain k where "n = 2 * k + 1" by (rule oddE)
    then show ?thesis by (simp add: power_mult power2_eq_square)
  next
    case False
    then obtain k where "n = 2 * k" by (auto elim: evenE)
    then show ?thesis by (simp add: power_mult power2_eq_square)
  qed
  show ?case
  proof (cases "n div 2 = 0")
    case True
    with less.prems have "n = 1" by auto
    with unroll show ?thesis by simp
  next
    case False
    then have "pow_loop ?r (x * x) (n div 2) = ?r * (x * x) ^ (n div 2)"
      using less.IH [of "n div 2"] less.prems by simp
    with unroll False split show ?thesis by (simp add: mult.assoc)
  qed
qed

lemma calc_result_real:
  "real_op op \<Longrightarrow> calc_result op a b = Inl e \<Longrightarrow>
   e = Arithmetic_trap \<and> traps a b \<or> (\<exists>msg. e = TECO_ERROR_FAILED msg)"
  by (auto simp: calc_result_def calc_pow_def real_op_iff split: teco_operator.splits if_splits)

section \<open>Formatting\<close>

text \<open>
  \<open>teco_expressions_format\<close> writes backwards into a buffer of \<open>TECO_EXPRESSIONS_FORMAT_LEN\<close> bytes.
  The digit byte is computed in \<open>gchar\<close>s: \<open>'0' + ABS(v % radix)\<close>, moved to the letters when it
  is above \<open>'9'\<close>. A radix of 0 traps; \<open>None\<close> is that, and the end of the buffer being passed.
\<close>

definition TECO_EXPRESSIONS_FORMAT_LEN :: nat where
  "TECO_EXPRESSIONS_FORMAT_LEN = 1 + 8 * 8 + 1"

definition digit_byte :: "int \<Rightarrow> char" where
  "digit_byte d =
     (let p = char_of (nat ((48 + d) mod 256))
      in if schar p > 57 then char_of (nat ((48 + d + 7) mod 256)) else p)"

fun format_loop :: "nat \<Rightarrow> int \<Rightarrow> int \<Rightarrow> string \<Rightarrow> string option" where
  "format_loop 0 radix v acc = None"
| "format_loop (Suc room) radix v acc =
     (let acc' = digit_byte \<bar>v smod radix\<bar> # acc; v' = v sdiv radix
      in if v' = 0 then Some acc' else format_loop room radix v' acc')"

definition teco_expressions_format :: "teco_int \<Rightarrow> teco_int \<Rightarrow> string option" where
  "teco_expressions_format number radix =
     (if radix = 0 then None
      else case format_loop (TECO_EXPRESSIONS_FORMAT_LEN - 1) (sint radix) (sint number) [] of
        None \<Rightarrow> None
      | Some digits \<Rightarrow>
          if sint number < 0 then
            if length digits < TECO_EXPRESSIONS_FORMAT_LEN - 1 then Some (CHR ''-'' # digits) else None
          else Some digits)"

section \<open>Reading numbers from the buffer\<close>

text \<open>
  The reading branch of \<open>teco_state_start_backslash\<close>: the bytes from dot on, the end of the
  document reading as zero; the sign, then digits below the radix, letters in either case. The
  result is what is pushed.
\<close>

definition ascii_upper :: "char \<Rightarrow> int" where
  "ascii_upper c = (if 97 \<le> schar c \<and> schar c \<le> 122 then schar c - 32 else schar c)"

definition backslash_digit :: "int \<Rightarrow> char \<Rightarrow> int option" where
  "backslash_digit radix c =
     (let u = ascii_upper c in
      if 48 \<le> u \<and> u \<le> 48 + min radix 10 - 1 then Some (u - 48)
      else if 65 \<le> u \<and> u \<le> 65 + min (radix - 10) 26 - 1 then Some (10 + (u - 65))
      else None)"

fun backslash_loop :: "teco_int \<Rightarrow> teco_int \<Rightarrow> string \<Rightarrow> teco_int" where
  "backslash_loop radix v [] = v"
| "backslash_loop radix v (c # cs) =
     (case backslash_digit (sint radix) c of
        None \<Rightarrow> v | Some d \<Rightarrow> backslash_loop radix (v * radix + word_of_int d) cs)"

definition backslash_read :: "teco_int \<Rightarrow> string \<Rightarrow> teco_int" where
  "backslash_read radix text =
     (case text of
        c # cs \<Rightarrow> if c = CHR ''-'' then - 1 * backslash_loop radix 0 cs else 1 * backslash_loop radix 0 text
      | [] \<Rightarrow> 1 * backslash_loop radix 0 [])"

section \<open>Laws of the number format\<close>

function digits_of :: "nat \<Rightarrow> nat \<Rightarrow> nat list" where
  "digits_of b n = (if n < b \<or> b < 2 then [n] else digits_of b (n div b) @ [n mod b])"
  by pat_completeness auto
termination
  by (relation "measure (\<lambda>(b, n). n)") auto

declare digits_of.simps [simp del]

lemma length_digits_of: "2 \<le> b \<Longrightarrow> n < 2 ^ k \<Longrightarrow> 0 < k \<Longrightarrow> length (digits_of b n) \<le> k"
proof (induction b n arbitrary: k rule: digits_of.induct)
  case (1 b n)
  show ?case
  proof (cases "n < b")
    case True
    then show ?thesis using 1(4) by (subst digits_of.simps) simp
  next
    case False
    have "k \<noteq> 1" using 1(2,3) False by auto
    then obtain j where k: "k = Suc j" "0 < j" using 1(4) by (cases k) auto
    have "n div b \<le> n div 2" using 1(2) by (simp add: div_le_mono2)
    also have "n div 2 < 2 ^ j" using 1(3) by (simp add: k less_mult_imp_div_less mult.commute)
    finally have "length (digits_of b (n div b)) \<le> j" using 1(1) [of j] 1(2) False k by simp
    then show ?thesis using False 1(2) by (subst digits_of.simps) (simp add: k)
  qed
qed

lemma digits_of_bound: "2 \<le> b \<Longrightarrow> d \<in> set (digits_of b n) \<Longrightarrow> d < b"
proof (induction b n rule: digits_of.induct)
  case (1 b n)
  then show ?case by (subst (asm) (2) digits_of.simps) (auto split: if_splits)
qed

lemma digits_of_value: "2 \<le> b \<Longrightarrow> foldl (\<lambda>v d. v * b + d) 0 (digits_of b n) = n"
proof (induction b n rule: digits_of.induct)
  case (1 b n)
  then show ?case by (subst digits_of.simps) (auto simp: mult.commute)
qed

lemma sdiv_abs: "0 < r \<Longrightarrow> \<bar>v sdiv r\<bar> = \<bar>v\<bar> div r" for v r :: int
  by (simp add: signed_divide_int_def abs_mult sgn_if pos_imp_zdiv_nonneg_iff)

lemma smod_abs: "0 < r \<Longrightarrow> \<bar>v smod r\<bar> = \<bar>v\<bar> mod r" for v r :: int
proof -
  assume r: "0 < r"
  have "v smod r = sgn v * (\<bar>v\<bar> mod r)"
    using r by (cases "0 \<le> v") (auto simp: signed_modulo_int_def signed_divide_int_def sgn_if minus_div_mult_eq_mod [symmetric])
  moreover have "0 \<le> \<bar>v\<bar> mod r" using r by simp
  ultimately show ?thesis by (auto simp: abs_mult sgn_if)
qed

lemma format_loop_digits:
  assumes "2 \<le> b"
  shows "length (digits_of b (nat \<bar>v\<bar>)) \<le> room \<Longrightarrow>
    format_loop room (int b) v acc = Some (map (\<lambda>d. digit_byte (int d)) (digits_of b (nat \<bar>v\<bar>)) @ acc)"
proof (induction room arbitrary: v acc)
  case 0
  then show ?case by (subst (asm) digits_of.simps) (simp split: if_splits)
next
  case (Suc room)
  have d: "\<bar>v smod int b\<bar> = int (nat \<bar>v\<bar> mod b)" "nat \<bar>v sdiv int b\<bar> = nat \<bar>v\<bar> div b"
    using assms by (simp_all add: sdiv_abs smod_abs nat_mod_distrib zmod_int nat_div_distrib)
  have z: "v sdiv int b = 0 \<longleftrightarrow> nat \<bar>v\<bar> < b"
    using d(2) assms by (metis abs_eq_0 div_eq_0_iff nat_0_iff abs_ge_zero order_antisym not_numeral_le_zero)
  show ?case
  proof (cases "nat \<bar>v\<bar> < b")
    case True
    then show ?thesis using d(1) z by (subst digits_of.simps) (simp add: Let_def)
  next
    case False
    then have u: "digits_of b (nat \<bar>v\<bar>) = digits_of b (nat \<bar>v\<bar> div b) @ [nat \<bar>v\<bar> mod b]"
      using assms by (subst digits_of.simps) simp
    then have "length (digits_of b (nat \<bar>v sdiv int b\<bar>)) \<le> room" using Suc.prems d(2) by simp
    from Suc.IH [OF this] show ?thesis using False z d by (simp add: Let_def u)
  qed
qed

lemma format_digits:
  assumes "2 \<le> sint radix"
  shows "teco_expressions_format number radix =
      Some ((if sint number < 0 then ''-'' else '''') @
        map (\<lambda>d. digit_byte (int d)) (digits_of (nat (sint radix)) (nat \<bar>sint number\<bar>)))"
    and "length (digits_of (nat (sint radix)) (nat \<bar>sint number\<bar>)) \<le> 64"
proof -
  let ?b = "nat (sint radix)" and ?n = "nat \<bar>sint number\<bar>"
  have "- (2 ^ 63) \<le> sint number" "sint number < 2 ^ 63"
    using sint_greater_eq [of number] sint_less [of number] by simp_all
  then have "?n < 2 ^ 64" by simp
  then show l: "length (digits_of ?b ?n) \<le> 64" using assms by (intro length_digits_of) auto
  have "radix \<noteq> 0" using assms by auto
  moreover have "format_loop 65 (int ?b) (sint number) [] = Some (map (\<lambda>d. digit_byte (int d)) (digits_of ?b ?n) @ [])"
    using assms l by (intro format_loop_digits) auto
  ultimately show "teco_expressions_format number radix =
      Some ((if sint number < 0 then ''-'' else '''') @ map (\<lambda>d. digit_byte (int d)) (digits_of ?b ?n))"
    using assms l by (cases "sint number < 0") (simp_all add: teco_expressions_format_def TECO_EXPRESSIONS_FORMAT_LEN_def)
qed

lemma schar_char_of: "0 \<le> x \<Longrightarrow> x < 128 \<Longrightarrow> schar (char_of (nat x)) = x"
proof -
  assume x: "0 \<le> x" "x < 128"
  have "(of_char (char_of (nat x) :: char) :: int) = int (of_char (char_of (nat x) :: char) :: nat)"
    by (simp only: of_nat_of_char)
  also have "(of_char (char_of (nat x) :: char) :: nat) = nat x" using x by simp
  also have "int (nat x) = x" using x by simp
  finally show ?thesis using x by (simp add: schar_def)
qed

lemma upper_digit_byte:
  assumes "0 \<le> d" "d < 36"
  shows "ascii_upper (digit_byte d) = (if d < 10 then 48 + d else 55 + d)"
proof -
  have "(48 + d) mod 256 = 48 + d" "(48 + d + 7) mod 256 = 55 + d" using assms by simp_all
  then show ?thesis
    using assms schar_char_of [of "48 + d"] schar_char_of [of "55 + d"]
    by (simp add: digit_byte_def ascii_upper_def Let_def)
qed

lemma digit_read: "0 \<le> d \<Longrightarrow> d < r \<Longrightarrow> r \<le> 36 \<Longrightarrow> backslash_digit r (digit_byte d) = Some d"
  by (simp add: backslash_digit_def upper_digit_byte Let_def)

lemma digit_byte_minus: "0 \<le> d \<Longrightarrow> d < 36 \<Longrightarrow> digit_byte d \<noteq> CHR ''-''"
proof
  assume d: "0 \<le> d" "d < 36" "digit_byte d = CHR ''-''"
  have "ascii_upper (CHR ''-'') = 45" by (simp add: ascii_upper_def schar_def)
  then show False using upper_digit_byte [OF d(1,2)] d by (simp split: if_splits)
qed

lemma backslash_digits:
  assumes "\<forall>d \<in> set ds. int d < sint radix" "sint radix \<le> 36"
    and "rest = [] \<or> backslash_digit (sint radix) (hd rest) = None"
  shows "backslash_loop radix v (map (\<lambda>d. digit_byte (int d)) ds @ rest) = foldl (\<lambda>v d. v * radix + of_nat d) v ds"
  using assms(1)
proof (induction ds arbitrary: v)
  case Nil
  then show ?case using assms(3) by (cases rest) auto
next
  case (Cons d ds)
  then show ?case using assms(2) by (simp add: digit_read)
qed

lemma foldl_of_nat: "foldl (\<lambda>v d. v * of_nat b + of_nat d) (of_nat a) ds = (of_nat (foldl (\<lambda>v d. v * b + d) a ds) :: teco_int)"
  by (induction ds arbitrary: a) (simp_all flip: of_nat_mult of_nat_add)

lemma backslash_format:
  assumes r: "2 \<le> sint radix" "sint radix \<le> 36"
    and f: "teco_expressions_format number radix = Some s"
    and rest: "rest = [] \<or> backslash_digit (sint radix) (hd rest) = None"
  shows "backslash_read radix (s @ rest) = number"
proof -
  let ?b = "nat (sint radix)" and ?n = "nat \<bar>sint number\<bar>"
  let ?ds = "digits_of ?b ?n" and ?t = "map (\<lambda>d. digit_byte (int d)) (digits_of ?b ?n)"
  have b: "2 \<le> ?b" using r by simp
  have "(of_nat ?b :: teco_int) = of_int (sint radix)" using r by (intro of_nat_nat) simp
  then have radix: "radix = of_nat ?b" by simp
  have ds: "\<forall>d \<in> set ?ds. int d < sint radix" using digits_of_bound [OF b] r by fastforce
  have v: "backslash_loop radix 0 (?t @ rest) = of_nat ?n"
    using backslash_digits [OF ds r(2) rest, of 0] foldl_of_nat [of ?b 0 ?ds] digits_of_value [OF b, of ?n] radix
    by simp
  have "(of_nat ?n :: teco_int) = of_int \<bar>sint number\<bar>" by (intro of_nat_nat) simp
  then have n: "(of_nat ?n :: teco_int) = (if sint number < 0 then - number else number)"
    by (simp add: abs_if)
  have s: "s = (if sint number < 0 then ''-'' else '''') @ ?t"
    using f format_digits(1) [OF r(1), of number] by simp
  obtain d ds' where e: "?ds = d # ds'" by (cases ?ds) (simp_all add: digits_of.simps [of ?b ?n] split: if_splits)
  have "d < ?b" using ds e r by auto
  then have h: "digit_byte (int d) \<noteq> CHR ''-''" using r by (intro digit_byte_minus) auto
  show ?thesis
  proof (cases "sint number < 0")
    case True
    then show ?thesis using v n by (simp add: s backslash_read_def)
  next
    case False
    then have "backslash_read radix (s @ rest) = 1 * backslash_loop radix 0 (?t @ rest)"
      using h by (simp only: s e backslash_read_def) simp
    then show ?thesis using v n False by simp
  qed
qed

section \<open>Properties\<close>

text \<open>
  C17: Exponentiation by squaring computes the power, modulo the size of \<open>teco_int_t\<close>; exponents that
  are zero or negative have the special results of the source.
\<close>

theorem pow_correct:
  "calc_result TECO_OP_POW b e =
     (if 0 < sint e then Inr (b ^ nat (sint e))
      else if e = 0 then Inr (if sint b < 0 then - 1 else 1)
      else if b = 0 then Inl (TECO_ERROR_FAILED ''Negative power of 0 is not defined'')
      else if b = 1 \<or> b = - 1 then Inr b else Inr 0)"
proof -
  consider "0 < sint e" | "sint e < 0" | "e = 0"
    using signed_eq_0_iff [where 'a = int, of e] by fastforce
  then show ?thesis
  proof cases
    case 1
    then have "e \<noteq> 0" "\<not> sint e < 0" by auto
    then show ?thesis using 1 by (simp add: calc_result_def calc_pow_def pow_loop_power)
  next
    case 2
    then have "e \<noteq> 0" "\<not> 0 < sint e" by auto
    then show ?thesis using 2 by (simp add: calc_result_def calc_pow_def)
  qed (simp add: calc_result_def calc_pow_def)
qed

text \<open>
  C16: Formatting a number in a radix of at least 2 never overruns the buffer of
  \<open>TECO_EXPRESSIONS_FORMAT_LEN\<close> bytes (its terminating zero included) and never yields an empty string.
\<close>

theorem format_fits:
  assumes "2 \<le> sint radix"
  shows "\<exists>str. teco_expressions_format number radix = Some str \<and> str \<noteq> [] \<and>
     length str + 1 \<le> TECO_EXPRESSIONS_FORMAT_LEN"
proof -
  let ?ds = "digits_of (nat (sint radix)) (nat \<bar>sint number\<bar>)"
  have "?ds \<noteq> []" by (subst digits_of.simps) simp
  then show ?thesis
    using format_digits [OF assms, of number] by (auto simp: TECO_EXPRESSIONS_FORMAT_LEN_def)
qed

theorem format_fits_witness:
  "\<exists>str. teco_expressions_format (- 9223372036854775808) 2 = Some str \<and> str \<noteq> [] \<and>
     length str + 1 \<le> TECO_EXPRESSIONS_FORMAT_LEN"
  by (rule format_fits) simp

text \<open>
  C15: A number inserted into the buffer with \<open>n\\\<close> in a radix from 2 to 36 is read back by \<open>\\\<close>,
  whatever text follows it, unless that continues the number.
\<close>

theorem backslash_roundtrip:
  assumes "2 \<le> sint radix" "sint radix \<le> 36" "teco_expressions_format number radix = Some str"
    and "rest = [] \<or> backslash_digit (sint radix) (hd rest) = None"
  shows "backslash_read radix (str @ rest) = number"
  by (rule backslash_format) (use assms in blast)+

theorem backslash_roundtrip_witness:
  "backslash_read 16 (''-FF'' @ '' apples'') = - 255"
proof (rule backslash_roundtrip)
  show "teco_expressions_format (- 255) 16 = Some ''-FF''"
    by code_simp
qed (simp_all add: backslash_digit_def ascii_upper_def schar_def Let_def)

end
