(* ===== verification/Glob.thy ===== *)
theory Glob
  imports Text
begin

text \<open>
  Glob patterns (\<open>src/glob.c\<close>): escaping a string so that it matches itself, and the translation
  of a pattern to the PCRE regular expression that is given to GLib. Patterns are C strings, so
  they contain no zero byte. The directory walk and the EN command are not modelled.
\<close>

section \<open>Escaping\<close>

fun teco_globber_escape_pattern :: "string \<Rightarrow> string" where
  "teco_globber_escape_pattern [] = []"
| "teco_globber_escape_pattern (c # cs) =
     (if c = CHR ''*'' \<or> c = CHR ''?'' \<or> c = CHR ''['' then CHR ''['' # c # CHR '']'' # teco_globber_escape_pattern cs
      else c # teco_globber_escape_pattern cs)"

text \<open>The first loop of the function, which computes the size of the buffer.\<close>

fun escaped_len :: "string \<Rightarrow> nat" where
  "escaped_len [] = 1"
| "escaped_len (c # cs) = (if c = CHR ''*'' \<or> c = CHR ''?'' \<or> c = CHR ''['' then 3 else 1) + escaped_len cs"

section \<open>Compilation\<close>

datatype glob_state = STATE_WILDCARD | STATE_CLASS_START | STATE_CLASS_NEGATE | STATE_CLASS

text \<open>Outside a class: the output for the character \<open>c\<close>, \<open>rest\<close> being what follows it.\<close>

definition glob_wildcard :: "char \<Rightarrow> string \<Rightarrow> string \<times> glob_state" where
  "glob_wildcard c rest =
     (if c = CHR ''*'' then (''.*'', STATE_WILDCARD)
      else if c = CHR ''?'' then (''.'', STATE_WILDCARD)
      else if c = CHR ''['' \<and> CHR '']'' \<in> set rest then (''['', STATE_CLASS_START)
      else if c \<in> {CHR ''['', CHR 0x5C, CHR ''^'', CHR ''$'', CHR ''.'', CHR ''|'', CHR ''('', CHR '')'', CHR ''+'', CHR ''{''}
        then ([CHR 0x5C, c], STATE_WILDCARD)
      else ([c], STATE_WILDCARD))"

text \<open>Within a class.\<close>

definition glob_class :: "glob_state \<Rightarrow> char \<Rightarrow> string \<times> glob_state" where
  "glob_class state c =
     (if c = CHR ''!'' \<and> (state = STATE_CLASS_NEGATE \<or> state = STATE_CLASS) then (''!'', STATE_CLASS)
      else if c = CHR ''!'' \<or> c = CHR ''^'' then
        (''^'', if state = STATE_CLASS_START then STATE_CLASS_NEGATE else STATE_CLASS)
      else if c = CHR '']'' \<and> state = STATE_CLASS then ('']'', STATE_WILDCARD)
      else if c \<in> {CHR '']'', CHR 0x5C, CHR ''[''} then ([CHR 0x5C, c], STATE_CLASS)
      else ([c], STATE_CLASS))"

definition glob_step :: "glob_state \<Rightarrow> char \<Rightarrow> string \<Rightarrow> string \<times> glob_state" where
  "glob_step state c rest = (if state = STATE_WILDCARD then glob_wildcard c rest else glob_class state c)"

fun compile_loop :: "glob_state \<Rightarrow> string \<Rightarrow> string \<times> glob_state" where
  "compile_loop state [] = ([], state)"
| "compile_loop state (c # rest) =
     (let (out, state') = glob_step state c rest; (out', state'') = compile_loop state' rest
      in (out @ out', state''))"

definition teco_globber_compile_pattern :: "string \<Rightarrow> string" where
  "teco_globber_compile_pattern pattern = fst (compile_loop STATE_WILDCARD pattern) @ ''$''"

section \<open>Laws\<close>

lemma escaped_len_exact: "escaped_len s = Suc (length (teco_globber_escape_pattern s))"
  by (induction s) auto

lemma glob_step_length: "length (fst (glob_step state c rest)) \<le> 2"
  by (simp add: glob_step_def glob_wildcard_def glob_class_def)

lemma compile_loop_length: "length (fst (compile_loop state p)) \<le> 2 * length p"
proof (induction state p rule: compile_loop.induct)
  case (2 state c rest)
  obtain out state' where s: "glob_step state c rest = (out, state')" by fastforce
  obtain out' state'' where l: "compile_loop state' rest = (out', state'')" by fastforce
  have "length out \<le> 2" using glob_step_length [of state c rest] s by simp
  moreover have "length out' \<le> 2 * length rest" using 2 [OF s [symmetric] refl] l by simp
  ultimately show ?case by (simp add: s l)
qed simp

text \<open>
  The bytes an escaped string compiles to: every byte of the string stands for itself, as it is,
  after a backslash, or as the only member of a class.
\<close>

fun literal_byte :: "char \<Rightarrow> string" where
  "literal_byte c =
     (if c = CHR ''*'' \<or> c = CHR ''?'' then [CHR ''['', c, CHR '']'']
      else if c = CHR ''['' then [CHR ''['', CHR 0x5C, c, CHR '']'']
      else if c \<in> {CHR 0x5C, CHR ''^'', CHR ''$'', CHR ''.'', CHR ''|'', CHR ''('', CHR '')'', CHR ''+'', CHR ''{''}
        then [CHR 0x5C, c]
      else [c])"

lemma compile_escaped_loop:
  "compile_loop STATE_WILDCARD (teco_globber_escape_pattern s) = (concat (map literal_byte s), STATE_WILDCARD)"
  by (induction s) (auto simp: glob_step_def glob_wildcard_def glob_class_def Let_def)

section \<open>Properties\<close>

text \<open>
  C18: Compiling an escaped string gives a pattern in which every byte stands for itself: as it is,
  after a backslash, or as the only member of a class; no wildcard is left.
\<close>

theorem glob_escape_literal:
  "teco_globber_compile_pattern (teco_globber_escape_pattern s) = concat (map literal_byte s) @ ''$''"
  by (simp add: teco_globber_compile_pattern_def compile_escaped_loop)

text \<open>
  C19: The buffers are large enough: the escaped pattern has exactly the size computed for it (zero
  byte included), and a compiled pattern fits into twice the pattern's length plus two bytes.
\<close>

theorem glob_buffers:
  "length (teco_globber_escape_pattern s) + 1 = escaped_len s \<and>
   length (teco_globber_compile_pattern p) + 1 \<le> 2 * length p + 2"
  using compile_loop_length [of STATE_WILDCARD p] by (simp add: escaped_len_exact teco_globber_compile_pattern_def)

end
