(* ===== verification/StringBuilding.thy ===== *)
theory StringBuilding
  imports Numbers Glob
begin

text \<open>
  The two nested parsers for string arguments: the string building machine (\<open>src/parser.c\<close>) and the
  Q-register specification machine (\<open>src/qreg.c\<close>), which contain each other. They are modelled as
  they run in macros (\<open>must_undo\<close> is false): a step takes the machine, a character and the
  target string (\<open>None\<close> is the \<open>NULL\<close> of parse-only mode) and returns the new machine and target,
  or an error. What they read of the registers is a record of functions.
\<close>

section \<open>Machines\<close>

datatype sb_state =
    SB_start | SB_ctl | SB_escaped | SB_lower | SB_lower_ctl | SB_upper | SB_upper_ctl | SB_ctle
  | SB_ctle_num | SB_ctle_u | SB_ctle_code | SB_ctle_q | SB_ctle_quote | SB_ctle_n

datatype sb_mode =
    TECO_STRINGBUILDING_MODE_NORMAL | TECO_STRINGBUILDING_MODE_UPPER
  | TECO_STRINGBUILDING_MODE_LOWER | TECO_STRINGBUILDING_MODE_DISABLED

datatype qs_state =
    QS_start | QS_start_global | QS_caret | QS_firstchar | QS_secondchar | QS_string

datatype qreg_type = TECO_QREG_REQUIRED | TECO_QREG_OPTIONAL | TECO_QREG_OPTIONAL_INIT

text \<open>
  The fields of \<open>teco_machine_stringbuilding_t\<close> and \<open>teco_machine_qregspec_t\<close>; the result table
  is the local (\<open>True\<close>) or the global one.
\<close>

datatype sb_machine =
    SB (sb_current: sb_state) (sb_mode: sb_mode) (sb_escape_char: unichar) (sb_codepage: nat)
       (sb_code: string) (sb_qregspec: "qs_machine option")
and qs_machine =
    QS (qs_current: qs_state) (qs_type: qreg_type) (qs_parse_only: bool) (qs_nesting: int)
       (qs_name: string) (qs_local: bool) (qs_stringbuilding: sb_machine)

text \<open>
  What the machines read: a register looked up in the local or global table, its integer and its
  string (which may fail for registers with special behaviour), its name and the local radix.
\<close>

record 'q registers =
  find_qreg :: "bool \<Rightarrow> string \<Rightarrow> 'q option"
  get_integer :: "'q \<Rightarrow> teco_error + teco_int"
  get_string :: "'q \<Rightarrow> teco_error + string"
  name_of :: "'q \<Rightarrow> string"
  local_radix :: teco_int
  default_codepage :: nat

definition teco_machine_stringbuilding_init :: "unichar \<Rightarrow> nat \<Rightarrow> sb_machine" where
  "teco_machine_stringbuilding_init escape_char codepage =
     SB SB_start TECO_STRINGBUILDING_MODE_NORMAL escape_char codepage [] None"

definition teco_machine_qregspec_new :: "qreg_type \<Rightarrow> 'q registers \<Rightarrow> qs_machine" where
  "teco_machine_qregspec_new type R =
     QS QS_start type False 0 [] False (teco_machine_stringbuilding_init (uc CHR ''['') (default_codepage R))"

fun sb_goto :: "sb_state \<Rightarrow> sb_machine \<Rightarrow> sb_machine" where
  "sb_goto st (SB _ mode esc cp code spec) = SB st mode esc cp code spec"

fun sb_set_mode :: "sb_mode \<Rightarrow> sb_machine \<Rightarrow> sb_machine" where
  "sb_set_mode mode (SB st _ esc cp code spec) = SB st mode esc cp code spec"

fun sb_set_code :: "string \<Rightarrow> sb_machine \<Rightarrow> sb_machine" where
  "sb_set_code code (SB st mode esc cp _ spec) = SB st mode esc cp code spec"

fun sb_set_qregspec :: "qs_machine option \<Rightarrow> sb_machine \<Rightarrow> sb_machine" where
  "sb_set_qregspec spec (SB st mode esc cp code _) = SB st mode esc cp code spec"

text \<open>\<open>teco_machine_stringbuilding_reset\<close> and \<open>teco_machine_qregspec_reset\<close>.\<close>

fun teco_machine_stringbuilding_reset :: "sb_machine \<Rightarrow> sb_machine"
and teco_machine_qregspec_reset :: "qs_machine \<Rightarrow> qs_machine" where
  "teco_machine_stringbuilding_reset (SB st mode esc cp code spec) =
     SB SB_start TECO_STRINGBUILDING_MODE_NORMAL esc cp code
       (case spec of None \<Rightarrow> None | Some q \<Rightarrow> Some (teco_machine_qregspec_reset q))"
| "teco_machine_qregspec_reset (QS st type po nesting name loc sb) =
     QS QS_start type po 0 [] False (teco_machine_stringbuilding_reset sb)"

section \<open>Output\<close>

text \<open>\<open>teco_machine_stringbuilding_append\<close>: a string with case folding.\<close>

definition sb_append :: "glib \<Rightarrow> sb_machine \<Rightarrow> string \<Rightarrow> string \<Rightarrow> string" where
  "sb_append G m str target = target @
     (case sb_mode m of
        TECO_STRINGBUILDING_MODE_UPPER \<Rightarrow>
          (if sb_codepage m = SC_CP_UTF8 then g_utf8_strup G str else g_ascii_strup G str)
      | TECO_STRINGBUILDING_MODE_LOWER \<Rightarrow>
          (if sb_codepage m = SC_CP_UTF8 then g_utf8_strdown G str else g_ascii_strdown G str)
      | _ \<Rightarrow> str)"

text \<open>\<open>teco_machine_stringbuilding_append_c\<close>: one code point given as a number; \<open>None\<close> is FALSE.\<close>

definition sb_append_c :: "glib \<Rightarrow> sb_machine \<Rightarrow> int \<Rightarrow> string \<Rightarrow> string option" where
  "sb_append_c G m value target =
     (if sb_codepage m = SC_CP_UTF8 then
        (let c = word_of_int value in
         if value < 0 \<or> \<not> g_unichar_validate G c then None
         else Some (teco_string_append_wc G target
           (case sb_mode m of
              TECO_STRINGBUILDING_MODE_UPPER \<Rightarrow> g_unichar_toupper G c
            | TECO_STRINGBUILDING_MODE_LOWER \<Rightarrow> g_unichar_tolower G c
            | _ \<Rightarrow> c)))
      else if value < 0 \<or> 0xFF < value then None
      else
        (let c = char_of (nat value) in
         Some (target @ [case sb_mode m of
              TECO_STRINGBUILDING_MODE_UPPER \<Rightarrow> g_ascii_toupper G c
            | TECO_STRINGBUILDING_MODE_LOWER \<Rightarrow> g_ascii_tolower G c
            | _ \<Rightarrow> c])))"

text \<open>Case folding of a single input character in the escaped, lower and upper states.\<close>

definition fold_char :: "nat \<Rightarrow> (unichar \<Rightarrow> unichar) \<Rightarrow> unichar \<Rightarrow> unichar" where
  "fold_char codepage f chr = (if codepage = SC_CP_UTF8 \<or> chr < 0x80 then f chr else chr)"

definition append_char :: "glib \<Rightarrow> unichar \<Rightarrow> string option \<Rightarrow> string option" where
  "append_char G chr result = map_option (\<lambda>r. teco_string_append_wc G r chr) result"

section \<open>States without nesting\<close>

text \<open>Each input function returns the machine with its fields changed, the next state and the target.\<close>

definition sb_escaped_input ::
  "glib \<Rightarrow> sb_machine \<Rightarrow> unichar \<Rightarrow> string option \<Rightarrow> sb_machine \<times> sb_state \<times> string option" where
  "sb_escaped_input G m chr result =
     (m, SB_start, append_char G
        (case sb_mode m of
           TECO_STRINGBUILDING_MODE_UPPER \<Rightarrow> fold_char (sb_codepage m) (g_unichar_toupper G) chr
         | TECO_STRINGBUILDING_MODE_LOWER \<Rightarrow> fold_char (sb_codepage m) (g_unichar_tolower G) chr
         | _ \<Rightarrow> chr) result)"

definition sb_ctl_input ::
  "glib \<Rightarrow> sb_machine \<Rightarrow> unichar \<Rightarrow> string option \<Rightarrow> sb_machine \<times> sb_state \<times> string option" where
  "sb_ctl_input G m chr0 result =
     (let chr = teco_ascii_toupper chr0 in
      if chr = uc CHR ''^'' then (m, SB_start, append_char G chr result)
      else if chr = uc CHR ''P'' then (sb_set_mode TECO_STRINGBUILDING_MODE_DISABLED m, SB_start, result)
      else if chr = uc CHR ''Q'' \<or> chr = uc CHR ''R'' then (m, SB_escaped, result)
      else if chr = uc CHR ''V'' then (m, SB_lower, result)
      else if chr = uc CHR ''W'' then (m, SB_upper, result)
      else if chr = uc CHR ''E'' then (m, SB_ctle, result)
      else if chr < uc CHR ''@'' \<or> uc CHR ''_'' < chr then
        (m, SB_start, append_char G chr (map_option (\<lambda>r. r @ ''^'') result))
      else (m, SB_start, append_char G (teco_ctl_key chr) result))"

definition sb_start_input ::
  "glib \<Rightarrow> sb_machine \<Rightarrow> unichar \<Rightarrow> string option \<Rightarrow> sb_machine \<times> sb_state \<times> string option" where
  "sb_start_input G m chr result =
     (if sb_mode m \<noteq> TECO_STRINGBUILDING_MODE_DISABLED \<and> chr = uc CHR ''^'' then (m, SB_ctl, result)
      else if sb_mode m \<noteq> TECO_STRINGBUILDING_MODE_DISABLED \<and> chr \<noteq> teco_ctl_key (uc CHR ''^'') \<and> teco_is_ctl chr
        then sb_ctl_input G m (teco_ctl_echo chr) result
      else sb_escaped_input G m chr result)"

text \<open>The \<open>lower\<close> and \<open>upper\<close> states differ in the letter, the mode and the folding function.\<close>

definition sb_case_ctl_input :: "char \<Rightarrow> sb_mode \<Rightarrow>
  glib \<Rightarrow> sb_machine \<Rightarrow> unichar \<Rightarrow> string option \<Rightarrow> sb_machine \<times> sb_state \<times> string option" where
  "sb_case_ctl_input letter mode G m chr0 result =
     (let chr = teco_ascii_toupper chr0 in
      case result of None \<Rightarrow> (m, SB_start, None)
      | Some r \<Rightarrow>
          if chr = uc letter then (sb_set_mode mode m, SB_start, Some r)
          else (m, SB_start, append_char G (teco_ctl_key chr) (Some r)))"

definition sb_lower_ctl_input where
  "sb_lower_ctl_input = sb_case_ctl_input CHR ''V'' TECO_STRINGBUILDING_MODE_LOWER"

definition sb_upper_ctl_input where
  "sb_upper_ctl_input = sb_case_ctl_input CHR ''W'' TECO_STRINGBUILDING_MODE_UPPER"

definition sb_lower_input ::
  "glib \<Rightarrow> sb_machine \<Rightarrow> unichar \<Rightarrow> string option \<Rightarrow> sb_machine \<times> sb_state \<times> string option" where
  "sb_lower_input G m chr result =
     (if chr = uc CHR ''^'' then (m, SB_lower_ctl, result)
      else if teco_is_ctl chr then sb_lower_ctl_input G m (teco_ctl_echo chr) result
      else (m, SB_start, append_char G (fold_char (sb_codepage m) (g_unichar_tolower G) chr) result))"

definition sb_upper_input ::
  "glib \<Rightarrow> sb_machine \<Rightarrow> unichar \<Rightarrow> string option \<Rightarrow> sb_machine \<times> sb_state \<times> string option" where
  "sb_upper_input G m chr result =
     (if chr = uc CHR ''^'' then (m, SB_upper_ctl, result)
      else if teco_is_ctl chr then sb_upper_ctl_input G m (teco_ctl_echo chr) result
      else (m, SB_start, append_char G (fold_char (sb_codepage m) (g_unichar_toupper G) chr) result))"

text \<open>
  \<open>^E\<close>: the constructs with a register (and, as in the source, \<open>^E<...>\<close>) prepare the register
  machine; anything else is taken verbatim.
\<close>

definition sb_ctle_next :: "unichar \<Rightarrow> sb_state option" where
  "sb_ctle_next chr =
     (let c = teco_ascii_toupper chr in
      if c = uc CHR 0x5C then Some SB_ctle_num
      else if c = uc CHR ''U'' then Some SB_ctle_u
      else if c = uc CHR ''<'' then Some SB_ctle_code
      else if c = uc CHR ''Q'' then Some SB_ctle_q
      else if c = uc CHR ''@'' then Some SB_ctle_quote
      else if c = uc CHR ''N'' then Some SB_ctle_n
      else None)"

definition sb_ctle_input ::
  "glib \<Rightarrow> 'q registers \<Rightarrow> sb_machine \<Rightarrow> unichar \<Rightarrow> string option \<Rightarrow> sb_machine \<times> sb_state \<times> string option" where
  "sb_ctle_input G R m chr result =
     (case sb_ctle_next chr of
        None \<Rightarrow> (m, SB_start, map_option (sb_append G m (CHR 0x05 # g_unichar_to_utf8 G chr)) result)
      | Some next \<Rightarrow>
          (sb_set_qregspec (Some (case sb_qregspec m of
               None \<Rightarrow> teco_machine_qregspec_new TECO_QREG_REQUIRED R
             | Some q \<Rightarrow> teco_machine_qregspec_reset q)) m, next, result))"

text \<open>\<open>^E<code>\<close>: the code is collected, and parsed by \<open>g_ascii_strtoll\<close> in any C notation.\<close>

definition sb_ctle_code_input ::
  "glib \<Rightarrow> sb_machine \<Rightarrow> unichar \<Rightarrow> string option \<Rightarrow> teco_error + sb_machine \<times> sb_state \<times> string option" where
  "sb_ctle_code_input G m chr result =
     (if chr = uc CHR ''>'' then
        (case result of None \<Rightarrow> Inr (m, SB_start, None)
         | Some r \<Rightarrow>
             if sb_code m = [] then Inl (TECO_ERROR_CODEPOINT ''^E<>'')
             else (case g_ascii_strtoll G (sb_code m) of
                 None \<Rightarrow> Inl (TECO_ERROR_CODEPOINT (sb_code m))
               | Some (code, n) \<Rightarrow>
                   if n \<noteq> length (sb_code m) then Inl (TECO_ERROR_CODEPOINT (sb_code m))
                   else (case sb_append_c G m code r of
                       None \<Rightarrow> Inl (TECO_ERROR_CODEPOINT (sb_code m))
                     | Some r' \<Rightarrow> Inr (sb_set_code [] m, SB_start, Some r'))))
      else (case result of None \<Rightarrow> Inr (m, SB_ctle_code, None)
         | Some r \<Rightarrow> Inr (sb_set_code (teco_string_append_wc G (sb_code m) chr) m, SB_ctle_code, Some r)))"

section \<open>States with a register specification\<close>

text \<open>What \<open>^E\\q\<close>, \<open>^EUq\<close>, \<open>^EQq\<close>, \<open>^E@q\<close> and \<open>^ENq\<close> append once the register is known.\<close>

definition sb_qreg_text ::
  "glib \<Rightarrow> 'q registers \<Rightarrow> sb_machine \<Rightarrow> sb_state \<Rightarrow> 'q \<Rightarrow> bool \<Rightarrow> string \<Rightarrow> teco_error + string" where
  "sb_qreg_text G R m st q loc r =
     (if st = SB_ctle_num then
        (case get_integer R q of Inl e \<Rightarrow> Inl e
         | Inr v \<Rightarrow> (case teco_expressions_format v (local_radix R) of
             None \<Rightarrow> Inl Arithmetic_trap | Some num \<Rightarrow> Inr (sb_append G m num r)))
      else if st = SB_ctle_u then
        (case get_integer R q of Inl e \<Rightarrow> Inl e
         | Inr v \<Rightarrow> (case sb_append_c G m (sint v) r of
             None \<Rightarrow> Inl (TECO_ERROR_CODEPOINT (teco_string_echo (name_of R q))) | Some r' \<Rightarrow> Inr r'))
      else
        (case get_string R q of Inl e \<Rightarrow> Inl e
         | Inr str \<Rightarrow>
             if st = SB_ctle_q then Inr (sb_append G m str r)
             else if teco_string_contains str (CHR 0x00) then Inl (TECO_ERROR_QREGCONTAINSNULL (name_of R q) loc)
             else if st = SB_ctle_quote then Inr (sb_append G m (g_shell_quote G str) r)
             else Inr (sb_append G m (teco_globber_escape_pattern str) r)))"

text \<open>\<open>teco_state_qregspec_done\<close>; creating a missing register is left to the caller.\<close>

definition qs_done :: "'q registers \<Rightarrow> qreg_type \<Rightarrow> bool \<Rightarrow> bool \<Rightarrow> string \<Rightarrow> teco_error + 'q option" where
  "qs_done R type parse_only loc name =
     (if parse_only then Inr None
      else if type = TECO_QREG_REQUIRED \<and> find_qreg R loc name = None then Inl (TECO_ERROR_INVALIDQREG name loc)
      else Inr (find_qreg R loc name))"

definition qs_append :: "glib \<Rightarrow> bool \<Rightarrow> string \<Rightarrow> unichar \<Rightarrow> string" where
  "qs_append G parse_only name chr = (if parse_only then name else teco_string_append_wc G name chr)"

text \<open>The end of a specification: the machine is back in its start state.\<close>

definition qs_finish :: "'q registers \<Rightarrow> qs_machine \<Rightarrow> teco_error + qs_machine \<times> 'q option" where
  "qs_finish R m =
     (case qs_done R (qs_type m) (qs_parse_only m) (qs_local m) (qs_name m) of
        Inl e \<Rightarrow> Inl e
      | Inr q \<Rightarrow> Inr (QS QS_start (qs_type m) (qs_parse_only m) (qs_nesting m) (qs_name m) (qs_local m)
          (qs_stringbuilding m), q))"

definition qs_start_global_input ::
  "glib \<Rightarrow> 'q registers \<Rightarrow> qs_machine \<Rightarrow> unichar \<Rightarrow> teco_error + qs_machine \<times> 'q option" where
  "qs_start_global_input G R m chr =
     (case m of QS st type po nesting name loc sb \<Rightarrow>
        if chr = uc CHR ''^'' then Inr (QS QS_caret type po nesting name loc sb, None)
        else if chr = uc CHR ''#'' then Inr (QS QS_firstchar type po nesting name loc sb, None)
        else if chr = uc CHR ''['' then Inr (QS QS_string type po (nesting + 1) name loc sb, None)
        else qs_finish R (QS st type po nesting (qs_append G po name (g_unichar_toupper G chr)) loc sb))"

definition qs_simple_input ::
  "glib \<Rightarrow> 'q registers \<Rightarrow> qs_machine \<Rightarrow> unichar \<Rightarrow> teco_error + qs_machine \<times> 'q option" where
  "qs_simple_input G R m chr =
     (case m of QS st type po nesting name loc sb \<Rightarrow>
        (case st of
           QS_start \<Rightarrow>
             if chr = uc CHR ''.'' then Inr (QS QS_start_global type po nesting name True sb, None)
             else qs_start_global_input G R m chr
         | QS_start_global \<Rightarrow> qs_start_global_input G R m chr
         | QS_caret \<Rightarrow>
             (let c = teco_ascii_toupper chr in
              if c < uc CHR ''@'' \<or> uc CHR ''_'' < c then Inl (TECO_ERROR_SYNTAX c)
              else qs_finish R (QS st type po nesting (qs_append G po name (teco_ctl_key c)) loc sb))
         | QS_firstchar \<Rightarrow>
             Inr (QS QS_secondchar type po nesting (qs_append G po name (g_unichar_toupper G chr)) loc sb, None)
         | QS_secondchar \<Rightarrow>
             qs_finish R (QS st type po nesting (qs_append G po name (g_unichar_toupper G chr)) loc sb)
         | QS_string \<Rightarrow> Inl G_assertion_failed))"

text \<open>States of the string building machine that do not enter the register machine.\<close>

definition sb_simple_input ::
  "glib \<Rightarrow> 'q registers \<Rightarrow> sb_machine \<Rightarrow> unichar \<Rightarrow> string option \<Rightarrow> teco_error + sb_machine \<times> sb_state \<times> string option" where
  "sb_simple_input G R m chr result =
     (case sb_current m of
        SB_start \<Rightarrow> Inr (sb_start_input G m chr result)
      | SB_ctl \<Rightarrow> Inr (sb_ctl_input G m chr result)
      | SB_escaped \<Rightarrow> Inr (sb_escaped_input G m chr result)
      | SB_lower \<Rightarrow> Inr (sb_lower_input G m chr result)
      | SB_lower_ctl \<Rightarrow> Inr (sb_lower_ctl_input G m chr result)
      | SB_upper \<Rightarrow> Inr (sb_upper_input G m chr result)
      | SB_upper_ctl \<Rightarrow> Inr (sb_upper_ctl_input G m chr result)
      | SB_ctle \<Rightarrow> Inr (sb_ctle_input G R m chr result)
      | SB_ctle_code \<Rightarrow> sb_ctle_code_input G m chr result
      | _ \<Rightarrow> Inl G_assertion_failed)"

definition sb_with_qreg :: "sb_state \<Rightarrow> bool" where
  "sb_with_qreg st \<longleftrightarrow> st \<in> {SB_ctle_num, SB_ctle_u, SB_ctle_q, SB_ctle_quote, SB_ctle_n}"

text \<open>
  \<open>teco_machine_stringbuilding_input\<close> and \<open>teco_machine_qregspec_input\<close>: one step of
  \<open>teco_machine_input\<close> on the machine's current state.
\<close>

fun teco_machine_stringbuilding_input ::
  "glib \<Rightarrow> 'q registers \<Rightarrow> sb_machine \<Rightarrow> unichar \<Rightarrow> string option \<Rightarrow> teco_error + sb_machine \<times> string option"
and teco_machine_qregspec_input ::
  "glib \<Rightarrow> 'q registers \<Rightarrow> qs_machine \<Rightarrow> unichar \<Rightarrow> bool \<Rightarrow> teco_error + qs_machine \<times> 'q option" where
  "teco_machine_stringbuilding_input G R (SB st mode esc cp code spec) chr result =
     (if sb_with_qreg st then
        (case spec of None \<Rightarrow> Inl G_assertion_failed
         | Some q \<Rightarrow>
            (case teco_machine_qregspec_input G R q chr (result = None) of
               Inl e \<Rightarrow> Inl e
             | Inr (q', reg) \<Rightarrow>
                 if qs_current q' \<noteq> QS_start then Inr (SB st mode esc cp code (Some q'), result)
                 else
                   (case result of
                      None \<Rightarrow> Inr (SB SB_start mode esc cp code (Some q'), None)
                    | Some r \<Rightarrow>
                        (case reg of None \<Rightarrow> Inl G_assertion_failed
                         | Some rg \<Rightarrow>
                            (case sb_qreg_text G R (SB st mode esc cp code spec) st rg (qs_local q') r of
                               Inl e \<Rightarrow> Inl e
                             | Inr r' \<Rightarrow> Inr (SB SB_start mode esc cp code (Some q'), Some r'))))))
      else
        (case sb_simple_input G R (SB st mode esc cp code spec) chr result of
           Inl e \<Rightarrow> Inl e | Inr (m', next, result') \<Rightarrow> Inr (sb_goto next m', result')))"
| "teco_machine_qregspec_input G R (QS st type po0 nesting name loc sb) chr po =
     (if st = QS_string then
        (let nesting' = (if sb_current sb = SB_start \<and> chr = uc CHR ''['' then nesting + 1
                         else if sb_current sb = SB_start \<and> chr = uc CHR '']'' then nesting - 1 else nesting) in
         if sb_current sb = SB_start \<and> chr = uc CHR '']'' \<and> nesting' = 0 then
           qs_finish R (QS st type po nesting' name loc sb)
         else
           (case teco_machine_stringbuilding_input G R sb chr (if po then None else Some name) of
              Inl e \<Rightarrow> Inl e
            | Inr (sb', result) \<Rightarrow>
                Inr (QS QS_string type po nesting' (case result of None \<Rightarrow> name | Some n \<Rightarrow> n) loc sb', None)))
      else qs_simple_input G R (QS st type po nesting name loc sb) chr)"

section \<open>Parse-only mode follows normal mode\<close>

text \<open>
  The part of the machines that decides where a string argument ends: everything but the output
  (names, code), the case folding mode and the code page.
\<close>

fun sb_shape :: "sb_machine \<Rightarrow> sb_machine" and qs_shape :: "qs_machine \<Rightarrow> qs_machine" where
  "sb_shape (SB st mode esc cp code spec) =
     SB st (if mode = TECO_STRINGBUILDING_MODE_DISABLED then mode else TECO_STRINGBUILDING_MODE_NORMAL) esc 0 []
       (case spec of None \<Rightarrow> None | Some q \<Rightarrow> Some (qs_shape q))"
| "qs_shape (QS st type po nesting name loc sb) = QS st type True nesting [] loc (sb_shape sb)"

lemma shape_fields:
  assumes "sb_shape m = sb_shape n"
  shows "sb_current m = sb_current n" "sb_escape_char m = sb_escape_char n"
    "sb_mode m = TECO_STRINGBUILDING_MODE_DISABLED \<longleftrightarrow> sb_mode n = TECO_STRINGBUILDING_MODE_DISABLED"
  using assms by (cases m, cases n, simp split: if_splits)+

lemma shape_reset:
  "sb_shape m = sb_shape n \<Longrightarrow>
   sb_shape (teco_machine_stringbuilding_reset m) = sb_shape (teco_machine_stringbuilding_reset n)"
  "qs_shape p = qs_shape q \<Longrightarrow>
   qs_shape (teco_machine_qregspec_reset p) = qs_shape (teco_machine_qregspec_reset q)"
proof (induction m and p arbitrary: n and q rule: teco_machine_stringbuilding_reset_teco_machine_qregspec_reset.induct)
  case (1 st mode esc cp code spec)
  obtain st' mode' esc' cp' code' spec' where n: "n = SB st' mode' esc' cp' code' spec'" by (cases n)
  have sh: "esc = esc'" "(case spec of None \<Rightarrow> None | Some q \<Rightarrow> Some (qs_shape q)) =
      (case spec' of None \<Rightarrow> None | Some q \<Rightarrow> Some (qs_shape q))"
    using 1(2) by (simp_all add: n)
  show ?case
  proof (cases spec)
    case None
    then show ?thesis using sh by (simp add: n split: option.splits)
  next
    case (Some p)
    then obtain p' where p': "spec' = Some p'" "qs_shape p = qs_shape p'" using sh(2) by (simp split: option.splits)
    show ?thesis using 1(1) [OF Some p'(2)] Some p'(1) sh(1) by (simp add: n)
  qed
next
  case (2 st type po nesting name loc sb)
  obtain st' type' po' nesting' name' loc' sb' where q: "q = QS st' type' po' nesting' name' loc' sb'" by (cases q)
  have "type = type'" "sb_shape sb = sb_shape sb'" using 2(2) by (simp_all add: q)
  then show ?case using 2(1) by (simp add: q)
qed

lemma shape_goto: "sb_shape m = sb_shape n \<Longrightarrow> sb_shape (sb_goto st m) = sb_shape (sb_goto st n)"
  by (cases m, cases n) simp

lemma shape_code [simp]: "sb_shape (sb_set_code c m) = sb_shape m"
  by (cases m) simp

lemma shape_disable:
  "sb_shape m = sb_shape n \<Longrightarrow> sb_shape (sb_set_mode TECO_STRINGBUILDING_MODE_DISABLED m) =
   sb_shape (sb_set_mode TECO_STRINGBUILDING_MODE_DISABLED n)"
  by (cases m, cases n) simp

lemma shape_mode:
  "mo \<noteq> TECO_STRINGBUILDING_MODE_DISABLED \<Longrightarrow> sb_mode m \<noteq> TECO_STRINGBUILDING_MODE_DISABLED \<Longrightarrow>
   sb_shape (sb_set_mode mo m) = sb_shape m"
  by (cases m) simp

lemma shape_spec:
  "sb_shape m = sb_shape n \<Longrightarrow> qs_shape p = qs_shape q \<Longrightarrow>
   sb_shape (sb_set_qregspec (Some p) m) = sb_shape (sb_set_qregspec (Some q) n)"
  by (cases m, cases n) simp

lemma shape_qregspec:
  "sb_shape m = sb_shape n \<Longrightarrow>
   (sb_qregspec m = None \<and> sb_qregspec n = None) \<or>
   (\<exists>p q. sb_qregspec m = Some p \<and> sb_qregspec n = Some q \<and> qs_shape p = qs_shape q)"
  by (cases m, cases n) (auto split: option.splits)

text \<open>The control and case folding states are entered only while string building is enabled.\<close>

definition folding :: "sb_machine \<Rightarrow> bool" where
  "folding m \<longleftrightarrow> (sb_current m \<in> {SB_ctl, SB_lower, SB_lower_ctl, SB_upper, SB_upper_ctl} \<longrightarrow>
     sb_mode m \<noteq> TECO_STRINGBUILDING_MODE_DISABLED)"

fun sb_ok :: "sb_machine \<Rightarrow> bool" and qs_ok :: "qs_machine \<Rightarrow> bool" where
  "sb_ok (SB st mode esc cp code spec) \<longleftrightarrow> folding (SB st mode esc cp code spec) \<and>
     (case spec of None \<Rightarrow> True | Some q \<Rightarrow> qs_ok q)"
| "qs_ok (QS st type po nesting name loc sb) \<longleftrightarrow> sb_ok sb"

lemma ok_init [simp]: "sb_ok (teco_machine_stringbuilding_init esc cp)"
  by (simp add: teco_machine_stringbuilding_init_def folding_def)

lemma ok_new [simp]: "qs_ok (teco_machine_qregspec_new type R)"
  by (simp add: teco_machine_qregspec_new_def)

lemma ok_reset:
  "sb_ok m \<Longrightarrow> sb_ok (teco_machine_stringbuilding_reset m)" "qs_ok q \<Longrightarrow> qs_ok (teco_machine_qregspec_reset q)"
  by (induction m and q rule: teco_machine_stringbuilding_reset_teco_machine_qregspec_reset.induct)
    (auto simp: folding_def split: option.splits)

lemma ok_folding: "sb_ok m \<Longrightarrow> folding m"
  by (cases m) simp

lemma sb_simple_ok:
  assumes "sb_ok m" "sb_simple_input G R m chr result = Inr (m', st, result')"
  shows "sb_ok (sb_goto st m') \<and> (result' = None \<longleftrightarrow> result = None)"
proof -
  obtain cur mode esc cp code spec where m: "m = SB cur mode esc cp code spec" by (cases m)
  show ?thesis
    using assms unfolding m
    apply (cases cur)
    apply (auto simp: sb_simple_input_def sb_start_input_def sb_ctl_input_def sb_escaped_input_def sb_ctle_input_def
        sb_ctle_code_input_def sb_lower_input_def sb_upper_input_def sb_lower_ctl_input_def sb_upper_ctl_input_def
        sb_case_ctl_input_def Let_def append_char_def folding_def sb_ctle_next_def intro!: ok_reset
        split: if_splits option.splits)
    apply metis+
    done
qed

text \<open>One step of the states that do not enter the register machine.\<close>

lemma sb_simple_shape:
  assumes sh: "sb_shape m = sb_shape n" and f: "folding m"
    and run: "sb_simple_input G R m chr (Some r) = Inr (m', st, r')"
  shows "\<exists>n'. sb_simple_input G R n chr None = Inr (n', st, None) \<and> sb_shape m' = sb_shape n'"
proof (cases "sb_current m")
  case SB_ctle
  then have "sb_current n = SB_ctle" using shape_fields [OF sh] by simp
  moreover from SB_ctle run have e: "sb_ctle_input G R m chr (Some r) = (m', st, r')"
    by (simp add: sb_simple_input_def)
  ultimately show ?thesis
    using shape_qregspec [OF sh] sh
    by (auto simp: sb_simple_input_def sb_ctle_input_def split: option.splits
        intro!: shape_spec shape_reset)
next
  case SB_ctle_code
  then have "sb_current n = SB_ctle_code" using shape_fields [OF sh] by simp
  then show ?thesis
    using SB_ctle_code run sh by (auto simp: sb_simple_input_def sb_ctle_code_input_def split: if_splits option.splits)
next
  case SB_start
  then have "sb_current n = SB_start" using shape_fields [OF sh] by simp
  then show ?thesis
    using SB_start run sh shape_fields(3) [OF sh] shape_disable [OF sh]
    by (auto simp: sb_simple_input_def sb_start_input_def sb_ctl_input_def sb_escaped_input_def Let_def
        append_char_def split: if_splits)
next
  case SB_ctl
  then have "sb_current n = SB_ctl" using shape_fields [OF sh] by simp
  then show ?thesis
    using SB_ctl run sh shape_disable [OF sh]
    by (auto simp: sb_simple_input_def sb_ctl_input_def Let_def append_char_def split: if_splits)
next
  case SB_lower
  then have "sb_current n = SB_lower" "sb_mode m \<noteq> TECO_STRINGBUILDING_MODE_DISABLED"
    using shape_fields [OF sh] f by (simp_all add: folding_def)
  then show ?thesis
    using SB_lower run sh
    by (auto simp: sb_simple_input_def sb_lower_input_def sb_lower_ctl_input_def sb_case_ctl_input_def Let_def
        append_char_def shape_mode split: if_splits)
next
  case SB_lower_ctl
  then have "sb_current n = SB_lower_ctl" "sb_mode m \<noteq> TECO_STRINGBUILDING_MODE_DISABLED"
    using shape_fields [OF sh] f by (simp_all add: folding_def)
  then show ?thesis
    using SB_lower_ctl run sh
    by (auto simp: sb_simple_input_def sb_lower_ctl_input_def sb_case_ctl_input_def Let_def
        append_char_def shape_mode split: if_splits)
next
  case SB_upper
  then have "sb_current n = SB_upper" "sb_mode m \<noteq> TECO_STRINGBUILDING_MODE_DISABLED"
    using shape_fields [OF sh] f by (simp_all add: folding_def)
  then show ?thesis
    using SB_upper run sh
    by (auto simp: sb_simple_input_def sb_upper_input_def sb_upper_ctl_input_def sb_case_ctl_input_def Let_def
        append_char_def shape_mode split: if_splits)
next
  case SB_upper_ctl
  then have "sb_current n = SB_upper_ctl" "sb_mode m \<noteq> TECO_STRINGBUILDING_MODE_DISABLED"
    using shape_fields [OF sh] f by (simp_all add: folding_def)
  then show ?thesis
    using SB_upper_ctl run sh
    by (auto simp: sb_simple_input_def sb_upper_ctl_input_def sb_case_ctl_input_def Let_def
        append_char_def shape_mode split: if_splits)
next
  case SB_escaped
  then have "sb_current n = SB_escaped" using shape_fields [OF sh] by simp
  then show ?thesis using SB_escaped run sh by (auto simp: sb_simple_input_def sb_escaped_input_def append_char_def)
qed (use run in \<open>simp_all add: sb_simple_input_def\<close>)

text \<open>
  Simulation: whenever the machine accepts a character in normal mode, a machine of the same
  shape accepts it in parse-only mode, and they have the same shape afterwards.
\<close>

lemma qs_finish_shape:
  assumes "qs_finish R p = Inr (p', reg)" "qs_shape p = qs_shape q" "qs_parse_only q"
  shows "\<exists>q'. qs_finish R q = Inr (q', None) \<and> qs_shape p' = qs_shape q'"
  using assms by (cases p; cases q) (auto simp: qs_finish_def qs_done_def split: sum.splits if_splits)

lemma qs_finish_ok: "qs_finish R p = Inr (p', reg) \<Longrightarrow> qs_ok p \<Longrightarrow> qs_ok p'"
  by (cases p) (auto simp: qs_finish_def split: sum.splits)

lemma qs_simple_shape:
  assumes "qs_simple_input G R p chr = Inr (p', reg)" "qs_shape p = qs_shape q" "qs_parse_only q" "qs_ok p"
  shows "(\<exists>q'. qs_simple_input G R q chr = Inr (q', None) \<and> qs_shape p' = qs_shape q') \<and> qs_ok p'"
  using assms
  by (cases p; cases q; cases "qs_current p")
    (auto simp: qs_simple_input_def qs_start_global_input_def Let_def split: if_splits
      dest: qs_finish_ok elim: qs_finish_shape)

theorem shape_step:
  "sb_shape m = sb_shape n \<Longrightarrow> sb_ok m \<Longrightarrow>
   teco_machine_stringbuilding_input G R m chr (Some r) = Inr (m', r') \<Longrightarrow>
   (\<exists>n'. teco_machine_stringbuilding_input G R n chr None = Inr (n', None) \<and> sb_shape m' = sb_shape n') \<and>
   sb_ok m' \<and> r' \<noteq> None"
  "qs_shape p = qs_shape q \<Longrightarrow> qs_ok p \<Longrightarrow>
   teco_machine_qregspec_input G R p chr False = Inr (p', reg) \<Longrightarrow>
   (\<exists>q'. teco_machine_qregspec_input G R q chr True = Inr (q', None) \<and> qs_shape p' = qs_shape q') \<and> qs_ok p'"
proof (induction G R m chr "Some r" and G R p chr False arbitrary: n m' r r' and q p' reg
    rule: teco_machine_stringbuilding_input_teco_machine_qregspec_input.induct)
  case (1 G R st mode esc cp code spec chr)
  obtain st' mode' esc' cp' code' spec' where n: "n = SB st' mode' esc' cp' code' spec'" by (cases n)
  have st': "st' = st" using shape_fields(1) [OF 1(2)] by (simp add: n)
  show ?case
  proof (cases "sb_with_qreg st")
    case False
    from 1(4) False obtain m1 nxt where s: "sb_simple_input G R (SB st mode esc cp code spec) chr (Some r) = Inr (m1, nxt, r')"
      "m' = sb_goto nxt m1" by (auto split: sum.splits prod.splits)
    obtain n1 where n1: "sb_simple_input G R n chr None = Inr (n1, nxt, None)" "sb_shape m1 = sb_shape n1"
      using sb_simple_shape [OF 1(2) ok_folding [OF 1(3)] s(1)] by blast
    have "teco_machine_stringbuilding_input G R n chr None = Inr (sb_goto nxt n1, None)"
      using n1(1) False by (simp add: n st')
    then show ?thesis
      using sb_simple_ok [OF 1(3) s(1)] s(2) shape_goto [OF n1(2)] by auto
  next
    case True
    then obtain p where p: "spec = Some p" using 1(4) by (auto split: option.splits)
    then obtain q where q: "spec' = Some q" "qs_shape p = qs_shape q"
      using shape_qregspec [OF 1(2)] by (auto simp: n)
    from 1(4) True p obtain p' reg where s: "teco_machine_qregspec_input G R p chr False = Inr (p', reg)"
      by (auto split: sum.splits)
    have IH: "(\<exists>q'. teco_machine_qregspec_input G R q chr True = Inr (q', None) \<and> qs_shape p' = qs_shape q') \<and> qs_ok p'"
      using 1(1) [OF True p _ q(2) _ s] 1(3) by (simp add: p)
    then obtain q' where q': "teco_machine_qregspec_input G R q chr True = Inr (q', None)" "qs_shape p' = qs_shape q'" by blast
    have c: "qs_current p' = qs_current q'" using q'(2) by (cases p'; cases q') simp
    show ?thesis
    proof (cases "qs_current p' = QS_start")
      case False
      then have "m' = SB st mode esc cp code (Some p')" "r' = Some r" using 1(4) True p s by auto
      then show ?thesis using True False q q' c IH 1(2,3) by (auto simp: n st' folding_def p)
    next
      case st0: True
      then have "m' = SB SB_start mode esc cp code (Some p')" "r' \<noteq> None"
        using 1(4) True p s by (auto split: option.splits sum.splits)
      then show ?thesis using True st0 q q' c IH 1(2) by (auto simp: n st' folding_def)
    qed
  qed
next
  case (2 G R st type po nesting name loc sb chr)
  obtain st' type' po' nesting' name' loc' sb' where q: "q = QS st' type' po' nesting' name' loc' sb'" by (cases q)
  have e: "st' = st" "type' = type" "nesting' = nesting" "loc' = loc" "sb_shape sb = sb_shape sb'"
    using 2(2) by (simp_all add: q)
  have cur: "sb_current sb' = sb_current sb" using shape_fields(1) [OF e(5)] by simp
  show ?case
  proof (cases "st = QS_string")
    case False
    with 2(4) have s: "qs_simple_input G R (QS st type False nesting name loc sb) chr = Inr (p', reg)" by simp
    have "qs_shape (QS st type False nesting name loc sb) = qs_shape (QS st' type' True nesting' name' loc' sb')"
      using e by simp
    from qs_simple_shape [OF s this] 2(3) False show ?thesis by (simp add: q e)
  next
    case True
    define N where "N = (if sb_current sb = SB_start \<and> chr = uc CHR ''['' then nesting + 1
      else if sb_current sb = SB_start \<and> chr = uc CHR '']'' then nesting - 1 else nesting)"
    let ?c = "sb_current sb = SB_start \<and> chr = uc CHR '']'' \<and> N = 0"
    have run: "teco_machine_qregspec_input G R (QS st ty po0 nesting nm loc s) chr po =
       (if ?c then qs_finish R (QS QS_string ty po N nm loc s)
        else (case teco_machine_stringbuilding_input G R s chr (if po then None else Some nm) of
             Inl e \<Rightarrow> Inl e
           | Inr (s1, result) \<Rightarrow> Inr (QS QS_string ty po N (case result of None \<Rightarrow> nm | Some n \<Rightarrow> n) loc s1, None)))"
      if "sb_current s = sb_current sb" for ty po0 po nm s
      using True that by (simp only: teco_machine_qregspec_input.simps Let_def N_def if_True simp_thms)
    note runs = trans [OF run [OF refl, symmetric] 2(4)]
    show ?thesis
    proof (cases ?c)
      case fin: True
      then have s: "qs_finish R (QS QS_string type False N name loc sb) = Inr (p', reg)"
        using runs by simp
      have "qs_shape (QS QS_string type False N name loc sb) = qs_shape (QS QS_string type True N name' loc sb')"
        using e by simp
      from qs_finish_shape [OF s this] qs_finish_ok [OF s] 2(3) fin show ?thesis
        using run [OF cur, of type po' name' True] by (simp add: q e del: teco_machine_qregspec_input.simps)
    next
      case more: False
      with runs obtain sb1 result where s: "teco_machine_stringbuilding_input G R sb chr (Some name) = Inr (sb1, result)"
        and p': "p' = QS QS_string type False N (case result of None \<Rightarrow> name | Some n \<Rightarrow> n) loc sb1" "reg = None"
        by (auto split: sum.splits prod.splits)
      have "(\<exists>n'. teco_machine_stringbuilding_input G R sb' chr None = Inr (n', None) \<and> sb_shape sb1 = sb_shape n') \<and>
          sb_ok sb1 \<and> result \<noteq> None"
        by (rule 2(1) [OF True N_def _ _ e(5) _ s]) (use more 2(3) in simp_all)
      then show ?thesis using more p' run [OF cur, of type po' name' True]
        by (auto simp: q e simp del: teco_machine_qregspec_input.simps)
    qed
  qed
qed

text \<open>
  A whole string argument: in normal mode \<open>build\<close> collects it; \<open>skip\<close> is the same text passed
  over in parse-only mode.
\<close>

fun build :: "glib \<Rightarrow> 'q registers \<Rightarrow> unichar list \<Rightarrow> sb_machine \<times> string option \<Rightarrow> teco_error + sb_machine \<times> string option" where
  "build G R [] (m, result) = Inr (m, result)"
| "build G R (c # cs) (m, result) =
     (case teco_machine_stringbuilding_input G R m c result of Inl e \<Rightarrow> Inl e | Inr x \<Rightarrow> build G R cs x)"

lemma skip_follows_build:
  "sb_shape m = sb_shape n \<Longrightarrow> sb_ok m \<Longrightarrow> build G R cs (m, Some r) = Inr (m', r') \<Longrightarrow>
   \<exists>n'. build G R cs (n, None) = Inr (n', None) \<and> sb_shape m' = sb_shape n'"
proof (induction cs arbitrary: m n r)
  case (Cons c cs)
  from Cons.prems(3) obtain m1 r1 where s: "teco_machine_stringbuilding_input G R m c (Some r) = Inr (m1, r1)"
    "build G R cs (m1, r1) = Inr (m', r')" by (auto split: sum.splits)
  from shape_step(1) [OF Cons.prems(1,2) s(1)] obtain n1 r2 where
    n1: "teco_machine_stringbuilding_input G R n c None = Inr (n1, None)" "sb_shape m1 = sb_shape n1" "sb_ok m1" "r1 = Some r2"
    by auto
  from Cons.IH [OF n1(2,3)] s(2) n1(1,4) show ?case by simp
qed simp

section \<open>Escaping a string for a string argument\<close>

text \<open>\<open>teco_machine_stringbuilding_escape\<close>: the loop over the UTF-8 characters.\<close>

definition needs_escape :: "glib \<Rightarrow> unichar \<Rightarrow> unichar \<Rightarrow> bool" where
  "needs_escape G escape_char chr \<longleftrightarrow>
     g_unichar_toupper G chr = escape_char \<or>
     (escape_char = uc CHR ''['' \<and> chr = uc CHR '']'') \<or> (escape_char = uc CHR ''{'' \<and> chr = uc CHR ''}'')"

function escape_loop :: "glib \<Rightarrow> unichar \<Rightarrow> string \<Rightarrow> string" where
  "escape_loop G escape_char str =
     (if str = [] then []
      else let lenc = Suc (g_utf8_cont G (hd str)) in
        (if needs_escape G escape_char (g_utf8_get_char G str) then [CHR 0x11] else []) @
        take lenc str @ escape_loop G escape_char (drop lenc str))"
  by pat_completeness auto
termination
  by (relation "measure (\<lambda>(G, e, str). length str)") auto

declare escape_loop.simps [simp del]

definition teco_machine_stringbuilding_escape :: "glib \<Rightarrow> sb_machine \<Rightarrow> string \<Rightarrow> string" where
  "teco_machine_stringbuilding_escape G m str = escape_loop G (sb_escape_char m) str"

text \<open>The same on code points.\<close>

definition escape_chars :: "glib \<Rightarrow> unichar \<Rightarrow> unichar list \<Rightarrow> unichar list" where
  "escape_chars G esc cs = concat (map (\<lambda>c. if needs_escape G esc c then [0x11, c] else [c]) cs)"

definition utf8 :: "glib \<Rightarrow> unichar list \<Rightarrow> string" where
  "utf8 G cs = concat (map (g_unichar_to_utf8 G) cs)"

lemma escape_loop_utf8:
  assumes "utf8_laws G" "g_unichar_validate G 0x11" "\<forall>c \<in> set cs. g_unichar_validate G c"
  shows "escape_loop G esc (utf8 G cs) = utf8 G (escape_chars G esc cs)"
  using assms(3)
proof (induction cs)
  case Nil
  then show ?case by (simp add: utf8_def escape_chars_def escape_loop.simps)
next
  case (Cons c cs)
  let ?u = "g_unichar_to_utf8 G c"
  have u: "?u \<noteq> []" "Suc (g_utf8_cont G (hd ?u)) = length ?u" "g_utf8_get_char G (?u @ s) = c" for s
    using assms(1) Cons.prems by (auto simp: utf8_laws_def)
  have "char_of (17 :: nat) = CHR 0x11" by code_simp
  then have q: "g_unichar_to_utf8 G 0x11 = [CHR 0x11]"
    using assms(1,2) by (auto simp: utf8_laws_def)
  have "escape_loop G esc (?u @ utf8 G cs) =
      (if needs_escape G esc c then [CHR 0x11] else []) @ ?u @ escape_loop G esc (utf8 G cs)"
    by (subst escape_loop.simps) (simp add: u Let_def)
  then show ?case using Cons q by (simp add: utf8_def escape_chars_def)
qed

text \<open>
  Characters the machine takes as they are. The escaping above does not treat the others (carets
  and control characters), so they are the premise of the round trip.
\<close>

definition plain_char :: "unichar \<Rightarrow> bool" where
  "plain_char c \<longleftrightarrow> c \<noteq> uc CHR ''^'' \<and> \<not> teco_is_ctl c"

lemma build_append:
  "build G R (xs @ ys) x = (case build G R xs x of Inl e \<Rightarrow> Inl e | Inr y \<Rightarrow> build G R ys y)"
  by (induction xs arbitrary: x) (auto split: sum.splits)

lemma build_plain:
  assumes "sb_current m = SB_start" "sb_mode m = TECO_STRINGBUILDING_MODE_NORMAL" "plain_char c"
  shows "build G R [c] (m, Some r) = Inr (m, Some (r @ g_unichar_to_utf8 G c))"
  using assms
  by (cases m) (simp add: sb_with_qreg_def sb_simple_input_def sb_start_input_def plain_char_def
      sb_escaped_input_def append_char_def teco_string_append_wc_def)

lemma build_escaped:
  assumes "sb_current m = SB_start" "sb_mode m = TECO_STRINGBUILDING_MODE_NORMAL"
  shows "build G R [0x11, c] (m, Some r) = Inr (m, Some (r @ g_unichar_to_utf8 G c))"
proof -
  have "teco_ascii_toupper (teco_ctl_echo 0x11) = uc CHR ''Q''" by (simp add: teco_ascii_toupper_def teco_ctl_echo_def)
  moreover have "teco_is_ctl 0x11" by (simp add: teco_is_ctl_def)
  moreover have "teco_ctl_key (uc CHR ''^'') = 0x1E" by (simp add: teco_ctl_key_def)
  ultimately show ?thesis
    using assms
    by (cases m) (simp add: sb_with_qreg_def sb_simple_input_def sb_start_input_def sb_ctl_input_def
        sb_escaped_input_def append_char_def teco_string_append_wc_def)
qed

lemma build_escape_chars:
  assumes "sb_current m = SB_start" "sb_mode m = TECO_STRINGBUILDING_MODE_NORMAL"
    and "\<forall>c \<in> set cs. plain_char c \<or> needs_escape G esc c"
  shows "build G R (escape_chars G esc cs) (m, Some r) = Inr (m, Some (r @ utf8 G cs))"
  using assms(3)
proof (induction cs arbitrary: r)
  case (Cons c cs)
  have "build G R (if needs_escape G esc c then [0x11, c] else [c]) (m, Some r) = Inr (m, Some (r @ g_unichar_to_utf8 G c))"
    using Cons.prems by (auto simp del: build.simps simp: build_plain [OF assms(1,2)] build_escaped [OF assms(1,2)])
  then show ?case using Cons by (simp only: escape_chars_def list.map concat.simps build_append sum.case)
    (simp add: escape_chars_def utf8_def)
qed (simp add: escape_chars_def utf8_def)

section \<open>Properties\<close>

text \<open>
  C9: Whatever string argument is built in normal mode, passing over the same text in parse-only
  mode succeeds and leaves the parser in the same state: skipped code ends its string arguments
  where executed code does.
\<close>

theorem parse_only_agrees:
  assumes "sb_ok m" "build G R cs (m, Some target) = Inr (m', result)"
  shows "\<exists>n'. build G R cs (m, None) = Inr (n', None) \<and> sb_current n' = sb_current m' \<and> sb_shape n' = sb_shape m'"
  using skip_follows_build [OF refl assms] shape_fields(1) by metis

definition no_registers :: "unit registers" where
  "no_registers = \<lparr>find_qreg = (\<lambda>_ _. None), get_integer = (\<lambda>_. Inr 0), get_string = (\<lambda>_. Inr []), name_of = (\<lambda>_. []),
     local_radix = 10, default_codepage = SC_CP_UTF8\<rparr>"

theorem parse_only_agrees_witness:
  "\<exists>n'. build ascii_glib no_registers [0x61, uc CHR ''^'', uc CHR ''V''] (teco_machine_stringbuilding_init 0x1B SC_CP_UTF8, None) =
     Inr (n', None) \<and> sb_current n' = SB_lower"
proof -
  let ?m = "teco_machine_stringbuilding_init 0x1B SC_CP_UTF8"
  have "build ascii_glib no_registers [0x61, uc CHR ''^'', uc CHR ''V''] (?m, Some []) =
      Inr (sb_goto SB_lower ?m, Some (g_unichar_to_utf8 ascii_glib 0x61))"
    by (simp add: teco_machine_stringbuilding_init_def sb_with_qreg_def sb_simple_input_def sb_start_input_def
      sb_ctl_input_def sb_escaped_input_def append_char_def teco_string_append_wc_def teco_is_ctl_def
      teco_ascii_toupper_def teco_ctl_key_def Let_def)
  from parse_only_agrees [OF ok_init this] show ?thesis
    by (auto simp: teco_machine_stringbuilding_init_def)
qed

end
