(* ===== verification/State.thy ===== *)
theory State
  imports Undo StringBuilding
begin

text \<open>
  The state of the interpreter that its core works on: the global variables of
  \<open>src/expressions.c\<close>, \<open>src/parser.c\<close>, \<open>src/goto-commands.c\<close>, \<open>src/error.c\<close> and
  \<open>src/main.c\<close>, the main parser machine of \<open>src/parser.h\<close>, and the undo tokens of all of them
  with their callbacks. The callbacks keep the contract of theory \<open>Undo\<close>.
\<close>

section \<open>Parser states\<close>

text \<open>
  The states of the main machine are constants in C; those with a Q-register or a string
  argument are grouped here by the macro that defines them (\<open>TECO_DEFINE_STATE_EXPECTQREG\<close> and
  \<open>TECO_DEFINE_STATE_EXPECTSTRING\<close> with its derivatives).
\<close>

datatype qreg_state =
    Q_pushqreg | Q_popqreg | Q_eqcommand | Q_epctcommand | Q_queryqreg | Q_ctlucommand
  | Q_eucommand | Q_getqregstring | Q_setqreginteger | Q_increaseqreg | Q_macro | Q_copytoqreg
  | Q_egcommand | Q_save_cmdline

datatype string_state =
    E_changedir | E_loadqreg | E_saveqreg | E_setqregstring_nobuilding | E_setqregstring_building
  | E_indirect | E_insert_plain | E_insert_indent | E_goto | E_help | E_glob_pattern
  | E_glob_filename | E_edit_file | E_save_file | E_read_file | E_search | E_search_all
  | E_search_kill | E_search_delete | E_replace | E_replace_insert | E_replace_ignore
  | E_replace_default | E_replace_default_insert | E_replace_default_ignore
  | E_replace_default_all | E_execute | E_print_string | E_scintilla_symbols | E_scintilla_lparam

datatype teco_state =
    teco_state_start | teco_state_fcommand | teco_state_condcommand | teco_state_control
  | teco_state_ascii | teco_state_escape | teco_state_ctlc | teco_state_ctlc_control
  | teco_state_ecommand | teco_state_label | teco_state_blockcomment
  | teco_state_blockcomment_star | teco_state_eolcomment | teco_state_print_decimal
  | teco_state_print_octal | Expect_qreg qreg_state | Expect_string string_state

datatype teco_mode =
    TECO_MODE_NORMAL | TECO_MODE_PARSE_ONLY_GOTO | TECO_MODE_PARSE_ONLY_LOOP
  | TECO_MODE_PARSE_ONLY_COND | TECO_MODE_PARSE_ONLY_COND_FORCE | TECO_MODE_LEXING

section \<open>Machines and loops\<close>

record loop_context =
  lc_counter :: teco_int
  lc_pc :: nat
  lc_brace_level :: nat
  lc_pass_through :: bool

record main_flags =
  mode :: teco_mode
  modifier_colon :: nat
  modifier_at :: bool

text \<open>
  Q-registers (\<open>src/qreg.h\<close>): the integer and the string cell (the text of its document), and
  the one register class with a different \<open>set_integer\<close>, the radix \<open>^R\<close>. Tables of registers and
  of goto labels are the finite maps their RB trees represent. There is the global table, the
  local one of the command line and one for each running macro with locals of its own; the
  registers of the first two are those whose \<open>must_undo\<close> is set. A pointer to a register is its
  table with its name.
\<close>

record qreg =
  qreg_is_radix :: bool
  qreg_integer :: teco_int
  qreg_string :: string

type_synonym qreg_table = "string \<rightharpoonup> qreg"

datatype locals_ref = Cmdline_locals | Macro_locals nat

datatype table_ref = Globals | Locals locals_ref

type_synonym qreg_ref = "table_ref \<times> string"

text \<open>
  \<open>teco_machine_main_t\<close>. The fields from \<open>es_string\<close> on are those of its member
  \<open>expectstring\<close> and its \<open>expectqreg\<close> pointer.
\<close>

record machine =
  current :: teco_state
  must_undo :: bool
  macro_pc :: nat
  flags :: main_flags
  nest_level :: int
  loop_stack_fp :: nat
  goto_table :: "string \<rightharpoonup> nat"
  goto_complete :: bool
  goto_must_undo :: bool
  goto_label :: string
  qreg_table_locals :: locals_ref
  es_string :: string
  es_insert_len :: nat
  es_nesting :: int
  es_machine :: sb_machine
  expectqreg :: "qs_machine option"

section \<open>Undo tokens\<close>

text \<open>
  One token per kind of change. The \<open>remove_index\<close> and \<open>insert_val\<close> calls on the three stacks,
  the saved values of scalars, and the changes of the fields of the machine that must be undone,
  which is the one of the command line. The several tokens for the fields of a nested parser are
  one token that restores that parser.
\<close>

datatype token =
    Undo_remove_number nat | Undo_insert_number nat teco_int
  | Undo_remove_operator nat | Undo_insert_operator nat teco_operator
  | Undo_remove_loop nat | Undo_insert_loop nat loop_context
  | Undo_loop_counter nat teco_int
  | Undo_num_sign int | Undo_brace_level nat
  | Undo_skip_label string | Undo_backup_pc int | Undo_ed teco_int
  | Undo_current teco_state | Undo_flags main_flags | Undo_nest_level int
  | Undo_goto_remove string | Undo_goto_label string | Undo_goto_label_truncate nat
  | Undo_es_string string | Undo_es_truncate nat | Undo_es_insert_len nat | Undo_es_nesting int
  | Undo_es_machine sb_machine | Undo_expectqreg "qs_machine option"
  | Undo_qreg_integer qreg_ref teco_int | Undo_qreg_string qreg_ref string | Undo_qreg_remove qreg_ref
  | Undo_qreg_stack_remove_last | Undo_qreg_stack_push "teco_int \<times> string"
  | Undo_qreg_stack_string nat string

section \<open>The global state\<close>

text \<open>
  \<open>cmdline_machine\<close> is the machine executing the command line, \<open>frames\<close> those of the running
  macro invocations, innermost first. The fields of \<open>teco_cmdline\<close> (\<open>src/cmdline.h\<close>) are
  \<open>cmdline_machine\<close>, \<open>cmdline_str\<close>, \<open>cmdline_effective_len\<close>, \<open>cmdline_modifier_enabled\<close> and the
  \<open>cmdline_pc\<close> of the undo state, which the undo stack reads. \<open>is_executing\<close> is the static variable of \<open>src/stdio-commands.c\<close>.
\<close>

record teco = "token undo_state" +
  teco_numbers :: "teco_int list"
  teco_operators :: "teco_operator list"
  teco_num_sign :: int
  teco_brace_level :: nat
  teco_loop_stack :: "loop_context list"
  teco_goto_skip_label :: string
  teco_goto_backup_pc :: int
  teco_error_return_args :: nat
  teco_ed :: teco_int
  cmdline_machine :: machine
  frames :: "machine list"
  teco_qreg_table_globals :: qreg_table
  cmdline_locals :: qreg_table
  macro_locals :: "qreg_table list"
  teco_qreg_stack :: "(teco_int \<times> string) list"
  teco_qreg_current :: "qreg_ref option"
  cmdline_str :: string
  cmdline_effective_len :: nat
  cmdline_modifier_enabled :: bool
  is_executing :: bool

type_synonym 'a tm = "(teco, teco_error, 'a) prog"

text \<open>
  Access to the tables. A register that is assigned exists; the tables of macros that have ended
  are gone.
\<close>

definition get_table :: "table_ref \<Rightarrow> teco \<Rightarrow> qreg_table" where
  "get_table t s =
     (case t of
        Globals \<Rightarrow> teco_qreg_table_globals s
      | Locals Cmdline_locals \<Rightarrow> cmdline_locals s
      | Locals (Macro_locals i) \<Rightarrow> if i < length (macro_locals s) then macro_locals s ! i else Map.empty)"

definition update_table :: "table_ref \<Rightarrow> (qreg_table \<Rightarrow> qreg_table) \<Rightarrow> teco \<Rightarrow> teco" where
  "update_table t f s =
     (case t of
        Globals \<Rightarrow> s\<lparr>teco_qreg_table_globals := f (teco_qreg_table_globals s)\<rparr>
      | Locals Cmdline_locals \<Rightarrow> s\<lparr>cmdline_locals := f (cmdline_locals s)\<rparr>
      | Locals (Macro_locals i) \<Rightarrow> s\<lparr>macro_locals := (macro_locals s)[i := f (macro_locals s ! i)]\<rparr>)"

definition update_qreg :: "qreg_ref \<Rightarrow> (qreg \<Rightarrow> qreg) \<Rightarrow> teco \<Rightarrow> teco" where
  "update_qreg r f = update_table (fst r) (\<lambda>tab. tab(snd r := map_option f (tab (snd r))))"

text \<open>A field of the command line's machine set back.\<close>

abbreviation cmdline_set :: "(machine \<Rightarrow> machine) \<Rightarrow> teco \<Rightarrow> teco" where
  "cmdline_set f s \<equiv> s\<lparr>cmdline_machine := f (cmdline_machine s)\<rparr>"

fun undo_action :: "token \<Rightarrow> teco \<Rightarrow> teco" where
  "undo_action (Undo_remove_number i) s = s\<lparr>teco_numbers := garray_remove_index i (teco_numbers s)\<rparr>"
| "undo_action (Undo_insert_number i n) s = s\<lparr>teco_numbers := garray_insert_val i n (teco_numbers s)\<rparr>"
| "undo_action (Undo_remove_operator i) s =
     s\<lparr>teco_operators := garray_remove_index i (teco_operators s)\<rparr>"
| "undo_action (Undo_insert_operator i op) s =
     s\<lparr>teco_operators := garray_insert_val i op (teco_operators s)\<rparr>"
| "undo_action (Undo_remove_loop i) s = s\<lparr>teco_loop_stack := garray_remove_index i (teco_loop_stack s)\<rparr>"
| "undo_action (Undo_insert_loop i c) s = s\<lparr>teco_loop_stack := garray_insert_val i c (teco_loop_stack s)\<rparr>"
| "undo_action (Undo_loop_counter i n) s =
     s\<lparr>teco_loop_stack := (teco_loop_stack s)[i := (teco_loop_stack s ! i)\<lparr>lc_counter := n\<rparr>]\<rparr>"
| "undo_action (Undo_num_sign n) s = s\<lparr>teco_num_sign := n\<rparr>"
| "undo_action (Undo_brace_level n) s = s\<lparr>teco_brace_level := n\<rparr>"
| "undo_action (Undo_skip_label l) s = s\<lparr>teco_goto_skip_label := l\<rparr>"
| "undo_action (Undo_backup_pc n) s = s\<lparr>teco_goto_backup_pc := n\<rparr>"
| "undo_action (Undo_ed n) s = s\<lparr>teco_ed := n\<rparr>"
| "undo_action (Undo_current c) s = cmdline_set (\<lambda>m. m\<lparr>current := c\<rparr>) s"
| "undo_action (Undo_flags f) s = cmdline_set (\<lambda>m. m\<lparr>flags := f\<rparr>) s"
| "undo_action (Undo_nest_level n) s = cmdline_set (\<lambda>m. m\<lparr>nest_level := n\<rparr>) s"
| "undo_action (Undo_goto_remove l) s = cmdline_set (\<lambda>m. m\<lparr>goto_table := (goto_table m)(l := None)\<rparr>) s"
| "undo_action (Undo_goto_label l) s = cmdline_set (\<lambda>m. m\<lparr>goto_label := l\<rparr>) s"
| "undo_action (Undo_goto_label_truncate n) s = cmdline_set (\<lambda>m. m\<lparr>goto_label := truncated (goto_label m) n\<rparr>) s"
| "undo_action (Undo_es_string str) s = cmdline_set (\<lambda>m. m\<lparr>es_string := str\<rparr>) s"
| "undo_action (Undo_es_truncate n) s = cmdline_set (\<lambda>m. m\<lparr>es_string := truncated (es_string m) n\<rparr>) s"
| "undo_action (Undo_es_insert_len n) s = cmdline_set (\<lambda>m. m\<lparr>es_insert_len := n\<rparr>) s"
| "undo_action (Undo_es_nesting n) s = cmdline_set (\<lambda>m. m\<lparr>es_nesting := n\<rparr>) s"
| "undo_action (Undo_es_machine sb) s = cmdline_set (\<lambda>m. m\<lparr>es_machine := sb\<rparr>) s"
| "undo_action (Undo_expectqreg q) s = cmdline_set (\<lambda>m. m\<lparr>expectqreg := q\<rparr>) s"
| "undo_action (Undo_qreg_integer r n) s = update_qreg r (\<lambda>q. q\<lparr>qreg_integer := n\<rparr>) s"
| "undo_action (Undo_qreg_string r str) s = update_qreg r (\<lambda>q. q\<lparr>qreg_string := str\<rparr>) s"
| "undo_action (Undo_qreg_remove r) s = update_table (fst r) (\<lambda>tab. tab(snd r := None)) s"
| "undo_action Undo_qreg_stack_remove_last s = s\<lparr>teco_qreg_stack := butlast (teco_qreg_stack s)\<rparr>"
| "undo_action (Undo_qreg_stack_push e) s = s\<lparr>teco_qreg_stack := teco_qreg_stack s @ [e]\<rparr>"
| "undo_action (Undo_qreg_stack_string i str) s =
     s\<lparr>teco_qreg_stack := (teco_qreg_stack s)[i := (fst (teco_qreg_stack s ! i), str)]\<rparr>"

lemmas table_defs = update_qreg_def update_table_def get_table_def

lemma undo_action_heads: "undo_action t (s\<lparr>teco_undo_heads := h\<rparr>) = (undo_action t s)\<lparr>teco_undo_heads := h\<rparr>"
  by (cases t) (simp_all add: table_defs split: table_ref.split locals_ref.split)

lemma undo_action_enabled: "teco_undo_enabled (undo_action t s) = teco_undo_enabled s"
  by (cases t) (simp_all add: table_defs split: table_ref.split locals_ref.split)

lemma undo_action_pc: "cmdline_pc (undo_action t s) = cmdline_pc s"
  by (cases t) (simp_all add: table_defs split: table_ref.split locals_ref.split)

interpretation ulog: undo_log undo_action G_assertion_failed
  by unfold_locales (fact undo_action_heads, fact undo_action_enabled, fact undo_action_pc)

section \<open>Initial values\<close>

text \<open>
  \<open>teco_qreg_plain_new\<close>, \<open>teco_qreg_radix_new\<close>, \<open>teco_qreg_table_init\<close> and
  \<open>teco_qreg_table_init_locals\<close>: the registers A to Z and 0 to 9, with the search mode \<open>^X\<close> and the
  radix \<open>^R\<close> in local tables.
\<close>

definition teco_qreg_plain_new :: qreg where
  "teco_qreg_plain_new = \<lparr>qreg_is_radix = False, qreg_integer = 0, qreg_string = []\<rparr>"

definition teco_qreg_radix_new :: qreg where
  "teco_qreg_radix_new = \<lparr>qreg_is_radix = True, qreg_integer = 10, qreg_string = []\<rparr>"

definition teco_qreg_table_init :: qreg_table where
  "teco_qreg_table_init =
     map_of (map (\<lambda>q. ([q], teco_qreg_plain_new)) ''ABCDEFGHIJKLMNOPQRSTUVWXYZ0123456789'')"

definition teco_qreg_table_init_locals :: qreg_table where
  "teco_qreg_table_init_locals =
     teco_qreg_table_init([CHR 0x18] \<mapsto> teco_qreg_plain_new, [CHR 0x12] \<mapsto> teco_qreg_radix_new)"

text \<open>
  \<open>teco_machine_main_init\<close> with the length of the loop stack and the default code page it reads.
\<close>

definition teco_machine_main_init :: "nat \<Rightarrow> nat \<Rightarrow> locals_ref \<Rightarrow> bool \<Rightarrow> machine" where
  "teco_machine_main_init loops codepage table undo =
     \<lparr>current = teco_state_start, must_undo = undo, macro_pc = 0,
      flags = \<lparr>mode = TECO_MODE_NORMAL, modifier_colon = 0, modifier_at = False\<rparr>,
      nest_level = 0, loop_stack_fp = loops, goto_table = Map.empty, goto_complete = False,
      goto_must_undo = undo, goto_label = [], qreg_table_locals = table,
      es_string = [], es_insert_len = 0, es_nesting = 1,
      es_machine = teco_machine_stringbuilding_init 0x1B codepage, expectqreg = None\<rparr>"

text \<open>
  The state in which \<open>main\<close> enters interactive mode (\<open>interactive = True\<close>) or has executed nothing
  yet, with the plain registers the core uses: the search string \<open>_\<close>, the replacement \<open>-\<close> and the
  command line replacement register.
\<close>

definition teco_initial :: "bool \<Rightarrow> teco" where
  "teco_initial interactive =
     \<lparr>teco_undo_heads = [], teco_undo_enabled = interactive, cmdline_pc = 0,
      teco_numbers = [], teco_operators = [], teco_num_sign = 1, teco_brace_level = 0,
      teco_loop_stack = [], teco_goto_skip_label = [], teco_goto_backup_pc = - 1,
      teco_error_return_args = 0, teco_ed = TECO_ED_AUTOEOL,
      cmdline_machine = teco_machine_main_init 0 (teco_default_codepage TECO_ED_AUTOEOL) Cmdline_locals interactive,
      frames = [],
      teco_qreg_table_globals = teco_qreg_table_init
        (''_'' \<mapsto> teco_qreg_plain_new, ''-'' \<mapsto> teco_qreg_plain_new, [CHR 0x1B] \<mapsto> teco_qreg_plain_new),
      cmdline_locals = teco_qreg_table_init_locals, macro_locals = [],
      teco_qreg_stack = [], teco_qreg_current = None,
      cmdline_str = [], cmdline_effective_len = 0, cmdline_modifier_enabled = False, is_executing = False\<rparr>"

section \<open>Elementary steps of the interpreter\<close>

text \<open>Push one token: the \<open>undo__...\<close> functions and \<open>teco_undo_...\<close> macros.\<close>

definition push_token :: "token \<Rightarrow> unit tm" where
  "push_token t = teco_undo_push G_assertion_failed t"

text \<open>
  \<open>change t f\<close>: the undo macros save the current value and yield the variable, which is then
  assigned; \<open>t\<close> reads the saved value from the state.
\<close>

definition change :: "(teco \<Rightarrow> token) \<Rightarrow> (teco \<Rightarrow> teco) \<Rightarrow> unit tm" where
  "change t f = bindM (gets t) (\<lambda>tok. thenM (push_token tok) (modify f))"

abbreviation reverts :: "teco \<Rightarrow> teco \<Rightarrow> bool" where
  "reverts \<equiv> rollback undo_action"

definition teco_set_num_sign :: "int \<Rightarrow> unit tm" where
  "teco_set_num_sign sign = change (\<lambda>s. Undo_num_sign (teco_num_sign s)) (\<lambda>s. s\<lparr>teco_num_sign := sign\<rparr>)"

text \<open>The machine that executes: the innermost macro invocation or the command line.\<close>

definition ctx :: "teco \<Rightarrow> machine" where
  "ctx s = (case frames s of [] \<Rightarrow> cmdline_machine s | m # _ \<Rightarrow> m)"

definition ctx_update :: "(machine \<Rightarrow> machine) \<Rightarrow> teco \<Rightarrow> teco" where
  "ctx_update f s =
     (case frames s of [] \<Rightarrow> s\<lparr>cmdline_machine := f (cmdline_machine s)\<rparr>
      | m # ms \<Rightarrow> s\<lparr>frames := f m # ms\<rparr>)"

text \<open>\<open>if (ctx->parent.must_undo) teco_undo_...(ctx->...)\<close> followed by the assignment.\<close>

definition ctx_change :: "(machine \<Rightarrow> token) \<Rightarrow> (machine \<Rightarrow> machine) \<Rightarrow> unit tm" where
  "ctx_change t f =
     bindM (gets ctx) (\<lambda>m. thenM (whenM (must_undo m) (push_token (t m))) (modify (ctx_update f)))"

section \<open>Laws of the elementary steps\<close>

named_theorems reverts \<open>programs whose effects their undo tokens revert\<close>
named_theorems transparent \<open>programs independent of the undo bookkeeping\<close>
named_theorems wp_undo \<open>weakest preconditions, whatever tokens are pushed\<close>

lemmas [reverts] = ulog.rb.intros
lemmas [transparent] = transparent_intros

text \<open>Updates of the undo stack come first in the normal form of updated states.\<close>

lemma heads_first [simp]:
  "s\<lparr>teco_numbers := x0, teco_undo_heads := h\<rparr> = s\<lparr>teco_undo_heads := h, teco_numbers := x0\<rparr>"
  "s\<lparr>teco_operators := x1, teco_undo_heads := h\<rparr> = s\<lparr>teco_undo_heads := h, teco_operators := x1\<rparr>"
  "s\<lparr>teco_num_sign := x2, teco_undo_heads := h\<rparr> = s\<lparr>teco_undo_heads := h, teco_num_sign := x2\<rparr>"
  "s\<lparr>teco_brace_level := x3, teco_undo_heads := h\<rparr> = s\<lparr>teco_undo_heads := h, teco_brace_level := x3\<rparr>"
  "s\<lparr>teco_loop_stack := x4, teco_undo_heads := h\<rparr> = s\<lparr>teco_undo_heads := h, teco_loop_stack := x4\<rparr>"
  "s\<lparr>teco_goto_skip_label := x5, teco_undo_heads := h\<rparr> = s\<lparr>teco_undo_heads := h, teco_goto_skip_label := x5\<rparr>"
  "s\<lparr>teco_goto_backup_pc := x6, teco_undo_heads := h\<rparr> = s\<lparr>teco_undo_heads := h, teco_goto_backup_pc := x6\<rparr>"
  "s\<lparr>teco_error_return_args := x7, teco_undo_heads := h\<rparr> = s\<lparr>teco_undo_heads := h, teco_error_return_args := x7\<rparr>"
  "s\<lparr>teco_ed := x8, teco_undo_heads := h\<rparr> = s\<lparr>teco_undo_heads := h, teco_ed := x8\<rparr>"
  "s\<lparr>cmdline_machine := x9, teco_undo_heads := h\<rparr> = s\<lparr>teco_undo_heads := h, cmdline_machine := x9\<rparr>"
  "s\<lparr>frames := x10, teco_undo_heads := h\<rparr> = s\<lparr>teco_undo_heads := h, frames := x10\<rparr>"
  "s\<lparr>teco_qreg_table_globals := x11, teco_undo_heads := h\<rparr> = s\<lparr>teco_undo_heads := h, teco_qreg_table_globals := x11\<rparr>"
  "s\<lparr>cmdline_locals := x12, teco_undo_heads := h\<rparr> = s\<lparr>teco_undo_heads := h, cmdline_locals := x12\<rparr>"
  "s\<lparr>macro_locals := x13, teco_undo_heads := h\<rparr> = s\<lparr>teco_undo_heads := h, macro_locals := x13\<rparr>"
  "s\<lparr>teco_qreg_stack := x14, teco_undo_heads := h\<rparr> = s\<lparr>teco_undo_heads := h, teco_qreg_stack := x14\<rparr>"
  "s\<lparr>teco_qreg_current := x15, teco_undo_heads := h\<rparr> = s\<lparr>teco_undo_heads := h, teco_qreg_current := x15\<rparr>"
  "s\<lparr>cmdline_str := x16, teco_undo_heads := h\<rparr> = s\<lparr>teco_undo_heads := h, cmdline_str := x16\<rparr>"
  "s\<lparr>cmdline_effective_len := x17, teco_undo_heads := h\<rparr> = s\<lparr>teco_undo_heads := h, cmdline_effective_len := x17\<rparr>"
  "s\<lparr>cmdline_modifier_enabled := x18, teco_undo_heads := h\<rparr> = s\<lparr>teco_undo_heads := h, cmdline_modifier_enabled := x18\<rparr>"
  "s\<lparr>is_executing := x19, teco_undo_heads := h\<rparr> = s\<lparr>teco_undo_heads := h, is_executing := x19\<rparr>"
  by simp_all

lemma push_token_run:
  "(\<exists>h. push_token t s = (Inr (), s\<lparr>teco_undo_heads := h\<rparr>)) \<or>
   (\<exists>h. push_token t s = (Inl G_assertion_failed, s\<lparr>teco_undo_heads := h\<rparr>))"
proof (cases "teco_undo_enabled s")
  case False
  then have "push_token t s = (Inr (), s\<lparr>teco_undo_heads := teco_undo_heads s\<rparr>)"
    by (simp add: push_token_def teco_undo_push_def)
  then show ?thesis by blast
next
  case True
  then show ?thesis by (auto simp: push_token_def teco_undo_push_def Let_def)
qed

lemma push_token_batch [simp]: "push_token t (batch s) = (Inr (), batch s)"
  by (simp add: push_token_def teco_undo_push_disabled)

lemma wp_push_token [wp_undo]:
  "(\<And>h. Q () (s\<lparr>teco_undo_heads := h\<rparr>)) \<Longrightarrow> (\<And>h. E G_assertion_failed (s\<lparr>teco_undo_heads := h\<rparr>)) \<Longrightarrow>
   wp (push_token t) Q E s"
  using push_token_run [of t s] by (auto simp: wp_def)

lemma transparent_push_token [transparent]: "transparent (push_token t) s"
  by (simp add: push_token_def transparent_push)

lemma reverts_change_at:
  assumes "\<And>h. undo_action (t s) (core (f (s\<lparr>teco_undo_heads := h\<rparr>))) = core s"
    and "\<And>s. teco_undo_enabled (f s) = teco_undo_enabled s" "\<And>s. cmdline_pc (f s) = cmdline_pc s"
    and "\<And>s. teco_undo_heads (f s) = teco_undo_heads s"
  shows "reverts s (snd (change t f s))"
  using ulog.rollback_step [where t = t and f = f and s = s, OF assms(1) assms(2-4)]
  by (simp add: change_def push_token_def run_simps)

lemma reverts_change:
  assumes "\<And>s. undo_action (t s) (core (f s)) = core s" "\<And>s h. t (s\<lparr>teco_undo_heads := h\<rparr>) = t s"
    and "\<And>s. teco_undo_enabled (f s) = teco_undo_enabled s" "\<And>s. cmdline_pc (f s) = cmdline_pc s"
    and "\<And>s. teco_undo_heads (f s) = teco_undo_heads s"
  shows "obeys reverts (change t f)"
proof -
  have "undo_action (t s) (core (f (s\<lparr>teco_undo_heads := h\<rparr>))) = core s" for s h
    using assms(1) [of "s\<lparr>teco_undo_heads := h\<rparr>"] by (simp add: assms(2))
  then show ?thesis unfolding obeys_def
    by (intro allI reverts_change_at) (simp_all only: assms(3-5))
qed

lemma reverts_after:
  assumes "\<And>s. undo_action (t (f s)) (core (f s)) = core s" "\<And>s h. t (s\<lparr>teco_undo_heads := h\<rparr>) = t s"
    and "\<And>s. teco_undo_enabled (f s) = teco_undo_enabled s" "\<And>s. cmdline_pc (f s) = cmdline_pc s"
    and "\<And>s. teco_undo_heads (f s) = teco_undo_heads s"
  shows "obeys reverts (thenM (modify f) (bindM (gets t) push_token))"
  unfolding obeys_def push_token_def
  by (rule allI, rule ulog.rollback_step_after) (simp_all add: assms)

lemma transparent_change [transparent]:
  assumes "t (batch s) = t s" "\<And>s. f (batch s) = batch (f s)"
    and "\<And>s. teco_undo_enabled (f s) = teco_undo_enabled s" "\<And>s. cmdline_pc (f s) = cmdline_pc s"
    and "\<And>s. teco_undo_heads (f s) = teco_undo_heads s"
  shows "transparent (change t f) s"
  unfolding change_def
  by (intro transparent_get_bind transparent_then transparent_push_token transparent_modify assms(1,2))
    (simp add: undo_ready_def undo_ok_def assms)

lemma transparent_after:
  assumes "\<And>s. t (batch s) = t s" "\<And>s. f (batch s) = batch (f s)"
    and "\<And>s. teco_undo_enabled (f s) = teco_undo_enabled s" "\<And>s. cmdline_pc (f s) = cmdline_pc s"
    and "\<And>s. teco_undo_heads (f s) = teco_undo_heads s"
  shows "transparent (thenM (modify f) (bindM (gets t) push_token)) s"
  by (intro transparent_get_bind transparent_then transparent_push_token transparent_modify assms(1,2))
    (simp add: undo_ready_def undo_ok_def assms)

lemma wp_change [wp_undo]:
  "(\<And>h. Q () (f (s\<lparr>teco_undo_heads := h\<rparr>))) \<Longrightarrow> (\<And>h. E G_assertion_failed (s\<lparr>teco_undo_heads := h\<rparr>)) \<Longrightarrow>
   wp (change t f) Q E s"
  unfolding change_def wp_simps by (rule wp_push_token) (simp_all add: wp_simps)

lemma change_batch: "\<not> teco_undo_enabled s \<Longrightarrow> change t f s = (Inr (), f s)"
  by (simp add: change_def push_token_def teco_undo_push_disabled run_simps)

lemma push_token_disabled: "\<not> teco_undo_enabled s \<Longrightarrow> push_token t s = (Inr (), s)"
  by (simp add: push_token_def teco_undo_push_disabled)

lemma batch_fields [simp]:
  "teco_numbers (batch s) = teco_numbers s" "teco_operators (batch s) = teco_operators s"
  "teco_num_sign (batch s) = teco_num_sign s" "teco_brace_level (batch s) = teco_brace_level s"
  "teco_loop_stack (batch s) = teco_loop_stack s" "teco_goto_skip_label (batch s) = teco_goto_skip_label s"
  "teco_goto_backup_pc (batch s) = teco_goto_backup_pc s" "teco_ed (batch s) = teco_ed s"
  "teco_error_return_args (batch s) = teco_error_return_args s"
  "cmdline_machine (batch s) = cmdline_machine s" "frames (batch s) = frames s" "cmdline_pc (batch s) = cmdline_pc s"
  "teco_qreg_table_globals (batch s) = teco_qreg_table_globals s" "cmdline_locals (batch s) = cmdline_locals s"
  "macro_locals (batch s) = macro_locals s" "teco_qreg_stack (batch s) = teco_qreg_stack s"
  "teco_qreg_current (batch s) = teco_qreg_current s" "cmdline_str (batch s) = cmdline_str s"
  "cmdline_effective_len (batch s) = cmdline_effective_len s" "is_executing (batch s) = is_executing s"
  by (simp_all add: batch_def)

lemma ctx_batch [simp]: "ctx (batch s) = ctx s"
  by (simp add: ctx_def split: list.split)

lemma reverts_set_num_sign [reverts]: "obeys reverts (teco_set_num_sign sign)"
  unfolding teco_set_num_sign_def by (rule reverts_change) (simp_all add: core_def)

lemma transparent_set_num_sign [transparent]: "transparent (teco_set_num_sign sign) s"
  unfolding teco_set_num_sign_def by (rule transparent_change) (simp_all add: batch_def)

end
