(* ===== verification/Expressions.thy ===== *)
theory Expressions
  imports State
begin

text \<open>
  The expression stacks (\<open>src/expressions.c\<close>, \<open>src/expressions.h\<close>): numbers, operators, braces,
  and the evaluation of pending operations by precedence. Both stacks are lists with the bottom
  first, as in the C arrays. Every operation is shown to be undone by the tokens it pushes, to
  be independent of the undo bookkeeping and to keep the stacks consistent with each other;
  theory \<open>Precedence\<close> shows that they evaluate expressions correctly.
\<close>

section \<open>The two stacks\<close>

definition teco_expressions_peek_op :: "teco \<Rightarrow> nat \<Rightarrow> teco_operator" where
  "teco_expressions_peek_op s index = teco_operators s ! (length (teco_operators s) - 1 - index)"

definition teco_expressions_peek_num :: "teco \<Rightarrow> nat \<Rightarrow> teco_int" where
  "teco_expressions_peek_num s index = teco_numbers s ! (length (teco_numbers s) - 1 - index)"

lemma peek_heads [simp]:
  "teco_expressions_peek_op (s\<lparr>teco_undo_heads := h\<rparr>) i = teco_expressions_peek_op s i"
  "teco_expressions_peek_num (s\<lparr>teco_undo_heads := h\<rparr>) i = teco_expressions_peek_num s i"
  by (simp_all add: teco_expressions_peek_op_def teco_expressions_peek_num_def)

definition top_is_number :: "teco \<Rightarrow> bool" where
  "top_is_number s \<longleftrightarrow> teco_operators s \<noteq> [] \<and> teco_expressions_peek_op s 0 = TECO_OP_NUMBER"

definition teco_expressions_push_op :: "teco_operator \<Rightarrow> unit tm" where
  "teco_expressions_push_op op =
     thenM (modify (\<lambda>s. s\<lparr>teco_operators := teco_operators s @ [op]\<rparr>))
       (bindM (gets (\<lambda>s. Undo_remove_operator (length (teco_operators s) - 1))) push_token)"

definition teco_expressions_pop_op :: "nat \<Rightarrow> teco_operator tm" where
  "teco_expressions_pop_op index = bindM (gets teco_operators) (\<lambda>ops.
     if ops \<noteq> [] then
       bindM (gets (\<lambda>s. teco_expressions_peek_op s index)) (\<lambda>op.
       thenM (change (\<lambda>s. Undo_insert_operator (length (teco_operators s) - 1 - index) op)
           (\<lambda>s. s\<lparr>teco_operators := garray_remove_index (length (teco_operators s) - 1 - index) (teco_operators s)\<rparr>))
         (ret op))
     else ret TECO_OP_NIL)"

lemma wp_pop_op [wp_undo]:
  assumes "teco_operators s = [] \<Longrightarrow> Q TECO_OP_NIL s"
    and "\<And>h. teco_operators s \<noteq> [] \<Longrightarrow> Q (teco_expressions_peek_op s i)
      (s\<lparr>teco_undo_heads := h, teco_operators := garray_remove_index (length (teco_operators s) - 1 - i) (teco_operators s)\<rparr>)"
    and "\<And>h. E G_assertion_failed (s\<lparr>teco_undo_heads := h\<rparr>)"
  shows "wp (teco_expressions_pop_op i) Q E s"
  unfolding teco_expressions_pop_op_def wp_simps using assms
  by (auto intro!: wp_change simp: wp_simps)

lemma peek_op_0: "teco_operators s \<noteq> [] \<Longrightarrow> teco_expressions_peek_op s 0 = last (teco_operators s)"
  by (simp add: teco_expressions_peek_op_def last_conv_nth)

lemma peek_num_0: "teco_numbers s \<noteq> [] \<Longrightarrow> teco_expressions_peek_num s 0 = last (teco_numbers s)"
  by (simp add: teco_expressions_peek_num_def last_conv_nth)

lemma top_is_number_iff: "top_is_number s \<longleftrightarrow> teco_operators s \<noteq> [] \<and> last (teco_operators s) = TECO_OP_NUMBER"
  by (auto simp: top_is_number_def peek_op_0)

lemma wp_pop_op_0 [wp_undo]:
  assumes "teco_operators s = [] \<Longrightarrow> Q TECO_OP_NIL s"
    and "\<And>h. teco_operators s \<noteq> [] \<Longrightarrow> Q (last (teco_operators s))
      (s\<lparr>teco_undo_heads := h, teco_operators := butlast (teco_operators s)\<rparr>)"
    and "\<And>h. E G_assertion_failed (s\<lparr>teco_undo_heads := h\<rparr>)"
  shows "wp (teco_expressions_pop_op 0) Q E s"
  by (rule wp_pop_op) (simp_all add: assms peek_op_0)

lemma pop_op_shortens:
  "teco_expressions_pop_op 0 s = (Inr x, s') \<Longrightarrow> teco_operators s \<noteq> [] \<Longrightarrow>
   length (teco_operators s') < length (teco_operators s)"
  by (erule wp_okD [rotated]) (auto intro!: wp_pop_op [where E = "\<lambda>_ _. True"])

text \<open>\<open>while (teco_operators->len > 0 && teco_expressions_peek_op(0) == TECO_OP_NEW)\<close> pop it.\<close>

function drop_new :: "unit tm" where
  "drop_new s =
     (if teco_operators s \<noteq> [] \<and> teco_expressions_peek_op s 0 = TECO_OP_NEW
      then bindM (teco_expressions_pop_op 0) (\<lambda>_ s'. drop_new s') s else ret () s)"
  by pat_completeness auto
termination
  by (relation "measure (\<lambda>s. length (teco_operators s))") (auto dest: pop_op_shortens)

declare drop_new.simps [simp del]

definition append_number :: "teco_int \<Rightarrow> unit tm" where
  "append_number n =
     thenM (modify (\<lambda>s. s\<lparr>teco_numbers := teco_numbers s @ [n]\<rparr>))
       (bindM (gets (\<lambda>s. Undo_remove_number (length (teco_numbers s) - 1))) push_token)"

definition teco_expressions_push_int :: "teco_int \<Rightarrow> unit tm" where
  "teco_expressions_push_int number =
     thenM drop_new
    (thenM (teco_expressions_push_op TECO_OP_NUMBER)
    (bindM (gets teco_num_sign) (\<lambda>sign.
       if sign < 0 then thenM (teco_set_num_sign 1) (append_number (number * - 1))
       else append_number number)))"

definition teco_expressions_push_str :: "string \<Rightarrow> unit tm" where
  "teco_expressions_push_str str = mapM (\<lambda>c. teco_expressions_push_int (word_of_int (schar c))) (takeWhile (\<lambda>c. c \<noteq> CHR 0x00) str)"

definition teco_expressions_pop_num :: "nat \<Rightarrow> teco_int tm" where
  "teco_expressions_pop_num index =
     bindM (teco_expressions_pop_op 0) (\<lambda>op.
       if op \<noteq> TECO_OP_NUMBER then throw G_assertion_failed
       else bindM (gets teco_numbers) (\<lambda>nums.
         if nums \<noteq> [] then
           bindM (gets (\<lambda>s. teco_expressions_peek_num s index)) (\<lambda>n.
           thenM (change (\<lambda>s. Undo_insert_number (length (teco_numbers s) - 1 - index) n)
               (\<lambda>s. s\<lparr>teco_numbers := garray_remove_index (length (teco_numbers s) - 1 - index) (teco_numbers s)\<rparr>))
             (ret n))
         else ret 0))"

lemma wp_push_op [wp_undo]:
  assumes "\<And>h. Q () (s\<lparr>teco_undo_heads := h, teco_operators := teco_operators s @ [op]\<rparr>)"
    and "\<And>h. E G_assertion_failed (s\<lparr>teco_undo_heads := h, teco_operators := teco_operators s @ [op]\<rparr>)"
  shows "wp (teco_expressions_push_op op) Q E s"
  unfolding teco_expressions_push_op_def wp_simps using assms by (auto intro!: wp_push_token)

lemma wp_pop_num [wp_undo]:
  assumes "\<And>h. teco_operators s = [] \<or> last (teco_operators s) \<noteq> TECO_OP_NUMBER \<Longrightarrow>
      E G_assertion_failed (s\<lparr>teco_undo_heads := h, teco_operators := butlast (teco_operators s)\<rparr>)"
    and "\<And>h. top_is_number s \<Longrightarrow> teco_numbers s \<noteq> [] \<Longrightarrow> Q (teco_expressions_peek_num s i)
      (s\<lparr>teco_undo_heads := h, teco_operators := butlast (teco_operators s),
        teco_numbers := garray_remove_index (length (teco_numbers s) - 1 - i) (teco_numbers s)\<rparr>)"
    and "\<And>h. top_is_number s \<Longrightarrow> teco_numbers s = [] \<Longrightarrow>
      Q 0 (s\<lparr>teco_undo_heads := h, teco_operators := butlast (teco_operators s)\<rparr>)"
    and "\<And>s. E G_assertion_failed s"
  shows "wp (teco_expressions_pop_num i) Q E s"
proof (cases "teco_operators s = []")
  case True
  then show ?thesis
    unfolding teco_expressions_pop_num_def wp_simps by (auto intro!: wp_pop_op simp: wp_simps assms(4))
next
  case False
  then have r: "garray_remove_index (length (teco_operators s) - 1 - 0) (teco_operators s) = butlast (teco_operators s)"
    by simp
  show ?thesis
    unfolding teco_expressions_pop_num_def wp_simps using assms False
    by (auto intro!: wp_pop_op wp_change simp: wp_simps r top_is_number_def teco_expressions_peek_num_def)
qed

lemma wp_pop_num_0 [wp_undo]:
  assumes "\<And>h. teco_operators s \<noteq> [] \<Longrightarrow> last (teco_operators s) = TECO_OP_NUMBER \<Longrightarrow> teco_numbers s \<noteq> [] \<Longrightarrow>
      Q (last (teco_numbers s)) (s\<lparr>teco_undo_heads := h, teco_operators := butlast (teco_operators s),
        teco_numbers := butlast (teco_numbers s)\<rparr>)"
    and "\<And>h. teco_operators s \<noteq> [] \<Longrightarrow> last (teco_operators s) = TECO_OP_NUMBER \<Longrightarrow> teco_numbers s = [] \<Longrightarrow>
      Q 0 (s\<lparr>teco_undo_heads := h, teco_operators := butlast (teco_operators s)\<rparr>)"
    and "\<And>s. E G_assertion_failed s"
  shows "wp (teco_expressions_pop_num 0) Q E s"
  by (rule wp_pop_num) (simp_all add: assms top_is_number_iff peek_num_0)

lemma wp_drop_new [wp_undo]:
  assumes "\<And>h ops. prefix ops (teco_operators s) \<Longrightarrow> (ops = [] \<or> last ops \<noteq> TECO_OP_NEW) \<Longrightarrow>
      set (drop (length ops) (teco_operators s)) \<subseteq> {TECO_OP_NEW} \<Longrightarrow>
      Q () (s\<lparr>teco_undo_heads := h, teco_operators := ops\<rparr>)"
    and "\<And>s. E G_assertion_failed s"
  shows "wp drop_new Q E s"
  using assms
proof (induction s rule: drop_new.induct)
  case (1 s)
  let ?c = "teco_operators s \<noteq> [] \<and> teco_expressions_peek_op s 0 = TECO_OP_NEW"
  show ?case
  proof (cases ?c)
    case False
    have "Q () (s\<lparr>teco_undo_heads := teco_undo_heads s, teco_operators := teco_operators s\<rparr>)"
      using False by (intro 1(2)) (auto simp: teco_expressions_peek_op_def last_conv_nth)
    then show ?thesis using False by (auto simp: wp_def drop_new.simps [of s] ret_def)
  next
    case True
    have w: "wp drop_new Q E s = wp (bindM (teco_expressions_pop_op 0) (\<lambda>_. drop_new)) Q E s"
      using True by (simp add: wp_def drop_new.simps [of s])
    have l: "teco_operators s = butlast (teco_operators s) @ [TECO_OP_NEW]"
      using True append_butlast_last_id [of "teco_operators s"]
      by (simp add: teco_expressions_peek_op_def last_conv_nth)
    show ?thesis
      unfolding w wp_simps
    proof (rule wp_runI)
      fix x s'
      assume r: "teco_expressions_pop_op 0 s = (Inr x, s')"
      have "wp (teco_expressions_pop_op 0) (\<lambda>x t. \<exists>h. t = s\<lparr>teco_undo_heads := h, teco_operators := butlast (teco_operators s)\<rparr>)
              (\<lambda>_ _. True) s"
        using True by (auto intro!: wp_pop_op)
      then obtain h where s': "s' = s\<lparr>teco_undo_heads := h, teco_operators := butlast (teco_operators s)\<rparr>"
        using r by (blast dest: wp_okD)
      show "wp drop_new Q E s'"
      proof (rule 1(1) [OF True r])
        fix h' ops
        assume a: "prefix ops (teco_operators s')" "ops = [] \<or> last ops \<noteq> TECO_OP_NEW"
          "set (drop (length ops) (teco_operators s')) \<subseteq> {TECO_OP_NEW}"
        have "Q () (s\<lparr>teco_undo_heads := h', teco_operators := ops\<rparr>)"
        proof (rule 1(2))
          show "prefix ops (teco_operators s)"
            using a(1) l by (simp add: s') (metis prefixI prefix_order.trans)
          show "set (drop (length ops) (teco_operators s)) \<subseteq> {TECO_OP_NEW}"
            using a(1,3) by (subst l) (auto simp: s' dest: prefix_length_le)
        qed (fact a)
        then show "Q () (s'\<lparr>teco_undo_heads := h', teco_operators := ops\<rparr>)" by (simp add: s')
      qed (fact 1(3))
    next
      fix e s' assume r: "teco_expressions_pop_op 0 s = (Inl e, s')"
      have "wp (teco_expressions_pop_op 0) (\<lambda>x t. True) (\<lambda>e t. e = G_assertion_failed) s"
        by (auto intro!: wp_pop_op)
      then show "E e s'" using r 1(3) by (auto dest: wp_errD)
    qed
  qed
qed

lemma wp_append_number [wp_undo]:
  assumes "\<And>h. Q () (s\<lparr>teco_undo_heads := h, teco_numbers := teco_numbers s @ [n]\<rparr>)"
    and "\<And>s. E G_assertion_failed s"
  shows "wp (append_number n) Q E s"
  unfolding append_number_def wp_simps using assms by (auto intro!: wp_push_token)

text \<open>\<open>push_int\<close>: all \<open>TECO_OP_NEW\<close> on top are replaced by one number, negated if the sign is set.\<close>

lemma wp_push_int [wp_undo]:
  assumes "\<And>h ops. prefix ops (teco_operators s) \<Longrightarrow> (ops = [] \<or> last ops \<noteq> TECO_OP_NEW) \<Longrightarrow>
      set (drop (length ops) (teco_operators s)) \<subseteq> {TECO_OP_NEW} \<Longrightarrow> 0 \<le> teco_num_sign s \<Longrightarrow>
      Q () (s\<lparr>teco_undo_heads := h, teco_operators := ops @ [TECO_OP_NUMBER], teco_numbers := teco_numbers s @ [n]\<rparr>)"
    and "\<And>h ops. prefix ops (teco_operators s) \<Longrightarrow> (ops = [] \<or> last ops \<noteq> TECO_OP_NEW) \<Longrightarrow>
      set (drop (length ops) (teco_operators s)) \<subseteq> {TECO_OP_NEW} \<Longrightarrow> teco_num_sign s < 0 \<Longrightarrow>
      Q () (s\<lparr>teco_undo_heads := h, teco_operators := ops @ [TECO_OP_NUMBER], teco_num_sign := 1,
            teco_numbers := teco_numbers s @ [- n]\<rparr>)"
    and "\<And>s. E G_assertion_failed s"
  shows "wp (teco_expressions_push_int n) Q E s"
  unfolding teco_expressions_push_int_def teco_set_num_sign_def wp_simps
  by (rule wp_drop_new, rule wp_push_op)
    (use assms(1,2) [where ops = "[]", simplified] in
      \<open>auto intro!: wp_append_number wp_change simp: wp_simps assms\<close>)

section \<open>Evaluation\<close>

definition teco_expressions_args :: "teco \<Rightarrow> nat" where
  "teco_expressions_args s = length (takeWhile (\<lambda>op. op = TECO_OP_NUMBER) (rev (teco_operators s)))"

fun first_op_loop :: "nat \<Rightarrow> teco_operator list \<Rightarrow> int" where
  "first_op_loop i [] = -1"
| "first_op_loop i (op # ops) =
     (if op = TECO_OP_NUMBER \<or> op = TECO_OP_NEW then first_op_loop (Suc i) ops else int i)"

definition teco_expressions_first_op :: "teco \<Rightarrow> int" where
  "teco_expressions_first_op s = first_op_loop 0 (rev (teco_operators s))"

definition teco_expressions_calc :: "unit tm" where
  "teco_expressions_calc = bindM (gets top_is_number) (\<lambda>right.
     if \<not> right then throw (TECO_ERROR_FAILED ''Missing right operand'')
     else bindM (teco_expressions_pop_num 0) (\<lambda>vright.
       bindM (teco_expressions_pop_op 0) (\<lambda>op.
       bindM (gets top_is_number) (\<lambda>left.
         if \<not> left then throw (TECO_ERROR_FAILED ''Missing left operand'')
         else bindM (teco_expressions_pop_num 0) (\<lambda>vleft.
           case calc_result op vleft vright of Inl e \<Rightarrow> throw e | Inr result \<Rightarrow> teco_expressions_push_int result)))))"

text \<open>A successful calculation removes two operands and the operator and pushes one number.\<close>

lemma calc_shortens:
  assumes "teco_expressions_calc s = (Inr x, s')"
  shows "length (teco_operators s') < length (teco_operators s)"
proof -
  have "wp teco_expressions_calc (\<lambda>_ t. length (teco_operators t) < length (teco_operators s)) (\<lambda>_ _. True) s"
    unfolding teco_expressions_calc_def wp_simps
    by (auto intro!: wp_pop_num_0 wp_pop_op_0 wp_push_int simp: wp_simps top_is_number_iff butlast_Nil
        dest!: prefix_length_le split: sum.splits)
  then show ?thesis using assms by (rule wp_okD)
qed

function teco_expressions_eval :: "bool \<Rightarrow> unit tm" where
  "teco_expressions_eval pop_brace s =
     bindM (gets teco_expressions_first_op) (\<lambda>n.
       if n < 0 then ret ()
       else bindM (gets (\<lambda>s. teco_expressions_peek_op s (nat n))) (\<lambda>op.
         if op = TECO_OP_BRACE then
           whenM pop_brace (thenM (teco_expressions_pop_op (nat n)) (ret ()))
         else if n < 1 then ret ()
         else thenM teco_expressions_calc (\<lambda>s'. teco_expressions_eval pop_brace s'))) s"
  by pat_completeness auto
termination
  by (relation "measure (\<lambda>(_, s). length (teco_operators s))") (auto simp: run_simps dest: calc_shortens)

function teco_expressions_push_calc :: "teco_operator \<Rightarrow> unit tm" where
  "teco_expressions_push_calc op s =
     bindM (gets teco_expressions_first_op) (\<lambda>first.
     bindM (gets (\<lambda>s. teco_expressions_peek_op s (nat first))) (\<lambda>top.
       if first < 0 \<or> teco_expressions_precedence top < teco_expressions_precedence op
       then teco_expressions_push_op op
       else thenM teco_expressions_calc (\<lambda>s'. teco_expressions_push_calc op s'))) s"
  by pat_completeness auto
termination
  by (relation "measure (\<lambda>(_, s). length (teco_operators s))") (auto simp: run_simps dest: calc_shortens)

declare teco_expressions_eval.simps [simp del] teco_expressions_push_calc.simps [simp del]

section \<open>Arguments\<close>

definition teco_expressions_pop_num_calc :: "teco_int \<Rightarrow> teco_int tm" where
  "teco_expressions_pop_num_calc imply =
     thenM (teco_expressions_eval False)
    (bindM (gets teco_num_sign) (\<lambda>sign.
       thenM (whenM (sign < 0) (teco_set_num_sign 1))
      (bindM (gets teco_expressions_args) (\<lambda>n.
         if 0 < n then teco_expressions_pop_num 0 else ret imply))))"

text \<open>The radix is what the register's \<open>get_integer\<close> returned.\<close>

definition teco_expressions_add_digit :: "unichar \<Rightarrow> teco_int \<Rightarrow> unit tm" where
  "teco_expressions_add_digit digit radix =
     bindM (gets teco_expressions_args) (\<lambda>k.
     bindM (if 0 < k then teco_expressions_pop_num 0 else ret 0) (\<lambda>n.
       teco_expressions_push_int
         (n * radix + (if sint n < 0 then - 1 else 1) * (ucast digit - 0x30))))"

fun discard_loop :: "nat \<Rightarrow> unit tm" where
  "discard_loop 0 = ret ()"
| "discard_loop (Suc i) = thenM (thenM (teco_expressions_pop_num_calc 0) (ret ())) (discard_loop i)"

definition teco_expressions_discard_args :: "unit tm" where
  "teco_expressions_discard_args =
     thenM (teco_expressions_eval False) (bindM (gets teco_expressions_args) discard_loop)"

lemma first_op_loop_range:
  "first_op_loop i ops = -1 \<or> int i \<le> first_op_loop i ops \<and> first_op_loop i ops < int (i + length ops)"
  by (induction i ops rule: first_op_loop.induct) auto

lemma first_op_bound: "0 \<le> teco_expressions_first_op s \<Longrightarrow> nat (teco_expressions_first_op s) < length (teco_operators s)"
  using first_op_loop_range [of 0 "rev (teco_operators s)"] by (auto simp: teco_expressions_first_op_def)

fun pop_args :: "nat \<Rightarrow> teco_int list \<Rightarrow> teco_int list tm" where
  "pop_args 0 acc = ret acc"
| "pop_args (Suc i) acc = bindM (teco_expressions_pop_num 0) (\<lambda>n. pop_args i (n # acc))"

section \<open>Relations the stack operations respect\<close>

text \<open>
  The contract between the primitive stack operations and everything built on them: a step
  relation that the pushes, the pops within the stack and the sign change respect is respected
  by every operation of this theory that does not change the brace level.
\<close>

locale stack_relation = step_preorder R for R :: "teco \<Rightarrow> teco \<Rightarrow> bool" +
  assumes push_op: "obeys R (teco_expressions_push_op op)"
    and pop_op_at: "i < length (teco_operators s) \<or> teco_operators s = [] \<Longrightarrow> R s (snd (teco_expressions_pop_op i s))"
    and append_number: "obeys R (append_number n)"
    and pop_num_0: "obeys R (teco_expressions_pop_num 0)"
    and set_num_sign: "obeys R (teco_set_num_sign sign)"
begin

lemma pop_op_0: "obeys R (teco_expressions_pop_op 0)"
  unfolding obeys_def using pop_op_at by fastforce

lemma drop_new: "obeys R drop_new"
  unfolding obeys_def
proof
  fix s show "R s (snd (drop_new s))"
  proof (induction s rule: drop_new.induct)
    case (1 s)
    then show ?case
      by (subst drop_new.simps) (auto intro!: bind_at obeysD [OF pop_op_0] simp: ret_run R_refl)
  qed
qed

lemma push_int: "obeys R (teco_expressions_push_int n)"
  unfolding teco_expressions_push_int_def by (intro intros drop_new push_op append_number set_num_sign)

lemma push_str: "obeys R (teco_expressions_push_str str)"
  unfolding teco_expressions_push_str_def by (intro intros push_int)

lemma calc: "obeys R teco_expressions_calc"
  unfolding teco_expressions_calc_def
  by (intro intros pop_num_0 pop_op_0) (auto split: sum.split intro: throw push_int)

lemma eval: "obeys R (teco_expressions_eval pop_brace)"
  unfolding obeys_def
proof
  fix s show "R s (snd (teco_expressions_eval pop_brace s))"
  proof (induction pop_brace s rule: teco_expressions_eval.induct)
    case (1 b s)
    have p: "R s (snd (thenM (teco_expressions_pop_op (nat (teco_expressions_first_op s))) (ret ()) s))"
      if "0 \<le> teco_expressions_first_op s"
      using that first_op_bound [of s] by (intro then_at pop_op_at) (auto simp: ret_run R_refl)
    have IH: "R s' (snd (teco_expressions_eval c s'))"
      if "c = b" "\<not> teco_expressions_first_op s < 1" "teco_expressions_calc s = (Inr u, s')"
        "teco_expressions_peek_op s (nat (teco_expressions_first_op s)) \<noteq> TECO_OP_BRACE" for s' u c
      unfolding \<open>c = b\<close> by (rule 1 [OF gets_run _ gets_run]) (use that in auto)
    show ?case
      by (subst teco_expressions_eval.simps)
        (auto intro!: gets_at then_at obeysD [OF calc] obeysD [OF pop_op_0] IH p simp: R_refl ret_run whenM_run gets_run)
  qed
qed

lemma push_calc: "obeys R (teco_expressions_push_calc op)"
  unfolding obeys_def
proof
  fix s show "R s (snd (teco_expressions_push_calc op s))"
  proof (induction op s rule: teco_expressions_push_calc.induct)
    case (1 op s)
    show ?case
      by (subst teco_expressions_push_calc.simps)
        (auto intro!: gets_at then_at obeysD [OF calc] obeysD [OF push_op] 1 [OF gets_run gets_run] simp: gets_run)
  qed
qed

lemma pop_num_calc: "obeys R (teco_expressions_pop_num_calc imply)"
  unfolding teco_expressions_pop_num_calc_def by (intro intros eval pop_num_0 set_num_sign)

lemma add_digit: "obeys R (teco_expressions_add_digit digit radix)"
  unfolding teco_expressions_add_digit_def by (intro intros pop_num_0 push_int)

lemma discard_loop: "obeys R (discard_loop n)"
  by (induction n) (simp_all add: ret thenM pop_num_calc)

lemma discard_args: "obeys R teco_expressions_discard_args"
  unfolding teco_expressions_discard_args_def by (intro intros eval discard_loop)

lemma pop_args: "obeys R (pop_args n acc)"
  by (induction n arbitrary: acc) (auto intro: ret bind pop_num_0)

lemmas stack_intros = intros push_op pop_op_0 drop_new append_number pop_num_0 set_num_sign push_int
  push_str calc eval push_calc pop_num_calc add_digit discard_args pop_args

end

section \<open>The stack operations touch the stacks only\<close>

text \<open>
  \<open>stacks_only s t\<close>: between \<open>s\<close> and \<open>t\<close> nothing has changed but the two stacks, the sign and the
  undo tokens. It is a step relation, so programs inherit it from their parts.
\<close>

definition rest_of :: "teco \<Rightarrow> teco" where
  "rest_of s = s\<lparr>teco_undo_heads := [], teco_numbers := [], teco_operators := [], teco_num_sign := 1\<rparr>"

definition stacks_only :: "teco \<Rightarrow> teco \<Rightarrow> bool" where
  "stacks_only s t \<longleftrightarrow> rest_of t = rest_of s"

lemma stacks_onlyD:
  assumes "stacks_only s t"
  shows "teco_brace_level t = teco_brace_level s" "teco_loop_stack t = teco_loop_stack s"
    "frames t = frames s" "cmdline_machine t = cmdline_machine s" "cmdline_pc t = cmdline_pc s"
    "teco_undo_enabled t = teco_undo_enabled s" "teco_goto_skip_label t = teco_goto_skip_label s"
    "teco_goto_backup_pc t = teco_goto_backup_pc s" "teco_error_return_args t = teco_error_return_args s"
    "teco_ed t = teco_ed s" "ctx t = ctx s" "teco_qreg_table_globals t = teco_qreg_table_globals s"
    "cmdline_locals t = cmdline_locals s" "macro_locals t = macro_locals s"
proof -
  have e: "rest_of t = rest_of s" using assms by (simp add: stacks_only_def)
  show "teco_brace_level t = teco_brace_level s" using arg_cong [OF e, of teco_brace_level] by (simp add: rest_of_def)
  show "teco_loop_stack t = teco_loop_stack s" using arg_cong [OF e, of teco_loop_stack] by (simp add: rest_of_def)
  show f: "frames t = frames s" using arg_cong [OF e, of frames] by (simp add: rest_of_def)
  show c: "cmdline_machine t = cmdline_machine s" using arg_cong [OF e, of cmdline_machine] by (simp add: rest_of_def)
  show "cmdline_pc t = cmdline_pc s" using arg_cong [OF e, of cmdline_pc] by (simp add: rest_of_def)
  show "teco_undo_enabled t = teco_undo_enabled s" using arg_cong [OF e, of teco_undo_enabled] by (simp add: rest_of_def)
  show "teco_goto_skip_label t = teco_goto_skip_label s" using arg_cong [OF e, of teco_goto_skip_label] by (simp add: rest_of_def)
  show "teco_goto_backup_pc t = teco_goto_backup_pc s" using arg_cong [OF e, of teco_goto_backup_pc] by (simp add: rest_of_def)
  show "teco_error_return_args t = teco_error_return_args s" using arg_cong [OF e, of teco_error_return_args] by (simp add: rest_of_def)
  show "teco_ed t = teco_ed s" using arg_cong [OF e, of teco_ed] by (simp add: rest_of_def)
  show "teco_qreg_table_globals t = teco_qreg_table_globals s"
    using arg_cong [OF e, of teco_qreg_table_globals] by (simp add: rest_of_def)
  show "cmdline_locals t = cmdline_locals s" using arg_cong [OF e, of cmdline_locals] by (simp add: rest_of_def)
  show "macro_locals t = macro_locals s" using arg_cong [OF e, of macro_locals] by (simp add: rest_of_def)
  show "ctx t = ctx s" by (simp add: ctx_def f c split: list.split)
qed

lemma so_push_token: "obeys stacks_only (push_token t)"
  unfolding obeys_def
proof
  fix s
  show "stacks_only s (snd (push_token t s))"
    using push_token_run [of t s] by (auto simp: stacks_only_def rest_of_def)
qed

lemma step_preorder_stacks_only: "step_preorder stacks_only"
  by unfold_locales (simp_all add: stacks_only_def)

lemmas so_intros = step_preorder.intros [OF step_preorder_stacks_only]

lemma so_change: "(\<And>s. rest_of (f s) = rest_of s) \<Longrightarrow> obeys stacks_only (change t f)"
  unfolding change_def
  by (intro so_intros so_push_token step_preorder.modify [OF step_preorder_stacks_only]) (simp add: stacks_only_def)

lemma so_after: "(\<And>s. rest_of (f s) = rest_of s) \<Longrightarrow> obeys stacks_only (thenM (modify f) (bindM (gets t) push_token))"
  by (intro so_intros so_push_token step_preorder.modify [OF step_preorder_stacks_only]) (simp add: stacks_only_def)

lemma so_pop_op: "obeys stacks_only (teco_expressions_pop_op i)"
  unfolding teco_expressions_pop_op_def by (intro so_intros so_change) (simp_all add: rest_of_def)

interpretation so: stack_relation stacks_only
proof (unfold_locales, goal_cases)
  case (3 op)
  then show ?case unfolding teco_expressions_push_op_def by (rule so_after) (simp add: rest_of_def)
next
  case (4 i s)
  show ?case by (rule obeysD [OF so_pop_op])
next
  case (5 n)
  then show ?case unfolding append_number_def by (rule so_after) (simp add: rest_of_def)
next
  case 6
  then show ?case unfolding teco_expressions_pop_num_def
    by (intro so_intros so_change so_pop_op) (simp_all add: rest_of_def)
next
  case (7 sign)
  then show ?case unfolding teco_set_num_sign_def by (rule so_change) (simp add: rest_of_def)
qed (simp_all add: stacks_only_def)

section \<open>Braces\<close>

definition set_brace_level :: "(nat \<Rightarrow> nat) \<Rightarrow> unit tm" where
  "set_brace_level f =
     change (\<lambda>s. Undo_brace_level (teco_brace_level s)) (\<lambda>s. s\<lparr>teco_brace_level := f (teco_brace_level s)\<rparr>)"

definition teco_expressions_brace_open :: "unit tm" where
  "teco_expressions_brace_open =
     thenM drop_new (thenM (teco_expressions_push_op TECO_OP_BRACE) (set_brace_level Suc))"

text \<open>The loop of \<open>teco_expressions_brace_return\<close>; it decrements the level without a token.\<close>

lemma brace_level_frame: "teco_brace_level (snd (thenM teco_expressions_discard_args (teco_expressions_eval True) s)) = teco_brace_level s"
proof -
  have "obeys stacks_only (thenM teco_expressions_discard_args (teco_expressions_eval True))"
    by (intro so.thenM so.discard_args so.eval)
  then show ?thesis by (auto dest: obeysD stacks_onlyD)
qed

function brace_loop :: "nat \<Rightarrow> unit tm" where
  "brace_loop keep_braces s =
     (if keep_braces < teco_brace_level s
      then thenM (thenM teco_expressions_discard_args (teco_expressions_eval True))
        (\<lambda>s'. brace_loop keep_braces (s'\<lparr>teco_brace_level := teco_brace_level s' - 1\<rparr>)) s
      else ret () s)"
  by pat_completeness auto
termination
proof (relation "measure (\<lambda>(_, s). teco_brace_level s)", goal_cases)
  case (2 keep s x s')
  then have "teco_brace_level s' = teco_brace_level s" using brace_level_frame [of s] by simp
  with 2 show ?case by simp
qed simp

declare brace_loop.simps [simp del]

definition teco_expressions_brace_return :: "nat \<Rightarrow> nat \<Rightarrow> unit tm" where
  "teco_expressions_brace_return keep_braces args =
     bindM (pop_args args []) (\<lambda>return_numbers.
       thenM (bindM (gets (\<lambda>s. Undo_brace_level (teco_brace_level s))) push_token)
         (thenM (brace_loop keep_braces) (mapM teco_expressions_push_int return_numbers)))"

definition teco_expressions_brace_close :: "unit tm" where
  "teco_expressions_brace_close =
     bindM (gets teco_brace_level) (\<lambda>level.
       if level = 0 then throw (TECO_ERROR_FAILED ''Missing opening brace'')
       else thenM (set_brace_level (\<lambda>n. n - 1)) (teco_expressions_eval True))"

text \<open>\<open>teco_expressions_clear\<close> empties the stacks for good: it is not undone.\<close>

definition teco_expressions_clear :: "teco \<Rightarrow> teco" where
  "teco_expressions_clear s = s\<lparr>teco_numbers := [], teco_operators := [], teco_brace_level := 0\<rparr>"

end
