(* ===== verification/Stack_Laws.thy ===== *)
theory Stack_Laws
  imports Expressions
begin

text \<open>
  What every operation of the expression stacks keeps: its side effects are reverted by the undo
  tokens it pushes, it computes the same with and without undo, the number stack has an entry
  for every \<open>TECO_OP_NUMBER\<close>, and there is an open brace for every brace level.
\<close>

section \<open>The loop that closes braces\<close>

context stack_relation
begin

lemma brace_loop:
  assumes level: "\<And>s b. R s (s\<lparr>teco_brace_level := b\<rparr>)"
  shows "obeys R (brace_loop keep)"
  unfolding obeys_def
proof
  fix s show "R s (snd (brace_loop keep s))"
  proof (induction keep s rule: brace_loop.induct)
    case (1 keep s)
    have "obeys R (thenM teco_expressions_discard_args (teco_expressions_eval True))" by (intro stack_intros)
    then have step: "R s (snd (thenM teco_expressions_discard_args (teco_expressions_eval True) s))" by (rule obeysD)
    show ?case
    proof (cases "keep < teco_brace_level s")
      case True
      have "R s (snd (thenM (thenM teco_expressions_discard_args (teco_expressions_eval True))
          (\<lambda>s'. brace_loop keep (s'\<lparr>teco_brace_level := teco_brace_level s' - 1\<rparr>)) s))"
        by (rule then_at, rule step) (rule R_trans [OF level 1 [OF True]])
      then show ?thesis using True by (subst brace_loop.simps) simp
    next
      case False
      then show ?thesis by (subst brace_loop.simps) (simp add: ret_run R_refl)
    qed
  qed
qed

end

section \<open>Rubbing out\<close>

lemma reverts_pop_op_at:
  assumes "i < length (teco_operators s) \<or> teco_operators s = []"
  shows "reverts s (snd (teco_expressions_pop_op i s))"
proof (cases "teco_operators s = []")
  case True
  then show ?thesis by (simp add: teco_expressions_pop_op_def run_simps ulog.rollback_refl)
next
  case False
  then have "i < length (teco_operators s)" using assms by simp
  then have "length (teco_operators s) - 1 - i < length (teco_operators s)" by simp
  then show ?thesis using False
    by (auto simp: teco_expressions_pop_op_def teco_expressions_peek_op_def gets_run core_def ret_run
        intro!: ulog.rb.gets_at ulog.rb.then_at reverts_change_at ulog.rollback_refl)
qed

lemma reverts_pop_num_0: "obeys reverts (teco_expressions_pop_num 0)"
  unfolding obeys_def
proof
  fix s
  show "reverts s (snd (teco_expressions_pop_num 0 s))"
    unfolding teco_expressions_pop_num_def
  proof (rule ulog.rb.bind_at)
    show "reverts s (snd (teco_expressions_pop_op 0 s))" by (rule reverts_pop_op_at) auto
  next
    fix op and s' :: teco
    have "length (teco_numbers s') - 1 < length (teco_numbers s')" if "teco_numbers s' \<noteq> []"
      using that by simp
    then show "reverts s' (snd ((if op \<noteq> TECO_OP_NUMBER then throw G_assertion_failed
        else bindM (gets teco_numbers) (\<lambda>nums.
         if nums \<noteq> [] then
           bindM (gets (\<lambda>s. teco_expressions_peek_num s 0)) (\<lambda>n.
           thenM (change (\<lambda>s. Undo_insert_number (length (teco_numbers s) - 1 - 0) n)
               (\<lambda>s. s\<lparr>teco_numbers := garray_remove_index (length (teco_numbers s) - 1 - 0) (teco_numbers s)\<rparr>))
             (ret n))
         else ret 0)) s'))"
      by (auto simp: teco_expressions_peek_num_def core_def ret_run throw_run
          intro!: ulog.rb.gets_at ulog.rb.then_at reverts_change_at ulog.rollback_refl)
  qed
qed

interpretation rv: stack_relation reverts
proof (unfold_locales, goal_cases)
  case (1 op)
  then show ?case unfolding teco_expressions_push_op_def by (rule reverts_after) (simp_all add: core_def)
next
  case (2 i s)
  then show ?case by (rule reverts_pop_op_at)
next
  case (3 n)
  then show ?case unfolding append_number_def by (rule reverts_after) (simp_all add: core_def)
next
  case 4
  show ?case by (rule reverts_pop_num_0)
next
  case (5 sign)
  show ?case by (rule reverts_set_num_sign)
qed

lemma reverts_set_brace_level: "obeys reverts (set_brace_level f)"
  unfolding set_brace_level_def by (rule reverts_change) (simp_all add: core_def)

lemma reverts_brace_open: "obeys reverts teco_expressions_brace_open"
  unfolding teco_expressions_brace_open_def by (intro rv.stack_intros reverts_set_brace_level)

lemma reverts_brace_close: "obeys reverts teco_expressions_brace_close"
  unfolding teco_expressions_brace_close_def by (intro rv.stack_intros reverts_set_brace_level)

text \<open>
  \<open>teco_expressions_brace_return\<close> saves the brace level once and then decrements it without
  tokens. Its rubout therefore needs that the tokens pushed meanwhile restore the stacks
  whatever the level is.
\<close>

definition reverts_any_level :: "teco \<Rightarrow> teco \<Rightarrow> bool" where
  "reverts_any_level s t \<longleftrightarrow> (\<forall>b. reverts (s\<lparr>teco_brace_level := b\<rparr>) (t\<lparr>teco_brace_level := b\<rparr>))"

text \<open>
  A view changes parts of the state that the stack operations neither read nor write; they
  commute with it.
\<close>

definition blind :: "(teco \<Rightarrow> teco) \<Rightarrow> 'a tm \<Rightarrow> bool" where
  "blind g m \<longleftrightarrow> (\<forall>s. m (g s) = (fst (m s), g (snd (m s))))"

lemma blindD: "blind g m \<Longrightarrow> m (g s) = (fst (m s), g (snd (m s)))"
  by (simp add: blind_def)

lemma blind_bind: "blind g m \<Longrightarrow> (\<And>x. blind g (f x)) \<Longrightarrow> blind g (bindM m f)"
  by (auto simp: blind_def bindM_def split: prod.split sum.split)

lemma blind_simple:
  "blind g (ret x)" "blind g (throw e)"
  "(\<And>s. h (g s) = h s) \<Longrightarrow> blind g (gets h)" "(\<And>s. k (g s) = g (k s)) \<Longrightarrow> blind g (modify k)"
  by (simp_all add: blind_def ret_def throw_def gets_def modify_def)

lemma blind_if: "blind g m \<Longrightarrow> blind g n \<Longrightarrow> blind g (if c then m else n)"
  by simp

locale view =
  fixes g :: "teco \<Rightarrow> teco"
  assumes reads: "teco_numbers (g s) = teco_numbers s" "teco_operators (g s) = teco_operators s"
      "teco_num_sign (g s) = teco_num_sign s" "teco_undo_enabled (g s) = teco_undo_enabled s"
      "teco_undo_heads (g s) = teco_undo_heads s" "cmdline_pc (g s) = cmdline_pc s"
    and writes: "(g s)\<lparr>teco_numbers := ns\<rparr> = g (s\<lparr>teco_numbers := ns\<rparr>)"
      "(g s)\<lparr>teco_operators := ops\<rparr> = g (s\<lparr>teco_operators := ops\<rparr>)"
      "(g s)\<lparr>teco_num_sign := n\<rparr> = g (s\<lparr>teco_num_sign := n\<rparr>)"
      "(g s)\<lparr>teco_undo_heads := hs\<rparr> = g (s\<lparr>teco_undo_heads := hs\<rparr>)"
begin

lemma push_token: "blind g (push_token t)"
  by (simp add: blind_def push_token_def teco_undo_push_def Let_def reads writes)

lemmas blind_steps = blind_bind blind_simple blind_if push_token

lemma primitives:
  "blind g (teco_expressions_push_op op)" "blind g (append_number n)"
  "blind g (teco_set_num_sign sign)" "blind g (teco_expressions_pop_op i)"
  unfolding teco_expressions_push_op_def append_number_def teco_set_num_sign_def change_def thenM_def
    teco_expressions_pop_op_def
  by (intro blind_steps; simp add: teco_expressions_peek_op_def reads writes)+

lemma pop_num: "blind g (teco_expressions_pop_num i)"
  unfolding teco_expressions_pop_num_def change_def thenM_def
  by (intro blind_steps primitives; simp add: teco_expressions_peek_num_def reads writes)+

text \<open>So a relation that holds of the views is respected by the stack operations if the plain one is.\<close>

lemma related: "blind g m \<Longrightarrow> reverts (g s) (snd (m (g s))) \<Longrightarrow> reverts (g s) (g (snd (m s)))"
  by (simp add: blindD)

end

interpretation lv: view "\<lambda>s. s\<lparr>teco_brace_level := b\<rparr>" for b
  by unfold_locales simp_all

lemma any_levelI:
  assumes "\<And>b. blind (\<lambda>s. s\<lparr>teco_brace_level := b\<rparr>) m" "\<And>s. P s \<Longrightarrow> reverts s (snd (m s))"
    and "\<And>b. P (s\<lparr>teco_brace_level := b\<rparr>)"
  shows "reverts_any_level s (snd (m s))"
  unfolding reverts_any_level_def using lv.related [OF assms(1)] assms(2,3) by blast

interpretation rvl: stack_relation reverts_any_level
proof (unfold_locales, goal_cases)
  case (1 s)
  show ?case by (simp add: reverts_any_level_def ulog.rollback_refl)
next
  case (2 s t u)
  then show ?case by (auto simp: reverts_any_level_def intro: ulog.rollback_trans)
next
  case (3 op)
  show ?case unfolding obeys_def
    by (rule allI, rule any_levelI [where P = "\<lambda>_. True"]) (simp_all add: lv.primitives obeysD [OF rv.push_op])
next
  case (4 i s)
  show ?case
    by (rule any_levelI [where P = "\<lambda>s. i < length (teco_operators s) \<or> teco_operators s = []"])
      (simp_all add: lv.primitives reverts_pop_op_at 4)
next
  case (5 n)
  show ?case unfolding obeys_def
    by (rule allI, rule any_levelI [where P = "\<lambda>_. True"]) (simp_all add: lv.primitives obeysD [OF rv.append_number])
next
  case 6
  show ?case unfolding obeys_def
    by (rule allI, rule any_levelI [where P = "\<lambda>_. True"]) (simp_all add: lv.pop_num obeysD [OF reverts_pop_num_0])
next
  case (7 sign)
  show ?case unfolding obeys_def
    by (rule allI, rule any_levelI [where P = "\<lambda>_. True"]) (simp_all add: lv.primitives obeysD [OF reverts_set_num_sign])
qed

lemma any_level_set: "reverts_any_level s (s\<lparr>teco_brace_level := b\<rparr>)"
  by (simp add: reverts_any_level_def ulog.rollback_refl)

lemma any_level_brace_loop: "obeys reverts_any_level (brace_loop keep)"
  by (rule rvl.brace_loop) (rule any_level_set)

text \<open>A saved level followed by anything that is reverted at any level.\<close>

lemma reverts_bracket:
  assumes any: "obeys reverts_any_level m"
  shows "obeys reverts (thenM (bindM (gets (\<lambda>s. Undo_brace_level (teco_brace_level s))) push_token) m)"
  unfolding obeys_def
proof
  fix s :: teco
  let ?T = "Undo_brace_level (teco_brace_level s)"
  have save: "bindM (gets (\<lambda>s. Undo_brace_level (teco_brace_level s))) push_token s = push_token ?T s"
    by (simp add: run_simps)
  show "reverts s (snd (thenM (bindM (gets (\<lambda>s. Undo_brace_level (teco_brace_level s))) push_token) m s))"
  proof (rule rollbackI)
    assume s: "undo_ok s" "teco_undo_enabled s"
    let ?s1 = "s\<lparr>teco_undo_heads := settled s @ [?T # pending s]\<rparr>"
    have p: "push_token ?T s = (Inr (), ?s1)" using s by (simp add: push_token_def teco_undo_push_ok)
    let ?t = "snd (m ?s1)"
    have t: "snd (thenM (bindM (gets (\<lambda>s. Undo_brace_level (teco_brace_level s))) push_token) m s) = ?t"
      by (simp add: thenM_run save p)
    have ok: "undo_ok ?s1" "pending ?s1 = ?T # pending s" "settled ?s1 = settled s"
      using pushed_stack [OF s(1)] by simp_all
    let ?b = "teco_brace_level ?t"
    have "reverts (?s1\<lparr>teco_brace_level := ?b\<rparr>) (?t\<lparr>teco_brace_level := ?b\<rparr>)"
      using obeysD [OF any, of ?s1] unfolding reverts_any_level_def by blast
    moreover have "?t\<lparr>teco_brace_level := ?b\<rparr> = ?t" by simp
    ultimately have r: "reverts (?s1\<lparr>teco_brace_level := ?b\<rparr>) ?t" by simp
    have f: "undo_ok (s'\<lparr>teco_brace_level := c\<rparr>) = undo_ok s'" "pending (s'\<lparr>teco_brace_level := c\<rparr>) = pending s'"
      "settled (s'\<lparr>teco_brace_level := c\<rparr>) = settled s'" for s' :: teco and c
      by (simp_all add: undo_ok_def pending_def settled_def)
    obtain ts where ts: "undo_ok ?t" "teco_undo_enabled ?t" "cmdline_pc ?t = cmdline_pc s"
      "settled ?t = settled s" "pending ?t = ts @ ?T # pending s"
      "run_tokens undo_action ts (core ?t) = core (?s1\<lparr>teco_brace_level := ?b\<rparr>)"
      using r s by (auto simp: rollback_def f ok)
    have "run_tokens undo_action (ts @ [?T]) (core ?t) = core s"
      by (simp add: ts(6)) (simp add: core_def)
    then show "undo_ok (snd (thenM (bindM (gets (\<lambda>s. Undo_brace_level (teco_brace_level s))) push_token) m s)) \<and>
       teco_undo_enabled (snd (thenM (bindM (gets (\<lambda>s. Undo_brace_level (teco_brace_level s))) push_token) m s)) \<and>
       cmdline_pc (snd (thenM (bindM (gets (\<lambda>s. Undo_brace_level (teco_brace_level s))) push_token) m s)) = cmdline_pc s \<and>
       settled (snd (thenM (bindM (gets (\<lambda>s. Undo_brace_level (teco_brace_level s))) push_token) m s)) = settled s \<and>
       (\<exists>us. pending (snd (thenM (bindM (gets (\<lambda>s. Undo_brace_level (teco_brace_level s))) push_token) m s)) = us @ pending s \<and>
         run_tokens undo_action us (core (snd (thenM (bindM (gets (\<lambda>s. Undo_brace_level (teco_brace_level s))) push_token) m s))) = core s)"
      unfolding t using ts by (intro conjI exI [of _ "ts @ [?T]"]) simp_all
  qed
qed

lemma reverts_brace_return: "obeys reverts (teco_expressions_brace_return keep n)"
proof -
  have "obeys reverts_any_level (thenM (brace_loop keep) (mapM teco_expressions_push_int ns))" for ns
    by (intro rvl.stack_intros any_level_brace_loop)
  then show ?thesis
    unfolding teco_expressions_brace_return_def by (intro ulog.rb.bind rv.pop_args reverts_bracket)
qed

section \<open>The same computation with and without undo\<close>

lemma transparent_after_op: "transparent (teco_expressions_push_op op) s"
  unfolding teco_expressions_push_op_def by (rule transparent_after) (simp_all add: batch_def)

lemma peek_batch [simp]:
  "teco_expressions_peek_op (batch s) i = teco_expressions_peek_op s i"
  "teco_expressions_peek_num (batch s) i = teco_expressions_peek_num s i"
  "teco_expressions_args (batch s) = teco_expressions_args s"
  "teco_expressions_first_op (batch s) = teco_expressions_first_op s"
  "top_is_number (batch s) = top_is_number s"
  by (simp_all add: teco_expressions_peek_op_def teco_expressions_peek_num_def teco_expressions_args_def
      teco_expressions_first_op_def top_is_number_def)

lemma transparent_pop_op [transparent]: "transparent (teco_expressions_pop_op i) s"
  unfolding teco_expressions_pop_op_def
  by (intro transparent_get_bind transparent_then transparent transparent_change)
    ((simp; fail) | simp add: batch_def)+

lemma transparent_append_number [transparent]: "transparent (append_number n) s"
  unfolding append_number_def by (rule transparent_after) (simp_all add: batch_def)

lemma transparent_drop_new [transparent]: "transparent drop_new s"
proof (induction s rule: drop_new.induct)
  case (1 s)
  show ?case
  proof (cases "teco_operators s \<noteq> [] \<and> teco_expressions_peek_op s 0 = TECO_OP_NEW")
    case True
    have "transparent (bindM (teco_expressions_pop_op 0) (\<lambda>_. drop_new)) s"
      by (intro transparent_bind transparent_pop_op 1 [OF True])
    then show ?thesis using True
      by (simp add: transparent_def drop_new.simps [of s] drop_new.simps [of "batch s"])
  next
    case False
    then have "drop_new s = ret () s" "drop_new (batch s) = ret () (batch s)"
      by (auto simp: drop_new.simps [of s] drop_new.simps [of "batch s"])
    then show ?thesis by (simp add: transparent_def ret_def)
  qed
qed

lemma transparent_push_int [transparent]: "transparent (teco_expressions_push_int n) s"
  unfolding teco_expressions_push_int_def
  by (intro transparent_then transparent_get_bind transparent transparent_after_op) simp

lemma transparent_pop_num [transparent]: "transparent (teco_expressions_pop_num i) s"
  unfolding teco_expressions_pop_num_def
  by (intro transparent_get_bind transparent_bind transparent_then transparent transparent_change)
    ((simp; fail) | simp add: batch_def)+

lemma transparent_calc [transparent]: "transparent teco_expressions_calc s"
  unfolding teco_expressions_calc_def
  by (intro transparent_get_bind transparent_if transparent_bind transparent)
    (auto split: sum.split intro: transparent)

lemma transparent_cong: "transparent n s \<Longrightarrow> m s = n s \<Longrightarrow> m (batch s) = n (batch s) \<Longrightarrow> transparent m s"
  by (simp add: transparent_def)

lemma transparent_eval [transparent]: "transparent (teco_expressions_eval b) s"
proof (induction b s rule: teco_expressions_eval.induct)
  case (1 b s)
  show ?case
  proof (rule transparent_cong)
    show "transparent (bindM (gets teco_expressions_first_op) (\<lambda>n.
       if n < 0 then ret ()
       else bindM (gets (\<lambda>s. teco_expressions_peek_op s (nat n))) (\<lambda>op.
         if op = TECO_OP_BRACE then whenM b (thenM (teco_expressions_pop_op (nat n)) (ret ()))
         else if n < 1 then ret ()
         else thenM teco_expressions_calc (\<lambda>s'. teco_expressions_eval b s')))) s"
      by (intro transparent_get_bind transparent_if transparent_then transparent
          1 [OF gets_run _ gets_run]) (simp_all)
  qed (simp_all add: teco_expressions_eval.simps [of b s] teco_expressions_eval.simps [of b "batch s"])
qed

lemma transparent_push_calc [transparent]: "transparent (teco_expressions_push_calc op) s"
proof (induction op s rule: teco_expressions_push_calc.induct)
  case (1 op s)
  show ?case
  proof (rule transparent_cong)
    show "transparent (bindM (gets teco_expressions_first_op) (\<lambda>first.
     bindM (gets (\<lambda>s. teco_expressions_peek_op s (nat first))) (\<lambda>top.
       if first < 0 \<or> teco_expressions_precedence top < teco_expressions_precedence op
       then teco_expressions_push_op op
       else thenM teco_expressions_calc (\<lambda>s'. teco_expressions_push_calc op s')))) s"
      by (intro transparent_get_bind transparent_if transparent_then transparent transparent_after_op
          1 [OF gets_run gets_run]) simp_all
  qed (simp_all add: teco_expressions_push_calc.simps [of op s] teco_expressions_push_calc.simps [of op "batch s"])
qed

lemma transparent_pop_num_calc [transparent]: "transparent (teco_expressions_pop_num_calc imply) s"
  unfolding teco_expressions_pop_num_calc_def
  by (intro transparent_get_bind transparent_then transparent) simp_all

lemma transparent_add_digit [transparent]: "transparent (teco_expressions_add_digit digit radix) s"
  unfolding teco_expressions_add_digit_def
  by (intro transparent_get_bind transparent_bind transparent) simp_all

lemma transparent_discard_loop [transparent]: "transparent (discard_loop n) s"
  by (induction n arbitrary: s) (auto intro!: transparent_then transparent)

lemma transparent_discard_args [transparent]: "transparent teco_expressions_discard_args s"
  unfolding teco_expressions_discard_args_def
  by (intro transparent_get_bind transparent_then transparent) simp_all

lemma transparent_set_brace_level [transparent]: "transparent (set_brace_level f) s"
  unfolding set_brace_level_def by (rule transparent_change) (simp_all add: batch_def)

lemma transparent_brace_open [transparent]: "transparent teco_expressions_brace_open s"
  unfolding teco_expressions_brace_open_def by (intro transparent_then transparent transparent_after_op)

lemma transparent_brace_close [transparent]: "transparent teco_expressions_brace_close s"
  unfolding teco_expressions_brace_close_def
  by (intro transparent_get_bind transparent_then transparent) simp_all

lemma transparent_pop_args [transparent]: "transparent (pop_args n acc) s"
  by (induction n arbitrary: acc s) (auto intro!: transparent_bind transparent)

lemma transparent_mapM: "(\<And>x s. transparent (f x) s) \<Longrightarrow> transparent (mapM f xs) s"
  by (induction xs arbitrary: s) (auto intro!: transparent_then transparent_ret)

lemma transparent_push_str [transparent]: "transparent (teco_expressions_push_str str) s"
  unfolding teco_expressions_push_str_def by (intro transparent_mapM transparent)

lemma transparent_brace_loop [transparent]: "transparent (brace_loop keep) s"
proof (induction keep s rule: brace_loop.induct)
  case (1 keep s)
  show ?case
  proof (cases "keep < teco_brace_level s")
    case True
    have low: "transparent (\<lambda>s'. brace_loop keep (s'\<lparr>teco_brace_level := teco_brace_level s' - 1\<rparr>)) s'"
      if "thenM teco_expressions_discard_args (teco_expressions_eval True) s = (Inr x, s')" for x s'
    proof -
      let ?s = "s'\<lparr>teco_brace_level := teco_brace_level s' - 1\<rparr>"
      have "transparent (brace_loop keep) ?s" by (rule 1 [OF True that])
      moreover have "batch ?s = (batch s')\<lparr>teco_brace_level := teco_brace_level s' - 1\<rparr>" by (simp add: batch_def)
      moreover have "undo_ready ?s = undo_ready s'" by (simp add: undo_ready_def undo_ok_def)
      ultimately show ?thesis by (simp add: transparent_def)
    qed
    have "transparent (thenM (thenM teco_expressions_discard_args (teco_expressions_eval True))
        (\<lambda>s'. brace_loop keep (s'\<lparr>teco_brace_level := teco_brace_level s' - 1\<rparr>))) s"
      by (rule transparent_then) (intro transparent_then transparent, rule low)
    then show ?thesis
      by (rule transparent_cong) (simp_all add: True brace_loop.simps [of keep s] brace_loop.simps [of keep "batch s"])
  next
    case False
    show ?thesis
      by (rule transparent_cong [OF transparent_ret])
        (simp_all add: False brace_loop.simps [of keep s] brace_loop.simps [of keep "batch s"])
  qed
qed

lemma transparent_brace_return [transparent]: "transparent (teco_expressions_brace_return keep n) s"
  unfolding teco_expressions_brace_return_def
  by (intro transparent_bind transparent_get_bind transparent_then transparent_mapM transparent transparent_gets) simp_all

section \<open>Consistency of the stacks\<close>

text \<open>
  \<open>stacks_ok\<close>: every number has its \<open>TECO_OP_NUMBER\<close> and the other way round; \<open>expr_ok c\<close> adds
  that at least \<open>c\<close> braces are open on the stack, and \<open>consistent\<close> that this holds for the brace
  level. An operation that
  fails may leave the stacks inconsistent (it is rubbed out), so the invariants are stated for
  successful ends, together with the fact that the operations never raise \<open>TECO_ERROR_RETURN\<close>,
  the one error that is caught inside the interpreter.
\<close>

definition stacks_ok :: "teco \<Rightarrow> bool" where
  "stacks_ok s \<longleftrightarrow> count_list (teco_operators s) TECO_OP_NUMBER = length (teco_numbers s)"

definition expr_ok :: "nat \<Rightarrow> teco \<Rightarrow> bool" where
  "expr_ok c s \<longleftrightarrow> stacks_ok s \<and> c \<le> count_list (teco_operators s) TECO_OP_BRACE"

definition consistent :: "teco \<Rightarrow> bool" where
  "consistent s \<longleftrightarrow> expr_ok (teco_brace_level s) s"

definition triple :: "(teco \<Rightarrow> bool) \<Rightarrow> 'a tm \<Rightarrow> (teco \<Rightarrow> bool) \<Rightarrow> teco \<Rightarrow> bool" where
  "triple P m Q s \<longleftrightarrow> (P s \<longrightarrow> wp m (\<lambda>_. Q) (\<lambda>e _. e \<noteq> TECO_ERROR_RETURN) s)"

abbreviation keeps :: "(teco \<Rightarrow> bool) \<Rightarrow> 'a tm \<Rightarrow> teco \<Rightarrow> bool" where
  "keeps I m s \<equiv> triple I m I s"

lemma tripleD: "triple P m Q s \<Longrightarrow> P s \<Longrightarrow> m s = (Inr x, s') \<Longrightarrow> Q s'"
  by (auto simp: triple_def wp_def)

lemma triple_ret: "triple I (ret x) I s"
  by (simp add: triple_def wp_ret)

lemma triple_throw: "e \<noteq> TECO_ERROR_RETURN \<Longrightarrow> triple P (throw e) Q s"
  by (simp add: triple_def wp_throw)

lemma triple_bind:
  "triple P m I s \<Longrightarrow> (\<And>x s'. m s = (Inr x, s') \<Longrightarrow> triple I (f x) Q s') \<Longrightarrow>
   (\<And>t. I t \<Longrightarrow> Q t) \<Longrightarrow> triple P (bindM m f) Q s"
  by (auto simp: triple_def wp_def bindM_def split: prod.splits sum.splits)

lemma keeps_bind:
  "triple I m I s \<Longrightarrow> (\<And>x s'. m s = (Inr x, s') \<Longrightarrow> triple I (f x) I s') \<Longrightarrow> triple I (bindM m f) I s"
  by (rule triple_bind) auto

lemma keeps_then:
  "triple I m I s \<Longrightarrow> (\<And>x s'. m s = (Inr x, s') \<Longrightarrow> triple I n I s') \<Longrightarrow> triple I (thenM m n) I s"
  by (simp add: thenM_def keeps_bind)

lemma keeps_get: "triple P (f (g s)) Q s \<Longrightarrow> triple P (bindM (gets g) f) Q s"
  by (simp add: triple_def wp_simps)

lemma keeps_if: "(b \<Longrightarrow> triple P m Q s) \<Longrightarrow> (\<not> b \<Longrightarrow> triple P n Q s) \<Longrightarrow> triple P (if b then m else n) Q s"
  by simp

lemma keeps_when: "(b \<Longrightarrow> triple I m I s) \<Longrightarrow> triple I (whenM b m) I s"
  by (simp add: whenM_def triple_ret)

lemma triple_cong: "triple P n Q s \<Longrightarrow> m s = n s \<Longrightarrow> triple P m Q s"
  by (simp add: triple_def wp_def)

lemma keeps_mapM: "(\<And>x s. triple I (f x) I s) \<Longrightarrow> triple I (mapM f xs) I s"
  by (induction xs arbitrary: s) (auto intro!: keeps_then triple_ret)

lemmas keeps_intros = triple_ret keeps_get keeps_bind keeps_then keeps_if keeps_when keeps_mapM

lemma count_butlast: "xs \<noteq> [] \<Longrightarrow> count_list (butlast xs) y = count_list xs y - (if last xs = y then 1 else 0)"
  by (cases xs rule: rev_cases) auto

lemma count_prefix_new:
  assumes "prefix ops xs" "set (drop (length ops) xs) \<subseteq> {TECO_OP_NEW}" "y \<noteq> TECO_OP_NEW"
  shows "count_list ops y = count_list xs y"
proof -
  obtain zs where zs: "xs = ops @ zs" using assms(1) by (auto elim: prefixE)
  with assms(2,3) have "y \<notin> set zs" by auto
  then show ?thesis by (simp add: zs)
qed

lemma count_all_new: "set xs \<subseteq> {TECO_OP_NEW} \<Longrightarrow> y \<noteq> TECO_OP_NEW \<Longrightarrow> count_list xs y = 0"
  by (auto simp: count_list_0_iff)

lemmas expr_ok_simps = expr_ok_def stacks_ok_def count_butlast count_prefix_new count_all_new

lemma keeps_push_op: "op \<noteq> TECO_OP_NUMBER \<Longrightarrow> keeps (expr_ok c) (teco_expressions_push_op op) s"
  by (auto simp: triple_def expr_ok_simps intro!: wp_push_op)

lemma keeps_pop_num_0: "keeps (expr_ok c) (teco_expressions_pop_num 0) s"
  by (auto simp: triple_def expr_ok_simps intro!: wp_pop_num_0)

lemma keeps_push_int: "keeps (expr_ok c) (teco_expressions_push_int n) s"
  by (auto simp: triple_def expr_ok_simps intro!: wp_push_int)

lemma keeps_drop_new: "keeps (expr_ok c) drop_new s"
  by (auto simp: triple_def expr_ok_simps intro!: wp_drop_new)

lemma keeps_set_num_sign: "keeps (expr_ok c) (teco_set_num_sign n) s"
  by (auto simp: triple_def teco_set_num_sign_def expr_ok_simps intro!: wp_change)

lemma calc_result_Inr: "calc_result op a b = Inr r \<Longrightarrow> real_op op"
  by (auto simp: calc_result_def real_op_iff split: teco_operator.splits)

lemma calc_result_Inl: "calc_result op a b = Inl e \<Longrightarrow> e \<noteq> TECO_ERROR_RETURN"
  by (auto simp: calc_result_def calc_pow_def split: teco_operator.splits if_splits)

lemma snoc3:
  "xs \<noteq> [] \<Longrightarrow> butlast xs \<noteq> [] \<Longrightarrow> butlast (butlast xs) \<noteq> [] \<Longrightarrow>
   xs = butlast (butlast (butlast xs)) @ [last (butlast (butlast xs)), last (butlast xs), last xs]"
  by (metis append_butlast_last_id append_Cons append_Nil append_assoc)

lemma snoc2: "xs \<noteq> [] \<Longrightarrow> butlast xs \<noteq> [] \<Longrightarrow> xs = butlast (butlast xs) @ [last (butlast xs), last xs]"
  by (metis append_butlast_last_id append_Cons append_Nil append_assoc)

text \<open>A calculation on consistent stacks: its error, or its result with the operands replaced.\<close>

lemma wp_calc:
  assumes ok: "stacks_ok s"
    and Q: "\<And>O1 ops N op a b r h. teco_operators s = O1 @ [TECO_OP_NUMBER, op, TECO_OP_NUMBER] \<Longrightarrow>
      teco_numbers s = N @ [a, b] \<Longrightarrow> calc_result op a b = Inr r \<Longrightarrow> prefix ops O1 \<Longrightarrow>
      set (drop (length ops) O1) \<subseteq> {TECO_OP_NEW} \<Longrightarrow> (ops = [] \<or> last ops \<noteq> TECO_OP_NEW) \<Longrightarrow> 0 \<le> teco_num_sign s \<Longrightarrow>
      Q () (s\<lparr>teco_undo_heads := h, teco_operators := ops @ [TECO_OP_NUMBER], teco_numbers := N @ [r]\<rparr>)"
    and Q': "\<And>O1 ops N op a b r h. teco_operators s = O1 @ [TECO_OP_NUMBER, op, TECO_OP_NUMBER] \<Longrightarrow>
      teco_numbers s = N @ [a, b] \<Longrightarrow> calc_result op a b = Inr r \<Longrightarrow> prefix ops O1 \<Longrightarrow>
      set (drop (length ops) O1) \<subseteq> {TECO_OP_NEW} \<Longrightarrow> (ops = [] \<or> last ops \<noteq> TECO_OP_NEW) \<Longrightarrow> teco_num_sign s < 0 \<Longrightarrow>
      Q () (s\<lparr>teco_undo_heads := h, teco_operators := ops @ [TECO_OP_NUMBER], teco_num_sign := 1, teco_numbers := N @ [- r]\<rparr>)"
    and E: "\<And>e t. e \<noteq> TECO_ERROR_RETURN \<Longrightarrow> E e t"
  shows "wp teco_expressions_calc Q E s"
proof -
  let ?o = "teco_operators s" and ?n = "teco_numbers s"
  have shape: "?o = butlast (butlast (butlast ?o)) @ [TECO_OP_NUMBER, last (butlast ?o), TECO_OP_NUMBER]"
    if "?o \<noteq> []" "last ?o = TECO_OP_NUMBER" "butlast ?o \<noteq> []" "butlast (butlast ?o) \<noteq> []"
      "last (butlast (butlast ?o)) = TECO_OP_NUMBER"
    using snoc3 [of ?o] that by simp
  have two: "2 \<le> length ?n"
    if "?o \<noteq> []" "last ?o = TECO_OP_NUMBER" "butlast ?o \<noteq> []" "butlast (butlast ?o) \<noteq> []"
      "last (butlast (butlast ?o)) = TECO_OP_NUMBER"
    using ok arg_cong [OF shape [OF that], of "\<lambda>xs. count_list xs TECO_OP_NUMBER"]
    by (auto simp: stacks_ok_def split: if_splits)
  have one: "?n \<noteq> []" if "?o \<noteq> []" "last ?o = TECO_OP_NUMBER"
    using ok count_butlast [OF that(1), of TECO_OP_NUMBER] that last_in_set [OF that(1)]
    by (auto simp: stacks_ok_def count_list_0_iff)
  have nums: "?n = butlast (butlast ?n) @ [last (butlast ?n), last ?n]" if "?n \<noteq> []" "butlast ?n \<noteq> []"
    using that by (rule snoc2)
  show ?thesis
    unfolding teco_expressions_calc_def wp_simps
    apply (simp add: top_is_number_iff wp_simps E)
    apply (intro impI wp_pop_num_0)
      apply (simp_all add: E)
     apply (rule wp_pop_op_0)
       apply (simp_all add: wp_simps E top_is_number_iff)
     apply (intro impI wp_pop_num_0)
       apply (simp_all add: E split: sum.split)
     apply (intro conjI allI impI)
      apply (simp add: wp_simps E calc_result_Inl)
     apply (rule wp_push_int)
       apply (simp_all add: E)
      apply (rule Q [OF shape nums]; simp)
     apply (rule Q' [OF shape nums]; simp)
    using one two apply (auto simp: butlast_Nil)
    done
qed

lemma keeps_calc: "keeps (expr_ok c) teco_expressions_calc s"
  unfolding triple_def
proof
  assume ok: "expr_ok c s"
  show "wp teco_expressions_calc (\<lambda>_. expr_ok c) (\<lambda>e _. e \<noteq> TECO_ERROR_RETURN) s"
    using ok by (intro wp_calc) (auto simp: expr_ok_simps real_op_iff dest!: calc_result_Inr)
qed

lemma first_op_loop_spec:
  "0 \<le> first_op_loop i ops \<Longrightarrow> ops ! (nat (first_op_loop i ops) - i) \<notin> {TECO_OP_NUMBER, TECO_OP_NEW}"
proof (induction i ops rule: first_op_loop.induct)
  case (2 i op ops)
  show ?case
  proof (cases "op = TECO_OP_NUMBER \<or> op = TECO_OP_NEW")
    case True
    then have "nat (first_op_loop (Suc i) ops) - i = Suc (nat (first_op_loop (Suc i) ops) - Suc i)"
      using 2(2) first_op_loop_range [of "Suc i" ops] by auto
    with 2 True show ?thesis by auto
  qed auto
qed simp

lemma first_op_not_number:
  assumes "0 \<le> teco_expressions_first_op s"
  shows "teco_expressions_peek_op s (nat (teco_expressions_first_op s)) \<notin> {TECO_OP_NUMBER, TECO_OP_NEW}"
proof -
  have "rev (teco_operators s) ! nat (teco_expressions_first_op s) = teco_expressions_peek_op s (nat (teco_expressions_first_op s))"
    using first_op_bound [OF assms] by (simp add: rev_nth teco_expressions_peek_op_def)
  then show ?thesis
    using first_op_loop_spec [of 0 "rev (teco_operators s)"] assms by (simp add: teco_expressions_first_op_def)
qed

lemma triple_pop_brace:
  assumes "i < length (teco_operators s)" "teco_expressions_peek_op s i = TECO_OP_BRACE"
  shows "triple (expr_ok c) (thenM (teco_expressions_pop_op i) (ret ())) (expr_ok (c - 1)) s"
proof -
  have "length (teco_operators s) - 1 - i < length (teco_operators s)" using assms(1) by simp
  then show ?thesis
    using assms unfolding triple_def
    by (auto simp: wp_simps expr_ok_def stacks_ok_def count_list_garray_remove teco_expressions_peek_op_def
        intro!: wp_pop_op)
qed

lemma triple_weaken: "triple P m I s \<Longrightarrow> (\<And>t. I t \<Longrightarrow> Q t) \<Longrightarrow> triple P m Q s"
  by (auto simp: triple_def wp_def split: prod.splits sum.splits)

lemma expr_ok_mono: "expr_ok c s \<Longrightarrow> d \<le> c \<Longrightarrow> expr_ok d s"
  by (simp add: expr_ok_def)

text \<open>Evaluation keeps the stacks consistent; with \<open>pop_brace\<close> it removes at most one brace.\<close>

lemma triple_eval: "triple (expr_ok c) (teco_expressions_eval b) (expr_ok (c - of_bool b)) s"
proof (induction b s rule: teco_expressions_eval.induct)
  case (1 b s)
  let ?Q = "expr_ok (c - of_bool b)"
  let ?n = "teco_expressions_first_op s"
  have r: "triple (expr_ok c) (ret ()) ?Q t" for t
    by (rule triple_weaken [OF triple_ret]) (simp add: expr_ok_mono)
  have p: "triple (expr_ok c) (whenM b (thenM (teco_expressions_pop_op (nat ?n)) (ret ()))) ?Q s"
    if "0 \<le> ?n" "teco_expressions_peek_op s (nat ?n) = TECO_OP_BRACE"
    using triple_pop_brace [OF first_op_bound that(2)] that r by (cases b) (simp_all add: whenM_def)
  have l: "triple (expr_ok c) (thenM teco_expressions_calc (\<lambda>s'. teco_expressions_eval b s')) ?Q s"
    if "0 \<le> ?n" "\<not> ?n < 1" "teco_expressions_peek_op s (nat ?n) \<noteq> TECO_OP_BRACE"
    unfolding thenM_def
  proof (rule triple_bind [OF keeps_calc])
    fix x s' assume "teco_expressions_calc s = (Inr x, s')"
    then show "triple (expr_ok c) (teco_expressions_eval b) ?Q s'"
      by (intro 1 [OF gets_run _ gets_run]) (use that in auto)
  qed (simp add: expr_ok_mono)
  show ?case
    by (rule triple_cong [OF _ teco_expressions_eval.simps])
      (intro keeps_get keeps_if r; use p l in auto)
qed

lemma keeps_eval: "keeps (expr_ok c) (teco_expressions_eval False) s"
  using triple_eval [of c False s] by simp

lemma keeps_push_calc: "real_op op \<Longrightarrow> keeps (expr_ok c) (teco_expressions_push_calc op) s"
proof (induction op s rule: teco_expressions_push_calc.induct)
  case (1 op s)
  have op: "op \<noteq> TECO_OP_NUMBER" using 1(2) by (auto simp: real_op_iff)
  show ?case
    by (rule triple_cong [OF _ teco_expressions_push_calc.simps])
      (intro keeps_get keeps_if keeps_push_op op keeps_then keeps_calc 1(1) [OF gets_run gets_run] 1(2))
qed

lemma keeps_pop_num_calc: "keeps (expr_ok c) (teco_expressions_pop_num_calc imply) s"
  unfolding teco_expressions_pop_num_calc_def
  by (intro keeps_intros keeps_eval keeps_set_num_sign keeps_pop_num_0)

lemma keeps_add_digit: "keeps (expr_ok c) (teco_expressions_add_digit digit radix) s"
  unfolding teco_expressions_add_digit_def by (intro keeps_intros keeps_pop_num_0 keeps_push_int)

lemma keeps_discard_loop: "keeps (expr_ok c) (discard_loop n) s"
  by (induction n arbitrary: s) (auto intro!: keeps_intros keeps_pop_num_calc)

lemma keeps_discard_args: "keeps (expr_ok c) teco_expressions_discard_args s"
  unfolding teco_expressions_discard_args_def by (intro keeps_intros keeps_eval keeps_discard_loop)

lemma keeps_push_str: "keeps (expr_ok c) (teco_expressions_push_str str) s"
  unfolding teco_expressions_push_str_def by (intro keeps_intros keeps_push_int)

lemma keeps_pop_args: "keeps (expr_ok c) (pop_args n acc) s"
  by (induction n arbitrary: acc s) (auto intro!: keeps_intros keeps_pop_num_0)

text \<open>What keeps the stacks alone keeps them with the brace level, which it does not change.\<close>

lemma keeps_consistent:
  assumes "\<And>c. keeps (expr_ok c) m s" "obeys stacks_only m"
  shows "keeps consistent m s"
proof -
  have "teco_brace_level (snd (m s)) = teco_brace_level s"
    using assms(2) by (auto dest: obeysD stacks_onlyD)
  then show ?thesis using assms(1) [of "teco_brace_level s"]
    by (auto simp: triple_def consistent_def wp_def split: prod.splits sum.splits)
qed

lemma consistent_set_level: "expr_ok c s \<Longrightarrow> n \<le> c \<Longrightarrow> consistent (s\<lparr>teco_brace_level := n\<rparr>)"
  by (simp add: consistent_def expr_ok_def stacks_ok_def)

lemma consistent_brace_open: "keeps consistent teco_expressions_brace_open s"
  unfolding triple_def
proof
  assume "consistent s"
  then show "wp teco_expressions_brace_open (\<lambda>_. consistent) (\<lambda>e _. e \<noteq> TECO_ERROR_RETURN) s"
    unfolding teco_expressions_brace_open_def set_brace_level_def wp_simps
    by (auto intro!: wp_drop_new wp_push_op wp_change simp: consistent_def expr_ok_simps)
qed

lemma consistent_brace_close: "keeps consistent teco_expressions_brace_close s"
proof (cases "teco_brace_level s")
  case 0
  then show ?thesis by (simp add: teco_expressions_brace_close_def triple_def wp_simps)
next
  case (Suc n)
  have f: "teco_brace_level (snd (teco_expressions_eval True t)) = teco_brace_level t" for t
    using so.eval by (auto dest: obeysD stacks_onlyD)
  have e: "wp (teco_expressions_eval True) (\<lambda>_. consistent) (\<lambda>e _. e \<noteq> TECO_ERROR_RETURN) t"
    if "expr_ok (Suc n) t" "teco_brace_level t = n" for t
    using triple_eval [of "Suc n" True t] that f [of t]
    by (auto simp: triple_def wp_def consistent_def split: prod.splits sum.splits)
  show ?thesis
    unfolding triple_def
  proof
    assume "consistent s"
    then show "wp teco_expressions_brace_close (\<lambda>_. consistent) (\<lambda>e _. e \<noteq> TECO_ERROR_RETURN) s"
      unfolding teco_expressions_brace_close_def set_brace_level_def wp_simps
      by (simp add: Suc wp_simps, intro wp_change e)
        (auto simp: Suc consistent_def expr_ok_def stacks_ok_def)
  qed
qed

lemma consistent_brace_loop: "keeps consistent (brace_loop keep) s"
proof (induction keep s rule: brace_loop.induct)
  case (1 keep s)
  show ?case
  proof (cases "keep < teco_brace_level s")
    case True
    let ?body = "thenM teco_expressions_discard_args (teco_expressions_eval True)"
    let ?n = "teco_brace_level s"
    have b: "triple (expr_ok ?n) ?body (expr_ok (?n - 1)) s"
      unfolding thenM_def
      by (rule triple_bind [OF keeps_discard_args]) (use triple_eval [of ?n True] in \<open>auto elim: expr_ok_mono\<close>)
    have f: "teco_brace_level s' = ?n" if "?body s = (r, s')" for r s'
      using brace_level_frame [of s] that by simp
    have "triple consistent (thenM ?body (\<lambda>s'. brace_loop keep (s'\<lparr>teco_brace_level := teco_brace_level s' - 1\<rparr>))) consistent s"
      unfolding triple_def
    proof
      assume c: "consistent s"
      show "wp (thenM ?body (\<lambda>s'. brace_loop keep (s'\<lparr>teco_brace_level := teco_brace_level s' - 1\<rparr>)))
          (\<lambda>_. consistent) (\<lambda>e _. e \<noteq> TECO_ERROR_RETURN) s"
      proof (subst wp_thenM, rule wp_runI)
        fix x s' assume r: "?body s = (Inr x, s')"
        have "expr_ok (?n - 1) s'" using tripleD [OF b _ r] c by (simp add: consistent_def)
        then have "consistent (s'\<lparr>teco_brace_level := teco_brace_level s' - 1\<rparr>)"
          by (rule consistent_set_level) (simp add: f [OF r])
        then show "wp (\<lambda>s'. brace_loop keep (s'\<lparr>teco_brace_level := teco_brace_level s' - 1\<rparr>))
            (\<lambda>_. consistent) (\<lambda>e _. e \<noteq> TECO_ERROR_RETURN) s'"
          using 1 [OF True r] by (simp add: triple_def wp_def)
      next
        fix e s' assume r: "?body s = (Inl e, s')"
        show "e \<noteq> TECO_ERROR_RETURN"
          using b r c by (auto simp: triple_def wp_def consistent_def)
      qed
    qed
    then show ?thesis using True by (rule_tac triple_cong) (simp_all add: brace_loop.simps [of keep s])
  next
    case False
    show ?thesis by (rule triple_cong [OF triple_ret]) (simp add: False brace_loop.simps [of keep s])
  qed
qed

lemma consistent_brace_return: "keeps consistent (teco_expressions_brace_return keep n) s"
proof -
  have sv: "keeps consistent (bindM (gets (\<lambda>s. Undo_brace_level (teco_brace_level s))) push_token) t" for t
    by (auto simp: triple_def wp_simps consistent_def expr_ok_def stacks_ok_def intro!: wp_push_token)
  show ?thesis
    unfolding teco_expressions_brace_return_def
    by (intro keeps_then keeps_mapM consistent_brace_loop sv keeps_bind [of consistent "pop_args n []"]
        keeps_consistent keeps_pop_args keeps_push_int so.pop_args so.push_int)
qed

lemma consistent_clear: "consistent (teco_expressions_clear s)"
  by (simp add: teco_expressions_clear_def consistent_def expr_ok_def stacks_ok_def)

lemmas consistent_stack =
  keeps_consistent [OF keeps_push_int so.push_int] keeps_consistent [OF keeps_push_str so.push_str]
  keeps_consistent [OF keeps_push_calc so.push_calc] keeps_consistent [OF keeps_eval so.eval]
  keeps_consistent [OF keeps_pop_num_0 so.pop_num_0] keeps_consistent [OF keeps_pop_num_calc so.pop_num_calc]
  keeps_consistent [OF keeps_add_digit so.add_digit] keeps_consistent [OF keeps_discard_args so.discard_args]
  keeps_consistent [OF keeps_set_num_sign so.set_num_sign]
  consistent_brace_open consistent_brace_close consistent_brace_return

section \<open>Sequences of stack commands\<close>

text \<open>
  What the commands of the parser do to the stacks, as data: a number or a digit in some radix, an
  operator, taking an argument with its implied value, evaluating, discarding the arguments,
  braces, and the return from a macro.
\<close>

datatype stack_command =
    Push_int teco_int | Push_str string | Add_digit unichar teco_int | Push_calc teco_operator
  | Num_sign int | Pop_num_calc teco_int | Eval | Discard_args
  | Brace_open | Brace_close | Brace_return nat nat

fun run_command :: "stack_command \<Rightarrow> unit tm" where
  "run_command (Push_int n) = teco_expressions_push_int n"
| "run_command (Push_str str) = teco_expressions_push_str str"
| "run_command (Add_digit digit radix) = teco_expressions_add_digit digit radix"
| "run_command (Push_calc op) = teco_expressions_push_calc op"
| "run_command (Num_sign sign) = teco_set_num_sign sign"
| "run_command (Pop_num_calc imply) = thenM (teco_expressions_pop_num_calc imply) (ret ())"
| "run_command Eval = teco_expressions_eval False"
| "run_command Discard_args = teco_expressions_discard_args"
| "run_command Brace_open = teco_expressions_brace_open"
| "run_command Brace_close = teco_expressions_brace_close"
| "run_command (Brace_return keep args) = teco_expressions_brace_return keep args"

definition run_commands :: "stack_command list \<Rightarrow> unit tm" where
  "run_commands = mapM run_command"

fun real_command :: "stack_command \<Rightarrow> bool" where
  "real_command (Push_calc op) = real_op op"
| "real_command _ = True"

lemma reverts_command: "obeys reverts (run_command c)"
  by (cases c) (auto intro: rv.stack_intros reverts_brace_open reverts_brace_close reverts_brace_return)

lemma transparent_command: "transparent (run_command c) s"
  by (cases c) (auto intro!: transparent transparent_then)

lemma keeps_command: "real_command c \<Longrightarrow> keeps consistent (run_command c) s"
  by (cases c) (auto intro!: consistent_stack keeps_then triple_ret)

lemma keeps_commands: "list_all real_command cs \<Longrightarrow> keeps consistent (run_commands cs) s"
  unfolding run_commands_def
  by (induction cs arbitrary: s) (auto intro!: keeps_then triple_ret keeps_command)

text \<open>The definitions with which a concrete sequence is evaluated by rewriting.\<close>

lemmas stack_eval =
  run_simps push_token_disabled change_def set_brace_level_def append_number_def drop_new.simps top_is_number_def
  teco_expressions_clear_def teco_expressions_brace_open_def teco_expressions_brace_close_def
  teco_expressions_push_int_def teco_expressions_push_op_def teco_expressions_eval.simps
  teco_expressions_push_calc.simps teco_expressions_first_op_def teco_expressions_calc_def
  teco_expressions_pop_num_def teco_expressions_pop_op_def teco_expressions_peek_op_def
  teco_expressions_peek_num_def teco_expressions_precedence_def teco_expressions_args_def
  teco_expressions_pop_num_calc_def teco_set_num_sign_def calc_result_def garray_remove_index_def

section \<open>Properties\<close>

text \<open>
  C6: Whatever sequence of operations on the expression stacks a command-line character runs, and
  whether it succeeds or fails, popping that character's undo tokens gives back the state
  before it (in everything but the undo stack itself).
\<close>

theorem stack_rubout:
  assumes "teco_undo_enabled s" "length (teco_undo_heads s) \<le> cmdline_pc s"
  shows "core (teco_undo_pop undo_action (cmdline_pc s) (snd (run_commands cs s))) = core s"
proof -
  have "obeys reverts (run_commands cs)"
    unfolding run_commands_def by (intro ulog.rb.mapM_list reverts_command)
  then have "reverts s (snd (run_commands cs s))" by (rule obeysD)
  then show ?thesis using assms by (rule ulog.pop_current(1))
qed

theorem stack_rubout_witness:
  "core (teco_undo_pop undo_action 0 (snd (run_commands
     [Brace_open, Push_int 3, Push_calc TECO_OP_DIV, Push_int 0, Brace_close] (teco_initial True)))) =
   core (teco_initial True)"
  using stack_rubout [of "teco_initial True" "[Brace_open, Push_int 3, Push_calc TECO_OP_DIV, Push_int 0, Brace_close]"]
  by (simp add: teco_initial_def)

text \<open>
  C7: Operations on the expression stacks compute the same with undo as in batch mode: the same result
  or error, and the same state but for the recorded tokens; in particular recording them never
  fails its assertion.
\<close>

theorem stack_transparent:
  assumes "undo_ready s"
  shows "run_commands cs (batch s) = (fst (run_commands cs s), batch (snd (run_commands cs s)))"
proof -
  have "transparent (run_commands cs) s"
    unfolding run_commands_def by (intro transparent_mapM transparent_command)
  then show ?thesis using assms by (simp add: transparent_def)
qed

theorem stack_transparent_witness:
  "run_commands [Push_int 2, Brace_return 0 1] (batch (teco_initial True)) =
   (fst (run_commands [Push_int 2, Brace_return 0 1] (teco_initial True)),
    batch (snd (run_commands [Push_int 2, Brace_return 0 1] (teco_initial True))))"
  by (rule stack_transparent) (simp add: undo_ready_def undo_ok_def teco_initial_def)

text \<open>
  C8: In every state reached by successful stack operations, each number has its \<open>TECO_OP_NUMBER\<close> on
  the operator stack and the stack has at least as many open braces as the brace level says.
\<close>

theorem stack_consistent:
  assumes "list_all real_command cs" "run_commands cs (teco_expressions_clear s) = (Inr u, t)"
  shows "consistent t"
  using tripleD [OF keeps_commands [OF assms(1)] consistent_clear assms(2)] .

theorem stack_consistent_witness:
  "consistent (snd (run_commands [Brace_open, Push_int 2, Push_calc TECO_OP_ADD, Push_int 3, Brace_close]
     (teco_expressions_clear (teco_initial False))))"
proof -
  let ?cs = "[Brace_open, Push_int 2, Push_calc TECO_OP_ADD, Push_int 3, Brace_close]"
  obtain r t where t: "run_commands ?cs (teco_expressions_clear (teco_initial False)) = (r, t)" by fastforce
  have "fst (run_commands ?cs (teco_expressions_clear (teco_initial False))) = Inr ()"
    by (simp add: run_commands_def teco_initial_def stack_eval)
  then have "r = Inr ()" by (simp only: t fst_conv)
  moreover have "list_all real_command ?cs" by (simp add: real_op_def teco_expressions_precedence_def)
  ultimately show ?thesis using stack_consistent [of ?cs "teco_initial False" "()" t] by (simp only: t snd_conv)
qed

end
