(* ===== verification/Precedence.thy ===== *)
theory Precedence
  imports Stack_Laws
begin

text \<open>
  What the expression stacks compute: an expression tree, fed to them command by command the
  way the parser does (numbers, operators, braces), is evaluated to its value under the usual
  precedence and left associativity, error cases included. The result is proved for batch mode
  and carried over to interactive mode by transparency (theory \<open>Stack_Laws\<close>).
\<close>

section \<open>Expressions and their value\<close>

datatype expr = Num teco_int | Bin teco_operator expr expr | Brace expr

fun expr_prec :: "expr \<Rightarrow> nat" where
  "expr_prec (Bin op _ _) = teco_expressions_precedence op"
| "expr_prec _ = 7"

text \<open>Trees that are written without superfluous braces: left associative, by precedence.\<close>

fun well_formed :: "expr \<Rightarrow> bool" where
  "well_formed (Num n) = True"
| "well_formed (Bin op l r) \<longleftrightarrow> real_op op \<and> well_formed l \<and> well_formed r \<and>
     teco_expressions_precedence op \<le> expr_prec l \<and> teco_expressions_precedence op < expr_prec r"
| "well_formed (Brace e) \<longleftrightarrow> well_formed e"

fun expr_value :: "expr \<Rightarrow> teco_error + teco_int" where
  "expr_value (Num n) = Inr n"
| "expr_value (Bin op l r) =
     (case expr_value l of Inl e \<Rightarrow> Inl e
      | Inr a \<Rightarrow> (case expr_value r of Inl e \<Rightarrow> Inl e | Inr b \<Rightarrow> calc_result op a b))"
| "expr_value (Brace e) = expr_value e"

text \<open>The commands an expression consists of, in the order they are parsed.\<close>

fun feed :: "expr \<Rightarrow> unit tm" where
  "feed (Num n) = teco_expressions_push_int n"
| "feed (Bin op l r) = thenM (feed l) (thenM (teco_expressions_push_calc op) (feed r))"
| "feed (Brace e) = thenM teco_expressions_brace_open (thenM (feed e) teco_expressions_brace_close)"

section \<open>Batch mode equations\<close>

definition plain :: "teco \<Rightarrow> bool" where
  "plain s \<longleftrightarrow> \<not> teco_undo_enabled s \<and> 0 \<le> teco_num_sign s"

definition st :: "teco \<Rightarrow> teco_operator list \<Rightarrow> teco_int list \<Rightarrow> teco" where
  "st s O1 N = s\<lparr>teco_operators := O1, teco_numbers := N\<rparr>"

lemma st_fields [simp]:
  "teco_operators (st s O1 N) = O1" "teco_numbers (st s O1 N) = N" "teco_num_sign (st s O1 N) = teco_num_sign s"
  "teco_brace_level (st s O1 N) = teco_brace_level s" "plain (st s O1 N) = plain s"
  "teco_undo_enabled (st s O1 N) = teco_undo_enabled s"
  by (simp_all add: st_def plain_def)

definition no_new :: "teco_operator list \<Rightarrow> bool" where
  "no_new O1 \<longleftrightarrow> O1 = [] \<or> last O1 \<noteq> TECO_OP_NEW"

lemma push_op_st: "plain s \<Longrightarrow> teco_expressions_push_op op (st s O1 N) = (Inr (), st s (O1 @ [op]) N)"
  by (simp add: teco_expressions_push_op_def run_simps push_token_disabled plain_def st_def)

lemma drop_new_st: "no_new O1 \<Longrightarrow> drop_new (st s O1 N) = (Inr (), st s O1 N)"
  by (subst drop_new.simps) (auto simp: no_new_def peek_op_0 ret_run)

lemma pop_op_st: "plain s \<Longrightarrow> teco_expressions_pop_op 0 (st s (O1 @ [op]) N) = (Inr op, st s O1 N)"
  by (simp add: teco_expressions_pop_op_def run_simps change_batch plain_def peek_op_0) (simp add: st_def)

lemma pop_num_st:
  "plain s \<Longrightarrow> teco_expressions_pop_num 0 (st s (O1 @ [TECO_OP_NUMBER]) (N @ [n])) = (Inr n, st s O1 N)"
  by (simp add: teco_expressions_pop_num_def bindM_run pop_op_st gets_run thenM_run ret_run change_batch
      plain_def peek_num_0) (simp add: st_def)

lemma push_int_st:
  "plain s \<Longrightarrow> no_new O1 \<Longrightarrow>
   teco_expressions_push_int n (st s O1 N) = (Inr (), st s (O1 @ [TECO_OP_NUMBER]) (N @ [n]))"
  by (simp add: teco_expressions_push_int_def thenM_run drop_new_st push_op_st bindM_run gets_run
      append_number_def modify_run push_token_disabled)
    (simp add: plain_def push_token_disabled st_def)

lemma calc_st:
  assumes "plain s" "no_new O1"
  shows "teco_expressions_calc (st s (O1 @ [TECO_OP_NUMBER, op, TECO_OP_NUMBER]) (N @ [a, b])) =
    (case calc_result op a b of Inl e \<Rightarrow> (Inl e, st s O1 N)
     | Inr r \<Rightarrow> (Inr (), st s (O1 @ [TECO_OP_NUMBER]) (N @ [r])))"
proof -
  have 1: "teco_expressions_pop_num 0 (st s (O1 @ [TECO_OP_NUMBER, op, TECO_OP_NUMBER]) (N @ [a, b])) =
      (Inr b, st s (O1 @ [TECO_OP_NUMBER, op]) (N @ [a]))"
    using pop_num_st [OF assms(1), of "O1 @ [TECO_OP_NUMBER, op]" "N @ [a]" b] by simp
  have 2: "teco_expressions_pop_op 0 (st s (O1 @ [TECO_OP_NUMBER, op]) (N @ [a])) =
      (Inr op, st s (O1 @ [TECO_OP_NUMBER]) (N @ [a]))"
    using pop_op_st [OF assms(1), of "O1 @ [TECO_OP_NUMBER]"] by simp
  show ?thesis
    by (simp add: teco_expressions_calc_def bindM_run gets_run top_is_number_iff 1 2 pop_num_st assms
        throw_run push_int_st split: sum.split)
qed

lemma first_op_st:
  "op \<notin> {TECO_OP_NUMBER, TECO_OP_NEW} \<Longrightarrow> teco_expressions_first_op (st s (O1 @ [op, TECO_OP_NUMBER]) N) = 1"
  by (simp add: teco_expressions_first_op_def)

lemma peek_st: "teco_expressions_peek_op (st s (O1 @ [op, TECO_OP_NUMBER]) N) (Suc 0) = op"
  by (simp add: teco_expressions_peek_op_def nth_append)

section \<open>Evaluation by precedence\<close>

text \<open>
  \<open>settles q s k\<close>: the command \<open>k\<close> first calculates a pending operation on top of the stack if
  its precedence is at least \<open>q\<close>. An operator of at most that precedence does, and so does every
  command that evaluates its arguments.
\<close>

definition settles :: "nat \<Rightarrow> teco \<Rightarrow> 'a tm \<Rightarrow> bool" where
  "settles q s k \<longleftrightarrow> (\<forall>O1 N op a b. real_op op \<and> q \<le> teco_expressions_precedence op \<and> no_new O1 \<longrightarrow>
     (case calc_result op a b of
        Inl e \<Rightarrow> \<exists>t. k (st s (O1 @ [TECO_OP_NUMBER, op, TECO_OP_NUMBER]) (N @ [a, b])) = (Inl e, t)
      | Inr r \<Rightarrow> k (st s (O1 @ [TECO_OP_NUMBER, op, TECO_OP_NUMBER]) (N @ [a, b])) =
          k (st s (O1 @ [TECO_OP_NUMBER]) (N @ [r]))))"

lemma settles_mono: "settles q s k \<Longrightarrow> q \<le> q' \<Longrightarrow> settles q' s k"
  by (auto simp: settles_def)

lemma settles_eval:
  assumes "plain s"
  shows "settles q s (teco_expressions_eval b)"
  unfolding settles_def
proof (intro allI impI, elim conjE)
  fix O1 N op x y
  assume op: "real_op op" and nn: "no_new O1"
  let ?s = "st s (O1 @ [TECO_OP_NUMBER, op, TECO_OP_NUMBER]) (N @ [x, y])"
  have n: "teco_expressions_first_op ?s = 1" "teco_expressions_peek_op ?s (Suc 0) = op"
    using first_op_st [of op s "O1 @ [TECO_OP_NUMBER]"] peek_st [of s "O1 @ [TECO_OP_NUMBER]" op] op
    by (auto simp: real_op_iff)
  have "teco_expressions_eval b ?s = thenM teco_expressions_calc (teco_expressions_eval b) ?s"
    using op by (subst teco_expressions_eval.simps) (simp add: bindM_run gets_run n real_op_iff)
  then show "case calc_result op x y of
        Inl e \<Rightarrow> \<exists>t. teco_expressions_eval b ?s = (Inl e, t)
      | Inr r \<Rightarrow> teco_expressions_eval b ?s = teco_expressions_eval b (st s (O1 @ [TECO_OP_NUMBER]) (N @ [r]))"
    by (simp add: thenM_run calc_st assms nn split: sum.split)
qed

lemma settles_push_calc:
  assumes "plain s"
  shows "settles (teco_expressions_precedence op') s (teco_expressions_push_calc op')"
  unfolding settles_def
proof (intro allI impI, elim conjE)
  fix O1 N op x y
  assume op: "real_op op" "teco_expressions_precedence op' \<le> teco_expressions_precedence op" and nn: "no_new O1"
  let ?s = "st s (O1 @ [TECO_OP_NUMBER, op, TECO_OP_NUMBER]) (N @ [x, y])"
  have n: "teco_expressions_first_op ?s = 1" "teco_expressions_peek_op ?s (Suc 0) = op"
    using first_op_st [of op s "O1 @ [TECO_OP_NUMBER]"] peek_st [of s "O1 @ [TECO_OP_NUMBER]" op] op
    by (auto simp: real_op_iff)
  have "teco_expressions_push_calc op' ?s = thenM teco_expressions_calc (teco_expressions_push_calc op') ?s"
    using op by (subst teco_expressions_push_calc.simps) (simp add: bindM_run gets_run n)
  then show "case calc_result op x y of
        Inl e \<Rightarrow> \<exists>t. teco_expressions_push_calc op' ?s = (Inl e, t)
      | Inr r \<Rightarrow> teco_expressions_push_calc op' ?s =
          teco_expressions_push_calc op' (st s (O1 @ [TECO_OP_NUMBER]) (N @ [r]))"
    by (simp add: thenM_run calc_st assms nn split: sum.split)
qed

lemma settles_then: "settles q s k \<Longrightarrow> settles q s (thenM k n)"
  unfolding settles_def
proof (intro allI impI, elim allE impE)
  fix O1 N op a b
  let ?x = "st s (O1 @ [TECO_OP_NUMBER, op, TECO_OP_NUMBER]) (N @ [a, b])"
  assume k: "case calc_result op a b of Inl e \<Rightarrow> \<exists>t. k ?x = (Inl e, t)
    | Inr r \<Rightarrow> k ?x = k (st s (O1 @ [TECO_OP_NUMBER]) (N @ [r]))"
  show "case calc_result op a b of Inl e \<Rightarrow> \<exists>t. thenM k n ?x = (Inl e, t)
    | Inr r \<Rightarrow> thenM k n ?x = thenM k n (st s (O1 @ [TECO_OP_NUMBER]) (N @ [r]))"
    using k by (cases "calc_result op a b") (auto simp: thenM_run)
qed

text \<open>Below a subexpression there is nothing, an open brace, or an operator that binds less.\<close>

definition below :: "nat \<Rightarrow> teco_operator list \<Rightarrow> bool" where
  "below q O1 \<longleftrightarrow> O1 = [] \<or> last O1 = TECO_OP_BRACE \<or>
     real_op (last O1) \<and> teco_expressions_precedence (last O1) < q"

lemma below_mono: "below q O1 \<Longrightarrow> q \<le> q' \<Longrightarrow> below q' O1"
  by (auto simp: below_def)

lemma below_no_new: "below q O1 \<Longrightarrow> no_new O1"
  by (auto simp: below_def no_new_def real_op_iff)

lemma push_calc_below:
  assumes "plain s" "below (teco_expressions_precedence op) O1" "real_op op"
  shows "teco_expressions_push_calc op (st s (O1 @ [TECO_OP_NUMBER]) N) = (Inr (), st s (O1 @ [TECO_OP_NUMBER, op]) N)"
proof (cases "O1 = []")
  case True
  then show ?thesis
    using push_op_st [OF assms(1), of op "[TECO_OP_NUMBER]"]
    by (subst teco_expressions_push_calc.simps) (simp add: bindM_run gets_run teco_expressions_first_op_def)
next
  case False
  then obtain O2 op2 where O1: "O1 = O2 @ [op2]" by (metis rev_exhaust)
  with assms(2) have op2: "op2 = TECO_OP_BRACE \<or> real_op op2" "teco_expressions_precedence op2 < teco_expressions_precedence op"
    using assms(3) by (auto simp: below_def real_op_def teco_expressions_precedence_def)
  then have n: "op2 \<notin> {TECO_OP_NUMBER, TECO_OP_NEW}" by (auto simp: real_op_iff)
  have "teco_expressions_first_op (st s (O1 @ [TECO_OP_NUMBER]) N) = 1"
    "teco_expressions_peek_op (st s (O1 @ [TECO_OP_NUMBER]) N) (Suc 0) = op2"
    using first_op_st [OF n, of s O2 N] peek_st [of s O2 op2 N] by (simp_all add: O1)
  then show ?thesis
    using push_op_st [OF assms(1), of op "O1 @ [TECO_OP_NUMBER]"] op2
    by (subst teco_expressions_push_calc.simps) (simp add: bindM_run gets_run)
qed

lemma eval_brace:
  assumes "plain s"
  shows "teco_expressions_eval True (st s (O1 @ [TECO_OP_BRACE, TECO_OP_NUMBER]) N) =
    (Inr (), st s (O1 @ [TECO_OP_NUMBER]) N)"
proof -
  let ?s = "st s (O1 @ [TECO_OP_BRACE, TECO_OP_NUMBER]) N"
  have "teco_expressions_pop_op (Suc 0) ?s = (Inr TECO_OP_BRACE, st s (O1 @ [TECO_OP_NUMBER]) N)"
    using assms by (simp add: teco_expressions_pop_op_def run_simps change_batch plain_def peek_st
        garray_remove_index_def) (simp add: st_def)
  then show ?thesis
    by (subst teco_expressions_eval.simps)
      (simp add: bindM_run gets_run first_op_st peek_st whenM_run thenM_run ret_run)
qed

text \<open>
  The main step: feeding an expression and then a command that settles it is that command
  applied to the expression's value, or the error the value raises.
\<close>

lemma feed_settle:
  assumes "well_formed e" "plain s" "below (expr_prec e) O1" "settles (expr_prec e) s k"
  shows "case expr_value e of
     Inl err \<Rightarrow> \<exists>t. thenM (feed e) k (st s O1 N) = (Inl err, t)
   | Inr v \<Rightarrow> thenM (feed e) k (st s O1 N) = k (st s (O1 @ [TECO_OP_NUMBER]) (N @ [v]))"
  using assms
proof (induction e arbitrary: s O1 N k)
  case (Num n)
  then show ?case by (simp add: thenM_run push_int_st below_no_new)
next
  case (Bin op l r)
  let ?q = "teco_expressions_precedence op"
  from Bin.prems have op: "real_op op" and wf: "well_formed l" "well_formed r" and q: "?q \<le> expr_prec l" "?q < expr_prec r"
    and pl: "plain s" and be: "below ?q O1" and k: "settles ?q s k" by auto
  have assoc: "thenM (feed (Bin op l r)) k = thenM (feed l) (thenM (teco_expressions_push_calc op) (thenM (feed r) k))"
    by (rule ext) (simp add: thenM_run split: prod.splits sum.splits)
  have sl: "settles (expr_prec l) s (thenM (teco_expressions_push_calc op) (thenM (feed r) k))"
    by (rule settles_mono [OF settles_then [OF settles_push_calc [OF pl]] q(1)])
  note L = Bin.IH(1) [OF wf(1) pl below_mono [OF be q(1)] sl, of N]
  show ?case
  proof (cases "expr_value l")
    case (Inl err)
    with L show ?thesis unfolding assoc by simp
  next
    case (Inr a)
    let ?O2 = "O1 @ [TECO_OP_NUMBER, op]"
    have P: "thenM (feed (Bin op l r)) k (st s O1 N) = thenM (feed r) k (st s ?O2 (N @ [a]))"
      using L Inr push_calc_below [OF pl be op, of "N @ [a]"] unfolding assoc by (simp add: thenM_run)
    have b2: "below (expr_prec r) ?O2" using op q(2) by (simp add: below_def)
    have sr: "settles (expr_prec r) s k" using q(2) by (intro settles_mono [OF k]) simp
    note R = Bin.IH(2) [OF wf(2) pl b2 sr, of "N @ [a]"]
    show ?thesis
    proof (cases "expr_value r")
      case (Inl err)
      with R Inr show ?thesis unfolding P by simp
    next
      case (Inr b)
      have "thenM (feed (Bin op l r)) k (st s O1 N) = k (st s (O1 @ [TECO_OP_NUMBER, op, TECO_OP_NUMBER]) (N @ [a, b]))"
        using R Inr unfolding P by simp
      moreover have "no_new O1" using be by (rule below_no_new)
      ultimately show ?thesis
        using k op \<open>expr_value l = Inr a\<close> Inr unfolding settles_def by (auto split: sum.splits)
    qed
  qed
next
  case (Brace e)
  let ?s = "s\<lparr>teco_brace_level := Suc (teco_brace_level s)\<rparr>"
  have pl: "plain s" "plain ?s" using Brace.prems by (simp_all add: plain_def)
  have nn: "no_new O1" using Brace.prems by (simp add: below_no_new)
  have open_: "teco_expressions_brace_open (st s O1 N) = (Inr (), st ?s (O1 @ [TECO_OP_BRACE]) N)"
    using pl by (simp add: teco_expressions_brace_open_def thenM_run drop_new_st nn push_op_st set_brace_level_def
        change_batch plain_def) (simp add: st_def)
  have close: "teco_expressions_brace_close (st ?s O2 N2) = teco_expressions_eval True (st s O2 N2)" for O2 N2
    using pl by (simp add: teco_expressions_brace_close_def bindM_run gets_run thenM_run set_brace_level_def
        change_batch plain_def) (simp add: st_def)
  have sc: "settles (expr_prec e) ?s (thenM teco_expressions_brace_close k)"
    using settles_eval [OF pl(1), of "expr_prec e" True]
    by (intro settles_then) (simp only: settles_def close cong: sum.case_cong)
  have "below (expr_prec e) (O1 @ [TECO_OP_BRACE])" by (simp add: below_def)
  note E = Brace.IH [OF _ pl(2) this sc, of N]
  have P: "thenM (feed (Brace e)) k (st s O1 N) =
      thenM (feed e) (thenM teco_expressions_brace_close k) (st ?s (O1 @ [TECO_OP_BRACE]) N)"
    by (simp add: thenM_run open_ split: prod.splits sum.splits)
  show ?case
    using E Brace.prems(1) eval_brace [OF pl(1), of O1] unfolding P
    by (cases "expr_value e") (simp_all add: thenM_run close)
qed

text \<open>Evaluating the arguments then yields the value and leaves the stacks as they were.\<close>

lemma pop_num_calc_st:
  assumes "plain s" "O1 = [] \<or> last O1 = TECO_OP_BRACE"
  shows "teco_expressions_pop_num_calc imply (st s (O1 @ [TECO_OP_NUMBER]) (N @ [v])) = (Inr v, st s O1 N)"
proof -
  let ?s = "st s (O1 @ [TECO_OP_NUMBER]) (N @ [v])"
  have "teco_expressions_eval False ?s = (Inr (), ?s)"
  proof (cases "O1 = []")
    case True
    then show ?thesis
      by (subst teco_expressions_eval.simps) (simp add: bindM_run gets_run ret_run teco_expressions_first_op_def)
  next
    case False
    then obtain O2 where O1: "O1 = O2 @ [TECO_OP_BRACE]" using assms(2) by (metis append_butlast_last_id)
    show ?thesis
      by (subst teco_expressions_eval.simps)
        (simp add: O1 bindM_run gets_run first_op_st peek_st whenM_run)
  qed
  moreover have "0 < teco_expressions_args ?s" by (simp add: teco_expressions_args_def)
  ultimately show ?thesis
    using assms(1) pop_num_st [OF assms(1), of O1 N v]
    by (simp add: teco_expressions_pop_num_calc_def thenM_run bindM_run gets_run whenM_run plain_def)
qed

lemma settles_pop_num_calc: "plain s \<Longrightarrow> settles q s (teco_expressions_pop_num_calc imply)"
  unfolding teco_expressions_pop_num_calc_def by (intro settles_then settles_eval)

lemma transparent_feed: "transparent (feed e) s"
  by (induction e arbitrary: s) (auto intro!: transparent_then transparent)

text \<open>The same for the interactive interpreter.\<close>

lemma feed_value:
  assumes "well_formed e" "undo_ready s" "0 \<le> teco_num_sign s"
    and "teco_operators s = [] \<or> last (teco_operators s) = TECO_OP_BRACE"
  shows "case expr_value e of
     Inl err \<Rightarrow> \<exists>t. thenM (feed e) (teco_expressions_pop_num_calc imply) s = (Inl err, t)
   | Inr v \<Rightarrow> \<exists>t. thenM (feed e) (teco_expressions_pop_num_calc imply) s = (Inr v, t) \<and> batch t = batch s"
proof -
  let ?m = "thenM (feed e) (teco_expressions_pop_num_calc imply)"
  have pl: "plain (batch s)" using assms(3) by (simp add: plain_def)
  have st: "batch s = st (batch s) (teco_operators s) (teco_numbers s)" by (simp add: st_def batch_def)
  have be: "below (expr_prec e) (teco_operators s)" using assms(4) by (auto simp: below_def)
  have "transparent ?m s" by (intro transparent_then transparent_feed transparent)
  then have t: "?m (batch s) = (fst (?m s), batch (snd (?m s)))"
    using assms(2) by (simp add: transparent_def)
  have "case expr_value e of
     Inl err \<Rightarrow> \<exists>t. ?m (batch s) = (Inl err, t) | Inr v \<Rightarrow> ?m (batch s) = (Inr v, batch s)"
    using feed_settle [OF assms(1) pl be settles_pop_num_calc [OF pl], of imply "teco_numbers s"]
      pop_num_calc_st [OF pl assms(4), of imply "teco_numbers s"]
    by (simp flip: st split: sum.splits)
  then show ?thesis unfolding t by (cases "?m s") (auto split: sum.splits)
qed

section \<open>Properties\<close>

text \<open>
  C5: An expression written with numbers, operators and braces, fed to the stacks command by command
  and then taken as an argument, has the value its tree has under the documented precedences and
  left associativity, or raises its error; the stacks are left as they were.
\<close>

theorem precedence_value:
  assumes "well_formed e" "undo_ready s" "0 \<le> teco_num_sign s"
    and "teco_operators s = [] \<or> last (teco_operators s) = TECO_OP_BRACE"
  shows "case expr_value e of
     Inl err \<Rightarrow> fst (thenM (feed e) (teco_expressions_pop_num_calc imply) s) = Inl err
   | Inr v \<Rightarrow> fst (thenM (feed e) (teco_expressions_pop_num_calc imply) s) = Inr v \<and>
       batch (snd (thenM (feed e) (teco_expressions_pop_num_calc imply) s)) = batch s"
  using feed_value [OF assms, of imply] by (auto split: sum.splits)

theorem precedence_value_witness:
  "fst (thenM (feed (Bin TECO_OP_ADD (Num 2) (Bin TECO_OP_MUL (Num 3) (Brace (Bin TECO_OP_SUB (Num 9) (Num 4))))))
     (teco_expressions_pop_num_calc 0) (teco_initial True)) = Inr 17"
  using precedence_value [of "Bin TECO_OP_ADD (Num 2) (Bin TECO_OP_MUL (Num 3) (Brace (Bin TECO_OP_SUB (Num 9) (Num 4))))"
      "teco_initial True" 0]
  by (simp add: real_op_def teco_expressions_precedence_def undo_ready_def undo_ok_def teco_initial_def calc_result_def)

end
