(* ===== verification/Eol.thy ===== *)
theory Eol
  imports Prelude
begin

text \<open>
  End-of-line translation (\<open>src/eol.c\<close>, \<open>src/eol.h\<close>): the reader that normalizes the line ends of a
  file to LF block by block and guesses their style, the writer that expands them again to sinks
  that may accept only a part of the data, and their users: loading and saving of views
  (\<open>src/view.c\<close>) and feeding the document to a process (\<open>src/spawn.c\<close>). The channels of GLib are
  parameters. Offsets are natural numbers; the source's \<open>guint\<close> counters suffice for
  blocks of less than 4 GiB.
\<close>

section \<open>Line ends\<close>

abbreviation LF :: char where "LF \<equiv> CHR 0x0A"
abbreviation CR :: char where "CR \<equiv> CHR 0x0D"

text \<open>The numbers of Scintilla's EOL modes.\<close>

definition SC_EOL_CRLF :: int where "SC_EOL_CRLF = 0"
definition SC_EOL_CR :: int where "SC_EOL_CR = 1"
definition SC_EOL_LF :: int where "SC_EOL_LF = 2"

lemmas eol_modes = SC_EOL_CRLF_def SC_EOL_CR_def SC_EOL_LF_def

definition teco_eol_get_seq :: "int \<Rightarrow> string" where
  "teco_eol_get_seq eol_mode =
     (if eol_mode = SC_EOL_CRLF then [CR, LF] else if eol_mode = SC_EOL_CR then [CR] else [LF])"

datatype io_status = G_IO_STATUS_ERROR | G_IO_STATUS_NORMAL | G_IO_STATUS_EOF | G_IO_STATUS_AGAIN

section \<open>The reader\<close>

text \<open>
  \<open>teco_eol_reader_t\<close>. The source of the data is the channel, or for memory readers the data not
  yet returned. The callback that reads from it yields the new contents of the buffer.
\<close>

record 'c eol_reader =
  rd_channel :: 'c
  rd_buffer :: string
  read_len :: nat
  offset :: nat
  block_len :: nat
  last_char :: int
  eol_style :: int
  eol_style_inconsistent :: bool

type_synonym 'c read_cb = "'c \<Rightarrow> io_status \<times> string \<times> 'c"

definition teco_eol_reader_init :: "'c \<Rightarrow> 'c eol_reader" where
  "teco_eol_reader_init ch =
     \<lparr>rd_channel = ch, rd_buffer = [], read_len = 0, offset = 0, block_len = 0, last_char = 0,
      eol_style = - 1, eol_style_inconsistent = False\<rparr>"

text \<open>\<open>g_io_channel_read_chars\<close> is the parameter; 1024 is the size of the buffer.\<close>

definition teco_eol_reader_read_gio :: "('c \<Rightarrow> nat \<Rightarrow> io_status \<times> string \<times> 'c) \<Rightarrow> 'c read_cb" where
  "teco_eol_reader_read_gio read_chars channel = read_chars channel 1024"

definition teco_eol_reader_read_mem :: "string read_cb" where
  "teco_eol_reader_read_mem data =
     (if data \<noteq> [] then G_IO_STATUS_NORMAL else G_IO_STATUS_EOF, data, [])"

definition note_eol :: "int \<Rightarrow> 'c eol_reader \<Rightarrow> 'c eol_reader" where
  "note_eol style r =
     (if eol_style r < 0 then r\<lparr>eol_style := style\<rparr>
      else if eol_style r \<noteq> style then r\<lparr>eol_style_inconsistent := True\<rparr>
      else r)"

text \<open>A CR that was not followed by a LF.\<close>

definition note_cr :: "'c eol_reader \<Rightarrow> 'c eol_reader" where
  "note_cr r = (if last_char r = 13 then note_eol SC_EOL_CR r else r)"

text \<open>
  The loop over the bytes of the buffer from index \<open>i\<close> on, \<open>n\<close> of which are left. It ends
  with the length of the block that is returned; \<open>last_char\<close> is negative after a CRLF.
\<close>

fun eol_scan :: "nat \<Rightarrow> nat \<Rightarrow> 'c eol_reader \<Rightarrow> 'c eol_reader" where
  "eol_scan 0 i r = r\<lparr>block_len := read_len r - offset r\<rparr>"
| "eol_scan (Suc n) i r =
     (let c = rd_buffer r ! i in
      if c = LF then
        (if last_char r = 13
         then (note_eol SC_EOL_CRLF r)\<lparr>block_len := i - offset r, last_char := - 1\<rparr>
         else eol_scan n (Suc i) ((note_eol SC_EOL_LF r)\<lparr>last_char := 10\<rparr>))
      else if c = CR then
        eol_scan n (Suc i) ((note_cr r)\<lparr>rd_buffer := (rd_buffer r)[i := LF], last_char := 13\<rparr>)
      else eol_scan n (Suc i) ((note_cr r)\<lparr>last_char := of_char c\<rparr>))"

datatype eol_result = Eol_error | Eol_eof | Eol_data string

definition eol_block :: "'c eol_reader \<Rightarrow> eol_result \<times> 'c eol_reader" where
  "eol_block r =
     (let r' = eol_scan (read_len r - offset r) (offset r) r in
      (Eol_data (take (block_len r') (drop (offset r') (rd_buffer r'))), r'))"

text \<open>Skipping the block that was returned last, and the LF of a CRLF.\<close>

definition eol_advance :: "'c eol_reader \<Rightarrow> 'c eol_reader" where
  "eol_advance r =
     (let r1 = if last_char r < 0 then r\<lparr>block_len := block_len r + 1, last_char := 10\<rparr> else r in
      r1\<lparr>offset := offset r1 + block_len r1\<rparr>)"

definition teco_eol_reader_convert ::
  "bool \<Rightarrow> 'c read_cb \<Rightarrow> 'c eol_reader \<Rightarrow> eol_result \<times> 'c eol_reader" where
  "teco_eol_reader_convert autoeol read r0 =
     (let r = eol_advance r0 in
      if read_len r \<le> offset r then
        (case read (rd_channel r) of (status, data, ch) \<Rightarrow>
          let r1 = r\<lparr>offset := 0, rd_channel := ch, rd_buffer := data, read_len := length data\<rparr> in
          if status = G_IO_STATUS_ERROR then (Eol_error, r1)
          else if status = G_IO_STATUS_EOF then (Eol_eof, note_cr r1)
          else if \<not> autoeol then (Eol_data data, r1\<lparr>block_len := read_len r1\<rparr>)
          else eol_block r1)
      else eol_block r)"

partial_function (option) convert_all_loop ::
  "bool \<Rightarrow> 'c read_cb \<Rightarrow> 'c eol_reader \<Rightarrow> string \<Rightarrow> (string option \<times> 'c eol_reader) option" where
  [code]: "convert_all_loop autoeol read r str =
     (case teco_eol_reader_convert autoeol read r of (result, r') \<Rightarrow>
        (case result of
           Eol_error \<Rightarrow> Some (None, r')
         | Eol_eof \<Rightarrow> Some (Some str, r')
         | Eol_data data \<Rightarrow> convert_all_loop autoeol read r' (str @ data)))"

text \<open>The outer \<open>None\<close> means that the loop does not end, the inner one an error.\<close>

definition teco_eol_reader_convert_all ::
  "bool \<Rightarrow> 'c read_cb \<Rightarrow> 'c eol_reader \<Rightarrow> (string option \<times> 'c eol_reader) option" where
  "teco_eol_reader_convert_all autoeol read r = convert_all_loop autoeol read r []"

section \<open>What reading means\<close>

text \<open>The documented end of a stream: it delivers some blocks and then \<open>G_IO_STATUS_EOF\<close>.\<close>

fun delivers :: "'c read_cb \<Rightarrow> 'c \<Rightarrow> string list \<Rightarrow> bool" where
  "delivers read ch [] = (case read ch of (status, data, ch') \<Rightarrow> status = G_IO_STATUS_EOF \<and> data = [])"
| "delivers read ch (b # bs) = (case read ch of (status, data, ch') \<Rightarrow>
     status \<in> {G_IO_STATUS_NORMAL, G_IO_STATUS_AGAIN} \<and> data = b \<and> delivers read ch' bs)"

text \<open>Line ends normalized to LF, and the styles of the line ends of a text in their order.\<close>

fun normalize_eol :: "string \<Rightarrow> string" where
  "normalize_eol [] = []"
| "normalize_eol [c] = [if c = CR then LF else c]"
| "normalize_eol (c # d # s) =
     (if c = CR then LF # normalize_eol (if d = LF then s else d # s)
      else c # normalize_eol (d # s))"

fun eol_styles :: "string \<Rightarrow> int list" where
  "eol_styles [] = []"
| "eol_styles [c] = (if c = CR then [SC_EOL_CR] else if c = LF then [SC_EOL_LF] else [])"
| "eol_styles (c # d # s) =
     (if c = CR then
        (if d = LF then SC_EOL_CRLF # eol_styles s else SC_EOL_CR # eol_styles (d # s))
      else if c = LF then SC_EOL_LF # eol_styles (d # s)
      else eol_styles (d # s))"

text \<open>The same byte by byte, \<open>cr\<close> telling whether the byte before was a CR.\<close>

fun norm_from :: "bool \<Rightarrow> string \<Rightarrow> string" where
  "norm_from cr [] = []"
| "norm_from cr (c # s) =
     (if c = LF then (if cr then norm_from False s else LF # norm_from False s)
      else if c = CR then LF # norm_from True s
      else c # norm_from False s)"

fun styles_from :: "bool \<Rightarrow> string \<Rightarrow> int list" where
  "styles_from cr [] = (if cr then [SC_EOL_CR] else [])"
| "styles_from cr (c # s) =
     (if c = LF then (if cr then SC_EOL_CRLF else SC_EOL_LF) # styles_from False s
      else (if cr then [SC_EOL_CR] else []) @ styles_from (c = CR) s)"

lemma norm_from_skip: "norm_from True s = (case s of c # s' \<Rightarrow> if c = LF then norm_from False s' else norm_from False s | [] \<Rightarrow> [])"
  by (cases s) simp_all

lemma normalize_eol_from: "normalize_eol s = norm_from False s"
  by (induction s rule: normalize_eol.induct) (auto simp: norm_from_skip)

lemma styles_from_skip: "styles_from True s =
    (case s of c # s' \<Rightarrow> if c = LF then SC_EOL_CRLF # styles_from False s' else SC_EOL_CR # styles_from False s | [] \<Rightarrow> [SC_EOL_CR])"
  by (cases s) simp_all

lemma eol_styles_from: "eol_styles s = styles_from False s"
  by (induction s rule: eol_styles.induct) (auto simp: styles_from_skip)

section \<open>The reader is correct\<close>

text \<open>
  A reader's position in the stream: whether a CR has just been translated, what is left of the
  buffer, and the styles noted so far. \<open>tally\<close> adds the styles still to come.
\<close>

definition after_cr :: "'c eol_reader \<Rightarrow> bool" where
  "after_cr r \<longleftrightarrow> last_char r = 13"

definition unread :: "'c eol_reader \<Rightarrow> string" where
  "unread r = drop (offset r + block_len r + (if last_char r < 0 then 1 else 0)) (rd_buffer r)"

definition reader_ok :: "'c eol_reader \<Rightarrow> bool" where
  "reader_ok r \<longleftrightarrow> read_len r = length (rd_buffer r)"

fun tally :: "int \<times> bool \<Rightarrow> int list \<Rightarrow> int \<times> bool" where
  "tally (st, inc) [] = (st, inc)"
| "tally (st, inc) (e # es) = (if st < 0 then tally (e, inc) es else tally (st, inc \<or> e \<noteq> st) es)"

abbreviation noted :: "'c eol_reader \<Rightarrow> int \<times> bool" where
  "noted r \<equiv> (eol_style r, eol_style_inconsistent r)"

lemma tally_append: "tally p (es @ fs) = tally (tally p es) fs"
  by (induction p es rule: tally.induct) simp_all

lemma tally_note: "tally (noted (note_eol e r)) es = tally (noted r) (e # es)"
  by (cases "eol_style r < 0") (auto simp: note_eol_def)

lemma tally_note_cr: "tally (noted (note_cr r)) es = tally (noted r) ((if after_cr r then [SC_EOL_CR] else []) @ es)"
  by (simp add: note_cr_def after_cr_def tally_note)

lemma tally_known: "0 \<le> st \<Longrightarrow> tally (st, inc) es = (st, inc \<or> (\<exists>e\<in>set es. e \<noteq> st))"
  by (induction es arbitrary: inc) auto

lemma tally_start: "list_all (\<lambda>e. 0 \<le> e) es \<Longrightarrow> tally (- 1, False) es =
    (case es of [] \<Rightarrow> (- 1, False) | e # es' \<Rightarrow> (e, \<exists>e'\<in>set es'. e' \<noteq> e))"
  by (cases es) (simp_all add: tally_known)

lemma note_fields [simp]:
  "rd_buffer (note_eol e r) = rd_buffer r" "read_len (note_eol e r) = read_len r"
  "offset (note_eol e r) = offset r" "block_len (note_eol e r) = block_len r"
  "last_char (note_eol e r) = last_char r" "rd_channel (note_eol e r) = rd_channel r"
  "rd_buffer (note_cr r) = rd_buffer r" "read_len (note_cr r) = read_len r"
  "offset (note_cr r) = offset r" "block_len (note_cr r) = block_len r"
  "last_char (note_cr r) = last_char r" "rd_channel (note_cr r) = rd_channel r"
  by (simp_all add: note_eol_def note_cr_def)

text \<open>
  The data a step returns and what is then left stand for the same normalized text, and the styles noted
  and to be noted for the same tally, whatever bytes follow.
\<close>

definition returns :: "string \<Rightarrow> bool \<Rightarrow> string \<Rightarrow> int \<times> bool \<Rightarrow> 'c eol_reader \<Rightarrow> bool" where
  "returns data cr rest note r \<longleftrightarrow>
     (\<forall>fut. data @ norm_from (after_cr r) (unread r @ fut) = norm_from cr (rest @ fut)) \<and>
     (\<forall>fut. tally (noted r) (styles_from (after_cr r) (unread r @ fut)) = tally note (styles_from cr (rest @ fut)))"

lemma take_Suc_diff:
  "off \<le> i \<Longrightarrow> i < length xs \<Longrightarrow> take (Suc i - off) (drop off xs) = take (i - off) (drop off xs) @ [xs ! i]"
  by (simp add: Suc_diff_le take_Suc_conv_app_nth)

lemma take_drop_update: "take (i - off) (drop off (xs[i := x])) = take (i - off) (drop off xs)"
  by (cases "off \<le> i") (simp_all add: drop_update_swap)

lemma eol_scan:
  assumes "reader_ok r" "i + n = read_len r" "offset r \<le> i" "0 \<le> last_char r"
  shows "reader_ok (eol_scan n i r) \<and> offset (eol_scan n i r) = offset r \<and>
    rd_channel (eol_scan n i r) = rd_channel r \<and> length (unread (eol_scan n i r)) \<le> n - 1 \<and>
    (\<exists>d. take (block_len (eol_scan n i r)) (drop (offset r) (rd_buffer (eol_scan n i r))) =
         take (i - offset r) (drop (offset r) (rd_buffer r)) @ d \<and>
       returns d (after_cr r) (drop i (rd_buffer r)) (noted r) (eol_scan n i r))"
  using assms
proof (induction n arbitrary: i r)
  case 0
  then show ?case by (simp add: reader_ok_def unread_def returns_def after_cr_def)
next
  case (Suc n i r)
  let ?c = "rd_buffer r ! i"
  have len: "i < length (rd_buffer r)" "length (rd_buffer r) = i + Suc n"
    using Suc.prems by (simp_all add: reader_ok_def)
  have rest: "drop i (rd_buffer r) = ?c # drop (Suc i) (rd_buffer r)"
    using len by (simp add: Cons_nth_drop_Suc)
  have same: "(rd_buffer r)[i := c] = rd_buffer r" if "?c = c" for c
    using that list_update_id [of "rd_buffer r" i] by simp
  note upd = take_drop_update [of i "offset r" "rd_buffer r"]
  have step: ?case
    if s: "eol_scan (Suc n) i r = eol_scan n (Suc i) q"
      and b: "rd_buffer q = (rd_buffer r)[i := x]" and k: "offset q = offset r" "rd_channel q = rd_channel r"
      "read_len q = read_len r" "0 \<le> last_char q"
      and x: "\<And>fut. x # norm_from (after_cr q) fut = norm_from (after_cr r) (?c # fut)"
      and t: "\<And>fut. tally (noted q) (styles_from (after_cr q) fut) = tally (noted r) (styles_from (after_cr r) (?c # fut))"
    for q x
  proof -
    have "reader_ok q" using Suc.prems(1) b k by (simp add: reader_ok_def)
    from Suc.IH [OF this, of "Suc i"] Suc.prems k obtain d where
      d: "take (block_len (eol_scan n (Suc i) q)) (drop (offset r) (rd_buffer (eol_scan n (Suc i) q))) =
         take (Suc i - offset r) (drop (offset r) (rd_buffer q)) @ d"
        "returns d (after_cr q) (drop (Suc i) (rd_buffer q)) (noted q) (eol_scan n (Suc i) q)"
      and o: "reader_ok (eol_scan n (Suc i) q)" "offset (eol_scan n (Suc i) q) = offset r"
        "rd_channel (eol_scan n (Suc i) q) = rd_channel r" "length (unread (eol_scan n (Suc i) q)) \<le> n - 1"
      by auto
    have "take (Suc i - offset r) (drop (offset r) (rd_buffer q)) = take (i - offset r) (drop (offset r) (rd_buffer r)) @ [x]"
      using take_Suc_diff [of "offset r" i "rd_buffer q"] Suc.prems(3) len upd by (simp add: b)
    moreover have "returns (x # d) (after_cr r) (drop i (rd_buffer r)) (noted r) (eol_scan n (Suc i) q)"
      unfolding rest returns_def using d(2) x t
      by (simp add: returns_def b del: norm_from.simps styles_from.simps)
    ultimately show ?thesis using d(1) o unfolding s by (intro conjI exI [of _ "x # d"]) auto
  qed
  consider (crlf) "?c = LF" "last_char r = 13" | (lf) "?c = LF" "last_char r \<noteq> 13" | (cr) "?c = CR"
    | (other) "?c \<noteq> LF" "?c \<noteq> CR" by blast
  then show ?case
  proof cases
    case crlf
    then have s: "eol_scan (Suc n) i r = (note_eol SC_EOL_CRLF r)\<lparr>block_len := i - offset r, last_char := - 1\<rparr>" by simp
    have "unread (eol_scan (Suc n) i r) = drop (Suc i) (rd_buffer r)"
      unfolding s using Suc.prems(3) by (simp add: unread_def)
    then have "returns [] (after_cr r) (drop i (rd_buffer r)) (noted r) (eol_scan (Suc n) i r)"
      unfolding rest returns_def using crlf s tally_note [of SC_EOL_CRLF r] by (simp add: after_cr_def)
    then show ?thesis using Suc.prems(1) len unfolding s by (simp add: reader_ok_def unread_def Suc.prems(3))
  next
    case lf
    show ?thesis
      by (rule step [where x = ?c and q = "(note_eol SC_EOL_LF r)\<lparr>last_char := 10\<rparr>"])
        (use lf Suc.prems len in \<open>auto simp: after_cr_def tally_note same simp del: tally.simps\<close>)
  next
    case cr
    show ?thesis
      by (rule step [where x = LF and q = "(note_cr r)\<lparr>rd_buffer := (rd_buffer r)[i := LF], last_char := 13\<rparr>"])
        (use cr Suc.prems len in \<open>auto simp: after_cr_def tally_note_cr simp del: tally.simps\<close>)
  next
    case other
    have nn: "(0 :: int) \<le> of_char ?c" by (metis of_nat_of_char of_nat_0_le_iff)
    have n: "(of_char ?c :: int) \<noteq> 13" "(of_char ?c :: int) \<noteq> - 1" "(0 :: int) \<le> of_char ?c"
      using other nn of_char_eq_iff [where 'a = int, of ?c CR] by auto
    show ?thesis
      by (rule step [where x = ?c and q = "(note_cr r)\<lparr>last_char := of_char ?c\<rparr>"])
        (use other n Suc.prems len in \<open>auto simp: after_cr_def tally_note_cr same simp del: tally.simps\<close>)
  qed
qed

lemma eol_advance:
  assumes "reader_ok r"
  shows "reader_ok (eol_advance r)" "after_cr (eol_advance r) = after_cr r" "noted (eol_advance r) = noted r"
    "drop (offset (eol_advance r)) (rd_buffer (eol_advance r)) = unread r" "0 \<le> last_char (eol_advance r)"
    "rd_channel (eol_advance r) = rd_channel r"
    "read_len (eol_advance r) \<le> offset (eol_advance r) \<longleftrightarrow> unread r = []"
  using assms by (auto simp: eol_advance_def reader_ok_def after_cr_def unread_def Let_def)

text \<open>One call of the reader: it returns what is left of the buffer, or asks for the next block.\<close>

definition reader_step :: "string \<Rightarrow> 'c eol_reader \<Rightarrow> 'c eol_reader \<Rightarrow> string \<Rightarrow> string \<Rightarrow> bool" where
  "reader_step data r r' rest rest' \<longleftrightarrow>
     reader_ok r' \<and> data @ norm_from (after_cr r') rest' = norm_from (after_cr r) rest \<and>
     tally (noted r') (styles_from (after_cr r') rest') = tally (noted r) (styles_from (after_cr r) rest)"

lemma eol_block:
  assumes "reader_ok r" "offset r \<le> read_len r" "0 \<le> last_char r"
  obtains data r' where "eol_block r = (Eol_data data, r')" "rd_channel r' = rd_channel r" "reader_ok r'"
    "length (unread r') \<le> read_len r - offset r - 1"
    "\<And>fut. reader_step data r r' (drop (offset r) (rd_buffer r) @ fut) (unread r' @ fut)"
proof -
  note scan = eol_scan [OF assms(1), of "offset r" "read_len r - offset r"]
  let ?r = "eol_scan (read_len r - offset r) (offset r) r"
  show thesis
    by (rule that [of "take (block_len ?r) (drop (offset ?r) (rd_buffer ?r))" ?r])
      (use scan assms in \<open>auto simp: eol_block_def Let_def reader_step_def returns_def\<close>)
qed

lemma convert_rest:
  assumes "reader_ok r" "unread r \<noteq> []"
  obtains data r' where "teco_eol_reader_convert True read r = (Eol_data data, r')" "rd_channel r' = rd_channel r"
    "reader_ok r'" "length (unread r') < length (unread r)"
    "\<And>fut. reader_step data r r' (unread r @ fut) (unread r' @ fut)"
proof -
  let ?a = "eol_advance r"
  note adv = eol_advance [OF assms(1)]
  have o: "\<not> read_len ?a \<le> offset ?a" using adv(7) assms(2) by blast
  then have len: "length (unread r) = read_len ?a - offset ?a" using adv(1) adv(4) [symmetric] by (simp add: reader_ok_def)
  obtain data r' where "eol_block ?a = (Eol_data data, r')" "rd_channel r' = rd_channel ?a" "reader_ok r'"
    "length (unread r') \<le> read_len ?a - offset ?a - 1"
    "\<And>fut. reader_step data ?a r' (drop (offset ?a) (rd_buffer ?a) @ fut) (unread r' @ fut)"
    using eol_block [OF adv(1) _ adv(5)] o by (metis linear)
  then show thesis
    by (intro that [of data r']) (use adv o len in \<open>auto simp: teco_eol_reader_convert_def Let_def reader_step_def\<close>)
qed

lemma convert_next:
  assumes "reader_ok r" "unread r = []" "read (rd_channel r) = (status, b, ch)" "status \<in> {G_IO_STATUS_NORMAL, G_IO_STATUS_AGAIN}"
  obtains data r' where "teco_eol_reader_convert True read r = (Eol_data data, r')" "rd_channel r' = ch"
    "reader_ok r'" "\<And>fut. reader_step data r r' (b @ fut) (unread r' @ fut)"
proof -
  let ?a = "eol_advance r"
  let ?b = "?a\<lparr>offset := 0, rd_channel := ch, rd_buffer := b, read_len := length b\<rparr>"
  note adv = eol_advance [OF assms(1)]
  have ok: "reader_ok ?b" "offset ?b \<le> read_len ?b" "0 \<le> last_char ?b" using adv(5) by (simp_all add: reader_ok_def)
  obtain data r' where blk: "eol_block ?b = (Eol_data data, r')" "rd_channel r' = rd_channel ?b" "reader_ok r'"
    "length (unread r') \<le> read_len ?b - offset ?b - 1"
    "\<And>fut. reader_step data ?b r' (drop (offset ?b) (rd_buffer ?b) @ fut) (unread r' @ fut)"
    by (rule eol_block [OF ok]) blast
  show thesis
    by (rule that [of data r']) (use adv assms blk in \<open>auto simp: teco_eol_reader_convert_def Let_def reader_step_def after_cr_def\<close>)
qed

lemma convert_eof:
  assumes "reader_ok r" "unread r = []" "read (rd_channel r) = (G_IO_STATUS_EOF, [], ch)"
  obtains r' where "teco_eol_reader_convert True read r = (Eol_eof, r')"
    "noted r' = tally (noted r) (styles_from (after_cr r) [])"
proof -
  let ?b = "(eol_advance r)\<lparr>offset := 0, rd_channel := ch, rd_buffer := [], read_len := 0\<rparr>"
  note adv = eol_advance [OF assms(1)]
  show thesis
    by (rule that [of "note_cr ?b"])
      (use adv assms tally_note_cr [of ?b "[]"] in \<open>auto simp: teco_eol_reader_convert_def Let_def after_cr_def\<close>)
qed

lemma convert_all_from:
  assumes "reader_ok r" "delivers read (rd_channel r) bs"
  shows "\<exists>r'. convert_all_loop True read r str = Some (Some (str @ norm_from (after_cr r) (unread r @ concat bs)), r') \<and>
    noted r' = tally (noted r) (styles_from (after_cr r) (unread r @ concat bs))"
  using assms
proof (induction "(length bs, length (unread r))" arbitrary: bs r str rule: wf_induct [OF wf_lex_prod [OF wf_less_than wf_less_than]])
  case 1
  note IH = 1(1) [rule_format, OF _ refl]
  have loop: ?case if "teco_eol_reader_convert True read r = (Eol_data data, r')"
    "delivers read (rd_channel r') bs'" "reader_ok r'"
    "((length bs', length (unread r')), length bs, length (unread r)) \<in> less_than <*lex*> less_than"
    "reader_step data r r' (unread r @ concat bs) (unread r' @ concat bs')" for data r' bs'
    using IH [OF that(4) that(3) that(2), of "str @ data"] that(1,5)
    by (auto simp: convert_all_loop.simps [of _ _ r] reader_step_def)
  show ?case
  proof (cases "unread r = []")
    case False
    show ?thesis
      by (rule convert_rest [OF 1(2) False, of read]) (rule loop, use 1(3) in auto)
  next
    case True
    show ?thesis
    proof (cases bs)
      case (Cons b bs')
      then obtain status ch where rd: "read (rd_channel r) = (status, b, ch)" "delivers read ch bs'"
        "status \<in> {G_IO_STATUS_NORMAL, G_IO_STATUS_AGAIN}"
        using 1(3) by (auto split: prod.splits)
      show ?thesis
        by (rule convert_next [where read = read, OF 1(2) True rd(1) rd(3)]) (rule loop, use rd(2) Cons True in auto)
    next
      case Nil
      then obtain ch where rd: "read (rd_channel r) = (G_IO_STATUS_EOF, [], ch)"
        using 1(3) by (auto split: prod.splits)
      show ?thesis
        by (rule convert_eof [where read = read, OF 1(2) True rd])
          (use Nil True in \<open>auto simp: convert_all_loop.simps [of _ _ r] split: prod.splits\<close>)
    qed
  qed
qed

lemma reader_correct:
  assumes "delivers read ch blocks"
  shows "\<exists>r. teco_eol_reader_convert_all True read (teco_eol_reader_init ch) =
      Some (Some (normalize_eol (concat blocks)), r) \<and>
    (eol_style r, eol_style_inconsistent r) =
      (case eol_styles (concat blocks) of [] \<Rightarrow> (- 1, False) | e # es \<Rightarrow> (e, \<exists>e'\<in>set es. e' \<noteq> e))"
proof -
  have "list_all (\<lambda>e. 0 \<le> e) (styles_from cr s)" for cr s
    by (induction cr s rule: styles_from.induct) (simp_all add: eol_modes)
  then have t: "tally (- 1, False) (styles_from False s) =
    (case styles_from False s of [] \<Rightarrow> (- 1, False) | e # es \<Rightarrow> (e, \<exists>e'\<in>set es. e' \<noteq> e))" for s
    by (rule tally_start)
  let ?r = "teco_eol_reader_init ch"
  have i: "reader_ok ?r" "unread ?r = []" "after_cr ?r = False" "noted ?r = (- 1, False)" "rd_channel ?r = ch"
    by (simp_all add: teco_eol_reader_init_def reader_ok_def unread_def after_cr_def)
  obtain r where "convert_all_loop True read ?r [] = Some (Some ([] @ norm_from False ([] @ concat blocks)), r)"
    "noted r = tally (- 1, False) (styles_from False ([] @ concat blocks))"
    using convert_all_from [OF i(1), of read blocks "[]"] assms unfolding i by blast
  then show ?thesis
    unfolding teco_eol_reader_convert_all_def normalize_eol_from eol_styles_from t by (intro exI [of _ r]) simp
qed

text \<open>
  C10: However a file is cut into blocks, the reader returns all of it with every CRLF, CR and LF
  turned into one LF, reports the style of the first line end (or -1 if there is none), and reports
  inconsistent line ends exactly if some other line end has another style. It always reaches the end.
\<close>

theorem eol_read:
  assumes "delivers read ch blocks"
  shows "\<exists>r. teco_eol_reader_convert_all True read (teco_eol_reader_init ch) =
      Some (Some (normalize_eol (concat blocks)), r) \<and>
    (eol_style r, eol_style_inconsistent r) =
      (case eol_styles (concat blocks) of [] \<Rightarrow> (- 1, False) | e # es \<Rightarrow> (e, \<exists>e'\<in>set es. e' \<noteq> e))"
  using assms by (rule reader_correct)

text \<open>A channel that is the list of its blocks.\<close>

fun read_blocks :: "string list read_cb" where
  "read_blocks [] = (G_IO_STATUS_EOF, [], [])"
| "read_blocks (b # bs) = (G_IO_STATUS_NORMAL, b, bs)"

lemma read_blocks: "delivers read_blocks bs bs"
  by (induction bs) simp_all

theorem eol_read_witness:
  "\<exists>r. teco_eol_reader_convert_all True read_blocks
      (teco_eol_reader_init [[CHR ''a'', CR], [LF, CHR ''b'', CR], [CHR ''c'', CR]]) =
      Some (Some [CHR ''a'', LF, CHR ''b'', LF, CHR ''c'', LF], r) \<and>
    (eol_style r, eol_style_inconsistent r) = (SC_EOL_CRLF, True)"
  using eol_read [OF read_blocks, of "[[CHR ''a'', CR], [LF, CHR ''b'', CR], [CHR ''c'', CR]]"]
  by (simp add: eol_modes)

text \<open>Memory readers deliver their data in one block.\<close>

lemma read_mem: "delivers teco_eol_reader_read_mem data (if data = [] then [] else [data])"
  by (simp add: teco_eol_reader_read_mem_def)

section \<open>The writer\<close>

text \<open>
  \<open>teco_eol_writer_t\<close>. The sink's callback returns the number of bytes it took, or a negative number
  after an error; \<open>wr_lf\<close> is the state \<open>TECO_EOL_STATE_WRITE_LF\<close>.
\<close>

record 'k eol_writer =
  wr_sink :: 'k
  wr_lf :: bool
  last_c :: char
  eol_seq :: string

type_synonym 'k write_cb = "'k \<Rightarrow> string \<Rightarrow> int \<times> 'k"

definition teco_eol_writer_init :: "int \<Rightarrow> 'k \<Rightarrow> 'k eol_writer" where
  "teco_eol_writer_init eol_mode k =
     \<lparr>wr_sink = k, wr_lf = False, last_c = CHR 0x00, eol_seq = teco_eol_get_seq eol_mode\<rparr>"

definition teco_eol_writer_write_gio :: "('k \<Rightarrow> string \<Rightarrow> io_status \<times> nat \<times> 'k) \<Rightarrow> 'k write_cb" where
  "teco_eol_writer_write_gio write_chars k buffer =
     (case write_chars k buffer of (status, n, k') \<Rightarrow>
        (if status = G_IO_STATUS_ERROR then - 1 else int n, k'))"

definition teco_eol_writer_write_mem :: "string write_cb" where
  "teco_eol_writer_write_mem str buffer = (int (length buffer), str @ buffer)"

definition sink_write :: "'k write_cb \<Rightarrow> string \<Rightarrow> 'k eol_writer \<Rightarrow> int \<times> 'k eol_writer" where
  "sink_write put buffer w = (case put (wr_sink w) buffer of (n, k) \<Rightarrow> (n, w\<lparr>wr_sink := k\<rparr>))"

text \<open>
  The loop over the bytes of the buffer from index \<open>i\<close> on, \<open>n\<close> of which are left. \<open>bs\<close> is the
  start of the block not yet written and \<open>bw\<close> the number of bytes written. \<open>Inl\<close> is an early return.
\<close>

fun writer_loop :: "'k write_cb \<Rightarrow> string \<Rightarrow> nat \<Rightarrow> nat \<Rightarrow> nat \<Rightarrow> int \<Rightarrow> 'k eol_writer \<Rightarrow>
    (int + nat \<times> int) \<times> 'k eol_writer" where
  "writer_loop put buffer 0 i bs bw w = (Inr (bs, bw), w)"
| "writer_loop put buffer (Suc n) i bs bw w =
     (let c = buffer ! i in
      if c = LF \<and> last_c w = CR then
        writer_loop put buffer n (Suc i) (Suc i) (bw + 1) (w\<lparr>last_c := c\<rparr>)
      else if c = LF \<or> c = CR then
        (case sink_write put (take (i - bs) (drop bs buffer)) w of (m, w1) \<Rightarrow>
          if m < 0 then (Inl (- 1), w1)
          else if m < int (i - bs) then (Inl (bw + m), w1)
          else (case sink_write put (eol_seq w1) w1 of (k, w2) \<Rightarrow>
            if k < 0 then (Inl (- 1), w2)
            else if k = 0 then (Inl (bw + m), w2)
            else if k < int (length (eol_seq w2)) then (Inl (bw + m), w2\<lparr>wr_lf := True\<rparr>)
            else writer_loop put buffer n (Suc i) (Suc i) (bw + m + 1) (w2\<lparr>last_c := c\<rparr>)))
      else writer_loop put buffer n (Suc i) bs bw (w\<lparr>last_c := c\<rparr>))"

definition writer_blocks :: "'k write_cb \<Rightarrow> string \<Rightarrow> nat \<Rightarrow> 'k eol_writer \<Rightarrow> int \<times> 'k eol_writer" where
  "writer_blocks put buffer i w =
     (case writer_loop put buffer (length buffer - i) i i (int i) w of
        (Inl r, w') \<Rightarrow> (r, w')
      | (Inr (bs, bw), w') \<Rightarrow>
          (case sink_write put (drop bs buffer) w' of (m, w2) \<Rightarrow> (if m < 0 then - 1 else bw + m, w2)))"

text \<open>
  A call in the state \<open>wr_lf\<close> must pass at least the byte whose line end is incomplete: the source
  would compute a negative length otherwise.
\<close>

definition teco_eol_writer_convert :: "bool \<Rightarrow> 'k write_cb \<Rightarrow> string \<Rightarrow> 'k eol_writer \<Rightarrow> int \<times> 'k eol_writer" where
  "teco_eol_writer_convert autoeol put buffer w =
     (if \<not> autoeol then sink_write put buffer w
      else if wr_lf w then
        (case sink_write put [LF] w of (m, w1) \<Rightarrow>
          if m < 1 then (m, w1)
          else writer_blocks put buffer 1 (w1\<lparr>wr_lf := False\<rparr>))
      else writer_blocks put buffer 0 w)"

section \<open>What writing means\<close>

text \<open>Every line end of a text replaced by \<open>seq\<close>; \<open>cr\<close> tells whether the byte before was a CR.\<close>

fun expand_from :: "string \<Rightarrow> bool \<Rightarrow> string \<Rightarrow> string" where
  "expand_from seq cr [] = []"
| "expand_from seq cr (c # s) =
     (if c = LF then (if cr then [] else seq) @ expand_from seq False s
      else if c = CR then seq @ expand_from seq True s
      else c # expand_from seq False s)"

definition expand_eol :: "int \<Rightarrow> string \<Rightarrow> string" where
  "expand_eol eol_mode s = expand_from (teco_eol_get_seq eol_mode) False s"

text \<open>
  The contract of a sink: it takes a prefix of the data, and \<open>contents\<close> is what it took so far.
  A complete sink takes all or fails.
\<close>

locale eol_sink =
  fixes put :: "'k write_cb" and contents :: "'k \<Rightarrow> string"
  assumes takes: "put k s = (n, k') \<Longrightarrow> 0 \<le> n \<Longrightarrow>
    n \<le> int (length s) \<and> contents k' = contents k @ take (nat n) s"

locale complete_sink = eol_sink +
  assumes complete: "put k s = (n, k') \<Longrightarrow> 0 \<le> n \<Longrightarrow> n = int (length s)"

interpretation mem_sink: complete_sink teco_eol_writer_write_mem "\<lambda>k. k"
  by unfold_locales (auto simp: teco_eol_writer_write_mem_def)

text \<open>
  What a writer still owes its sink for the bytes \<open>b\<close> that have to be passed to it again or are
  passed next: the LF of a line end half of which is written counts for the first byte.
\<close>

definition owed :: "'k eol_writer \<Rightarrow> string \<Rightarrow> string" where
  "owed w b =
     (if wr_lf w then LF # expand_from (eol_seq w) False (tl b)
      else expand_from (eol_seq w) (last_c w = CR) b)"

definition known_seq :: "'k eol_writer \<Rightarrow> bool" where
  "known_seq w \<longleftrightarrow> eol_seq w \<in> {[CR, LF], [CR], [LF]}"

definition plain_line :: "string \<Rightarrow> bool" where
  "plain_line s \<longleftrightarrow> LF \<notin> set s \<and> CR \<notin> set s"

lemma expand_append:
  "expand_from sq cr (a @ b) = expand_from sq cr a @ expand_from sq (if a = [] then cr else last a = CR) b"
  by (induction sq cr a rule: expand_from.induct) auto

lemma expand_plain: "plain_line s \<Longrightarrow> expand_from sq cr (s @ t) = s @ expand_from sq (if s = [] then cr else False) t"
  by (induction s arbitrary: cr) (auto simp: plain_line_def)

lemma plain_line_simps [simp]: "plain_line []" "plain_line (s @ t) \<longleftrightarrow> plain_line s \<and> plain_line t"
  "plain_line (c # s) \<longleftrightarrow> c \<noteq> LF \<and> c \<noteq> CR \<and> plain_line s"
  by (auto simp: plain_line_def)

lemma known_seq_short: "known_seq w \<Longrightarrow> 0 < n \<Longrightarrow> n < int (length (eol_seq w)) \<Longrightarrow> n = 1 \<and> eol_seq w = [CR, LF]"
  by (auto simp: known_seq_def)

lemma sink_write_fields:
  "sink_write put b w = (n, w') \<Longrightarrow> wr_lf w' = wr_lf w \<and> last_c w' = last_c w \<and> eol_seq w' = eol_seq w"
  by (auto simp: sink_write_def split: prod.splits)

context eol_sink
begin

lemma sink_takes:
  "sink_write put s w = (n, w') \<Longrightarrow> 0 \<le> n \<Longrightarrow>
   n \<le> int (length s) \<and> contents (wr_sink w') = contents (wr_sink w) @ take (nat n) s"
  using takes by (auto simp: sink_write_def split: prod.splits)

text \<open>
  The loop: the bytes from \<open>bs\<close> to \<open>i\<close> form the start of a line. It ends with the start of the last
  line, or early with the number of bytes written, for texts without CR.
\<close>

definition loop_ok :: "string \<Rightarrow> nat \<Rightarrow> nat \<Rightarrow> 'k eol_writer \<Rightarrow> bool" where
  "loop_ok buffer i bs w \<longleftrightarrow>
     bs \<le> i \<and> i \<le> length buffer \<and> plain_line (take (i - bs) (drop bs buffer)) \<and> \<not> wr_lf w \<and> known_seq w \<and>
     (last_c w = CR \<longrightarrow> bs = i)"

definition owes :: "string \<Rightarrow> nat \<Rightarrow> nat \<Rightarrow> 'k eol_writer \<Rightarrow> string \<Rightarrow> string" where
  "owes buffer i bs w rest =
     contents (wr_sink w) @ take (i - bs) (drop bs buffer) @ expand_from (eol_seq w) (last_c w = CR) (drop i buffer @ rest)"

lemma owes_start: "owes buffer i i w rest = contents (wr_sink w) @ expand_from (eol_seq w) (last_c w = CR) (drop i buffer @ rest)"
  by (simp add: owes_def)

lemma loop_char:
  assumes ok: "loop_ok buffer i bs w" and i: "i < length buffer" and c: "buffer ! i \<noteq> LF" "buffer ! i \<noteq> CR"
  shows "loop_ok buffer (Suc i) bs (w\<lparr>last_c := buffer ! i\<rparr>)"
    and "owes buffer (Suc i) bs (w\<lparr>last_c := buffer ! i\<rparr>) rest = owes buffer i bs w rest"
proof -
  have t: "take (Suc i - bs) (drop bs buffer) = take (i - bs) (drop bs buffer) @ [buffer ! i]"
    using ok i by (simp add: take_Suc_diff loop_ok_def)
  show "loop_ok buffer (Suc i) bs (w\<lparr>last_c := buffer ! i\<rparr>)"
    using assms by (auto simp: loop_ok_def t known_seq_def)
  show "owes buffer (Suc i) bs (w\<lparr>last_c := buffer ! i\<rparr>) rest = owes buffer i bs w rest"
    using assms Cons_nth_drop_Suc [OF i, symmetric] by (simp add: owes_def t)
qed

lemma loop_skip:
  assumes "loop_ok buffer i bs w" "i < length buffer" "buffer ! i = LF" "last_c w = CR"
  shows "loop_ok buffer (Suc i) (Suc i) (w\<lparr>last_c := LF\<rparr>)"
    and "owes buffer (Suc i) (Suc i) (w\<lparr>last_c := LF\<rparr>) rest = owes buffer i bs w rest" and "bs = i"
  using assms Cons_nth_drop_Suc [of i buffer, symmetric] by (simp_all add: loop_ok_def owes_def known_seq_def)

lemma loop_eol:
  assumes ok: "loop_ok buffer i bs w" and i: "i < length buffer"
    and c: "buffer ! i = LF \<and> last_c w \<noteq> CR \<or> buffer ! i = CR"
    and w1: "sink_write put (take (i - bs) (drop bs buffer)) w = (m, w1)" "\<not> m < int (i - bs)"
    and w2: "sink_write put (eol_seq w1) w1 = (k, w2)" "0 < k" "\<not> k < int (length (eol_seq w2))"
  shows "loop_ok buffer (Suc i) (Suc i) (w2\<lparr>last_c := buffer ! i\<rparr>)"
    and "owes buffer (Suc i) (Suc i) (w2\<lparr>last_c := buffer ! i\<rparr>) rest = owes buffer i bs w rest"
    and "int bs + m + 1 = int (Suc i)"
proof -
  note f = sink_write_fields [OF w1(1)] sink_write_fields [OF w2(1)]
  have b: "bs \<le> i" using ok by (simp add: loop_ok_def)
  have m: "m = int (i - bs)" using sink_takes [OF w1(1)] w1(2) i b by simp
  have k: "contents (wr_sink w2) = contents (wr_sink w) @ take (i - bs) (drop bs buffer) @ eol_seq w"
    using sink_takes [OF w1(1)] sink_takes [OF w2(1)] w1(2) w2(2,3) f m by simp
  show "loop_ok buffer (Suc i) (Suc i) (w2\<lparr>last_c := buffer ! i\<rparr>)"
    using ok f i by (simp add: loop_ok_def known_seq_def)
  show "owes buffer (Suc i) (Suc i) (w2\<lparr>last_c := buffer ! i\<rparr>) rest = owes buffer i bs w rest"
    using c f k Cons_nth_drop_Suc [OF i, symmetric] by (auto simp: owes_def)
  show "int bs + m + 1 = int (Suc i)" using m b by simp
qed

text \<open>An early return, for a text without CR: all that was not written is still owed.\<close>

definition early :: "string \<Rightarrow> string \<Rightarrow> int \<Rightarrow> 'k eol_writer \<Rightarrow> string \<Rightarrow> bool" where
  "early buffer all x w rest \<longleftrightarrow>
     0 \<le> x \<and> x < int (length buffer) \<and> last_c w \<noteq> CR \<and> known_seq w \<and>
     contents (wr_sink w) @ owed w (drop (nat x) buffer @ rest) = all"

lemma loop_early:
  assumes ok: "loop_ok buffer i bs w" and i: "i < length buffer" and c: "buffer ! i = LF" "last_c w \<noteq> CR"
    and w1: "sink_write put (take (i - bs) (drop bs buffer)) w = (m, w1)" "0 \<le> m"
  shows "m < int (i - bs) \<Longrightarrow> early buffer (owes buffer i bs w rest) (int bs + m) w1 rest"
    and "\<not> m < int (i - bs) \<Longrightarrow> sink_write put (eol_seq w1) w1 = (0, w2) \<Longrightarrow>
      early buffer (owes buffer i bs w rest) (int bs + m) w2 rest"
    and "\<not> m < int (i - bs) \<Longrightarrow> sink_write put (eol_seq w1) w1 = (k, w2) \<Longrightarrow> 0 < k \<Longrightarrow> k < int (length (eol_seq w2)) \<Longrightarrow>
      early buffer (owes buffer i bs w rest) (int bs + m) (w2\<lparr>wr_lf := True\<rparr>) rest"
proof -
  note f = sink_write_fields [OF w1(1)]
  note o = ok [unfolded loop_ok_def]
  note t = sink_takes [OF w1]
  have split: "drop (bs + n) buffer = drop n (take (i - bs) (drop bs buffer)) @ drop i buffer" if "n \<le> i - bs" for n
  proof -
    have "drop bs buffer = take (i - bs) (drop bs buffer) @ drop i buffer"
      using o by (metis append_take_drop_id drop_drop le_add_diff_inverse2)
    then have "drop n (drop bs buffer) = drop n (take (i - bs) (drop bs buffer)) @ drop i buffer"
      using that o by (metis drop_append append_Nil2 drop_0 diff_is_0_eq length_drop length_take min.absorb2 diff_le_mono)
    then show ?thesis by (simp add: add.commute)
  qed
  have m: "m \<le> int (i - bs)" using t by auto
  define n where "n = nat m"
  have n: "m = int n" "n \<le> i - bs" using m w1(2) by (auto simp: n_def)
  have d: "nat (int bs + m) = bs + n" using n by simp
  let ?p = "take (i - bs) (drop bs buffer)"
  have p: "plain_line (drop n ?p)" using o by (auto simp: plain_line_def dest: in_set_dropD)
  have pt: "take n (drop bs buffer) @ drop n ?p @ q = ?p @ q" for q
    using append_take_drop_id [of n ?p] n(2) by (simp add: min_absorb1 flip: append_assoc)
  have e: "expand_from (eol_seq w) False (drop n ?p @ drop i buffer @ rest) =
      drop n ?p @ expand_from (eol_seq w) False (drop i buffer @ rest)"
    using p by (simp add: expand_plain)
  have ni: "nat (int i - int bs) = i - bs" using o by simp
  show "m < int (i - bs) \<Longrightarrow> early buffer (owes buffer i bs w rest) (int bs + m) w1 rest"
    using o f t n d c(2) i e pt n(2) split [OF n(2)] by (simp add: min_absorb1 early_def owed_def owes_def known_seq_def)
  have full: "n = i - bs" if "\<not> m < int (i - bs)" using that n by simp
  show "\<not> m < int (i - bs) \<Longrightarrow> sink_write put (eol_seq w1) w1 = (0, w2) \<Longrightarrow>
      early buffer (owes buffer i bs w rest) (int bs + m) w2 rest"
    using sink_write_fields [of put "eol_seq w1" w1 0 w2] sink_takes [of "eol_seq w1" w1 0 w2] o f t n d c(2) i full ni split [OF n(2)]
    by (simp add: early_def owed_def owes_def known_seq_def)
  show "\<not> m < int (i - bs) \<Longrightarrow> sink_write put (eol_seq w1) w1 = (k, w2) \<Longrightarrow> 0 < k \<Longrightarrow> k < int (length (eol_seq w2)) \<Longrightarrow>
      early buffer (owes buffer i bs w rest) (int bs + m) (w2\<lparr>wr_lf := True\<rparr>) rest"
    using sink_write_fields [of put "eol_seq w1" w1 k w2] sink_takes [of "eol_seq w1" w1 k w2] o f t n d c i full ni split [OF n(2)]
      known_seq_short [of w k] Cons_nth_drop_Suc [OF i, symmetric]
    by (simp add: early_def owed_def owes_def known_seq_def)
qed

definition loop_result :: "string \<Rightarrow> string \<Rightarrow> (int + nat \<times> int) \<times> 'k eol_writer \<Rightarrow> string \<Rightarrow> bool" where
  "loop_result buffer all res rest =
     (case res of
        (Inl x, w) \<Rightarrow> 0 \<le> x \<longrightarrow> early buffer all x w rest
      | (Inr (bs, bw), w) \<Rightarrow> bw = int bs \<and> loop_ok buffer (length buffer) bs w \<and> last_c w \<noteq> CR \<and>
          owes buffer (length buffer) bs w rest = all)"

lemma writer_loop_partial:
  assumes "loop_ok buffer i bs w" "length buffer = i + n" "last_c w \<noteq> CR" "CR \<notin> set buffer"
  shows "loop_result buffer (owes buffer i bs w rest) (writer_loop put buffer n i bs (int bs) w) rest"
  using assms
proof (induction n arbitrary: i bs w)
  case 0
  then show ?case by (simp add: loop_result_def)
next
  case (Suc n i bs w)
  then have i: "i < length buffer" by simp
  have b: "bs \<le> i" using Suc.prems(1) by (simp add: loop_ok_def)
  have nc: "buffer ! i \<noteq> CR" using nth_mem [OF i] Suc.prems(4) by metis
  show ?case
  proof (cases "buffer ! i = LF")
    case False
    then show ?thesis
      using Suc.IH [OF loop_char(1) [OF Suc.prems(1) i False nc]] Suc.prems i nc
        loop_char(2) [OF Suc.prems(1) i False nc] by simp
  next
    case True
    obtain m w1 where w1: "sink_write put (take (i - bs) (drop bs buffer)) w = (m, w1)" by fastforce
    obtain k w2 where w2: "sink_write put (eol_seq w1) w1 = (k, w2)" by fastforce
    consider "m < 0" | "0 \<le> m" "m < int (i - bs)" | "0 \<le> m" "\<not> m < int (i - bs)" by linarith
    then show ?thesis
    proof cases
      case 1
      then show ?thesis using b True Suc.prems(3) w1 by (simp add: loop_result_def Let_def)
    next
      case 2
      then show ?thesis using b True Suc.prems(3) w1 loop_early(1) [OF Suc.prems(1) i True Suc.prems(3) w1]
        by (simp add: loop_result_def Let_def)
    next
      case 3
      note e = loop_early(2,3) [OF Suc.prems(1) i True Suc.prems(3) w1 3]
      consider "k < 0" | "k = 0" | "0 < k" "k < int (length (eol_seq w2))" | "0 < k" "\<not> k < int (length (eol_seq w2))"
        by linarith
      then show ?thesis
      proof cases
        case 4
        note n = loop_eol [OF Suc.prems(1) i _ w1 3(2) w2 4]
        show ?thesis
          using b Suc.IH [OF n(1)] Suc.prems True w1 w2 3 4 n(2,3) by (simp add: Let_def add.commute)
      qed (use b True Suc.prems(3) w1 w2 3 e in \<open>simp_all add: loop_result_def Let_def\<close>)
    qed
  qed
qed

lemma writer_blocks_partial:
  assumes ok: "loop_ok buffer i i w" "last_c w \<noteq> CR" "CR \<notin> set buffer"
    and r: "writer_blocks put buffer i w = (r, w')" "0 \<le> r"
  shows "r \<le> int (length buffer) \<and> (wr_lf w' \<longrightarrow> r < int (length buffer)) \<and> last_c w' \<noteq> CR \<and> known_seq w' \<and>
    contents (wr_sink w') @ owed w' (drop (nat r) buffer @ rest) =
    contents (wr_sink w) @ expand_from (eol_seq w) False (drop i buffer @ rest)"
proof -
  have "length buffer = i + (length buffer - i)" using ok by (simp add: loop_ok_def)
  note l = writer_loop_partial [OF ok(1) this ok(2,3), of rest]
  obtain res w1 where w1: "writer_loop put buffer (length buffer - i) i i (int i) w = (res, w1)" by fastforce
  show ?thesis
  proof (cases res)
    case (Inl x)
    then show ?thesis using l w1 r ok by (auto simp: writer_blocks_def loop_result_def early_def owes_start)
  next
    case (Inr y)
    then obtain bs where y: "y = (bs, int bs)" and bs: "loop_ok buffer (length buffer) bs w1" "last_c w1 \<noteq> CR"
      "owes buffer (length buffer) bs w1 rest = owes buffer i i w rest"
      using l w1 by (cases y) (auto simp: loop_result_def)
    obtain m w2 where w2: "sink_write put (drop bs buffer) w1 = (m, w2)" by fastforce
    then have m: "0 \<le> m" "r = int bs + m" "w' = w2" using r w1 Inr y by (auto simp: writer_blocks_def split: if_splits)
    note t = sink_takes [OF w2 m(1)] and f = sink_write_fields [OF w2]
    define k where "k = nat m"
    have k: "m = int k" "k \<le> length buffer - bs" "nat r = bs + k" using t m by (auto simp: k_def)
    have p: "plain_line (drop bs buffer)" "bs \<le> length buffer" using bs(1) by (auto simp: loop_ok_def)
    then have "plain_line (drop (nat r) buffer)" using set_drop_subset [of k "drop bs buffer"]
      by (auto simp: k(3) plain_line_def add.commute)
    then have e: "expand_from (eol_seq w1) False (drop (nat r) buffer @ rest) = drop (nat r) buffer @ expand_from (eol_seq w1) False rest"
      by (simp add: expand_plain)
    have "take k (drop bs buffer) @ drop (bs + k) buffer = drop bs buffer"
      by (metis append_take_drop_id drop_drop add.commute)
    then have a: "take k (drop bs buffer) @ drop (bs + k) buffer @ q = drop bs buffer @ q" for q
      by (metis append_assoc)
    then show ?thesis
      using bs t f e m k p ok by (simp add: a owed_def owes_def loop_ok_def known_seq_def)
  qed
qed

text \<open>
  One call of the writer for a text without CR: what it wrote and what it still owes for the bytes it
  did not consume, and for those that follow, is what it owed before.
\<close>

lemma convert_partial:
  assumes w: "last_c w \<noteq> CR" "known_seq w" "wr_lf w \<Longrightarrow> buffer \<noteq> []" and b: "CR \<notin> set buffer"
    and r: "teco_eol_writer_convert True put buffer w = (r, w')" "0 \<le> r"
  shows "r \<le> int (length buffer) \<and> (wr_lf w' \<longrightarrow> r < int (length buffer)) \<and> last_c w' \<noteq> CR \<and> known_seq w' \<and>
    contents (wr_sink w') @ owed w' (drop (nat r) buffer @ rest) = contents (wr_sink w) @ owed w (buffer @ rest)"
proof (cases "wr_lf w")
  case False
  then show ?thesis
    using writer_blocks_partial [of buffer 0 w r w' rest] assms
    by (simp add: teco_eol_writer_convert_def loop_ok_def owed_def)
next
  case True
  obtain m w1 where w1: "sink_write put [LF] w = (m, w1)" by fastforce
  show ?thesis
  proof (cases "m < 1")
    case True
    then have "m = 0" "r = 0" "w' = w1" using r w1 \<open>wr_lf w\<close> by (auto simp: teco_eol_writer_convert_def)
    then show ?thesis using sink_takes [OF w1] sink_write_fields [OF w1] w b \<open>wr_lf w\<close> by (simp add: owed_def known_seq_def)
  next
    case False
    then have m: "m = 1" using sink_takes [OF w1] by simp
    have ne: "buffer \<noteq> []" using w(3) True by blast
    let ?w = "w1\<lparr>wr_lf := False\<rparr>"
    have wb: "writer_blocks put buffer 1 ?w = (r, w')"
      using r w1 m True by (simp add: teco_eol_writer_convert_def)
    have ok: "loop_ok buffer 1 1 ?w" "last_c ?w \<noteq> CR"
      using sink_write_fields [OF w1] ne w by (auto simp: loop_ok_def known_seq_def Suc_le_eq)
    note blk = writer_blocks_partial [OF ok b wb r(2), of rest]
    have "contents (wr_sink ?w) @ expand_from (eol_seq ?w) False (drop 1 buffer @ rest) =
        contents (wr_sink w) @ owed w (buffer @ rest)"
      using sink_takes [OF w1] sink_write_fields [OF w1] m True ne by (cases buffer) (simp_all add: owed_def)
    then show ?thesis using blk by simp
  qed
qed

end

text \<open>A complete sink gets everything in one call, CRs included, or an error.\<close>

context complete_sink
begin

lemma sink_complete: "sink_write put s w = (n, w') \<Longrightarrow> 0 \<le> n \<Longrightarrow>
    n = int (length s) \<and> contents (wr_sink w') = contents (wr_sink w) @ s"
  using complete [of "wr_sink w" s n "wr_sink w'"] sink_takes [of s w n w'] by (auto simp: sink_write_def split: prod.splits)

lemma writer_loop_complete:
  assumes "loop_ok buffer i bs w" "length buffer = i + n"
  shows "case writer_loop put buffer n i bs (int bs) w of
      (Inl x, w') \<Rightarrow> x < 0
    | (Inr (bs', bw), w') \<Rightarrow> bw = int bs' \<and> loop_ok buffer (length buffer) bs' w' \<and> eol_seq w' = eol_seq w \<and>
        last_c w' = (if n = 0 then last_c w else last buffer) \<and>
        owes buffer (length buffer) bs' w' [] = owes buffer i bs w []"
  using assms
proof (induction n arbitrary: i bs w)
  case 0
  then show ?case by simp
next
  case (Suc n i bs w)
  then have i: "i < length buffer" by simp
  have b: "bs \<le> i" using Suc.prems(1) by (simp add: loop_ok_def)
  have ln: "last buffer = buffer ! i" if "n = 0" using Suc.prems(2) that last_conv_nth [of buffer] by force
  consider "buffer ! i \<noteq> LF" "buffer ! i \<noteq> CR" | "buffer ! i = LF" "last_c w = CR"
    | "buffer ! i = LF \<and> last_c w \<noteq> CR \<or> buffer ! i = CR" by blast
  then show ?case
  proof cases
    case 1
    then show ?thesis using Suc.IH [OF loop_char(1) [OF Suc.prems(1) i 1]] Suc.prems loop_char(2) [OF Suc.prems(1) i 1] ln
      by (auto split: sum.splits prod.splits)
  next
    case 2
    then show ?thesis using Suc.IH [OF loop_skip(1) [OF Suc.prems(1) i 2]] Suc.prems loop_skip(2,3) [OF Suc.prems(1) i 2] ln
      by (auto simp: add.commute split: sum.splits prod.splits)
  next
    case 3
    obtain m w1 where w1: "sink_write put (take (i - bs) (drop bs buffer)) w = (m, w1)" by fastforce
    obtain k w2 where w2: "sink_write put (eol_seq w1) w1 = (k, w2)" by fastforce
    show ?thesis
    proof (cases "0 \<le> m \<and> 0 \<le> k")
      case False
      then show ?thesis using 3 b i w1 w2 sink_complete [OF w1] by (auto simp: Let_def)
    next
      case True
      then have m: "m = int (i - bs)" using sink_complete [OF w1] i b by simp
      have k: "k = int (length (eol_seq w2))" "0 < k"
        using sink_complete [OF w2] sink_write_fields [OF w1] sink_write_fields [OF w2] True Suc.prems(1)
        by (auto simp: loop_ok_def known_seq_def)
      have mk: "\<not> m < int (i - bs)" "\<not> k < int (length (eol_seq w2))" using m k by simp_all
      note n = loop_eol [OF Suc.prems(1) i 3 w1 mk(1) w2 k(2) mk(2)]
      have s: "writer_loop put buffer (Suc n) i bs (int bs) w =
          writer_loop put buffer n (Suc i) (Suc i) (int (Suc i)) (w2\<lparr>last_c := buffer ! i\<rparr>)"
        using 3 w1 w2 mk n(3) k(2) True by (auto simp: Let_def simp del: of_nat_Suc)
      show ?thesis
        using Suc.IH [OF n(1)] Suc.prems(2) ln n(2) sink_write_fields [OF w1] sink_write_fields [OF w2] unfolding s
        by (auto simp del: writer_loop.simps split: sum.splits prod.splits)
    qed
  qed
qed

lemma convert_complete:
  assumes "\<not> wr_lf w" "known_seq w" "teco_eol_writer_convert True put buffer w = (r, w')" "0 \<le> r"
  shows "r = int (length buffer) \<and> \<not> wr_lf w' \<and> eol_seq w' = eol_seq w \<and>
    last_c w' = (if buffer = [] then last_c w else last buffer) \<and>
    contents (wr_sink w') = contents (wr_sink w) @ expand_from (eol_seq w) (last_c w = CR) buffer"
proof -
  have ok: "loop_ok buffer 0 0 w" using assms by (simp add: loop_ok_def)
  have wb: "writer_blocks put buffer 0 w = (r, w')" using assms by (simp add: teco_eol_writer_convert_def)
  note l = writer_loop_complete [OF ok, of "length buffer"]
  obtain bs w1 where w1: "writer_loop put buffer (length buffer) 0 0 0 w = (Inr (bs, int bs), w1)"
    "loop_ok buffer (length buffer) bs w1" "eol_seq w1 = eol_seq w" "last_c w1 = (if buffer = [] then last_c w else last buffer)"
    "owes buffer (length buffer) bs w1 [] = owes buffer 0 0 w []"
    using l wb assms(4)
    by (cases "writer_loop put buffer (length buffer) 0 0 0 w") (auto simp: writer_blocks_def split: sum.splits prod.splits if_splits)
  obtain m w2 where w2: "sink_write put (drop bs buffer) w1 = (m, w2)" by fastforce
  then have m: "0 \<le> m" "r = int bs + m" "w' = w2" using wb w1 assms(4) by (auto simp: writer_blocks_def split: if_splits)
  have bs: "bs \<le> length buffer" "\<not> wr_lf w1" using w1(2) by (simp_all add: loop_ok_def)
  have "contents (wr_sink w1) @ drop bs buffer = contents (wr_sink w) @ expand_from (eol_seq w) (last_c w = CR) buffer"
    using w1(5) by (simp add: owes_def)
  then show ?thesis using sink_complete [OF w2 m(1)] sink_write_fields [OF w2] m w1(3,4) bs by simp
qed

end

section \<open>Saving a view\<close>

text \<open>
  \<open>teco_view_save_to_channel\<close> writes the part of the document before Scintilla's gap and the part after
  it; \<open>text\<close> and \<open>gap\<close> are what Scintilla's messages return.
\<close>

datatype save_result = Save_ok | Save_error | Save_abort

definition save_block :: "bool \<Rightarrow> 'k write_cb \<Rightarrow> string \<Rightarrow> 'k eol_writer \<Rightarrow> save_result \<times> 'k eol_writer" where
  "save_block autoeol put buffer w =
     (if buffer = [] then (Save_ok, w)
      else case teco_eol_writer_convert autoeol put buffer w of (n, w') \<Rightarrow>
        (if n < 0 then Save_error else if n \<noteq> int (length buffer) then Save_abort else Save_ok, w'))"

definition teco_view_save_to_channel ::
  "bool \<Rightarrow> 'k write_cb \<Rightarrow> int \<Rightarrow> string \<Rightarrow> nat \<Rightarrow> 'k \<Rightarrow> save_result \<times> 'k eol_writer" where
  "teco_view_save_to_channel autoeol put eol_mode text gap k =
     (case save_block autoeol put (take gap text) (teco_eol_writer_init eol_mode k) of (r, w) \<Rightarrow>
        if r \<noteq> Save_ok then (r, w) else save_block autoeol put (drop gap text) w)"

lemma known_seq_get: "teco_eol_get_seq m \<in> {[CR, LF], [CR], [LF]}"
  by (simp add: teco_eol_get_seq_def)

lemma writer_init:
  "known_seq (teco_eol_writer_init m k)" "last_c (teco_eol_writer_init m k) \<noteq> CR" "\<not> wr_lf (teco_eol_writer_init m k)"
  "wr_sink (teco_eol_writer_init m k) = k" "eol_seq (teco_eol_writer_init m k) = teco_eol_get_seq m"
  using known_seq_get [of m] by (simp_all add: known_seq_def teco_eol_writer_init_def)

context complete_sink
begin

lemma save_block_complete:
  assumes "\<not> wr_lf w" "known_seq w" "save_block True put buffer w = (r, w')"
  shows "r \<noteq> Save_abort \<and> (r = Save_ok \<longrightarrow> \<not> wr_lf w' \<and> eol_seq w' = eol_seq w \<and>
    last_c w' = (if buffer = [] then last_c w else last buffer) \<and>
    contents (wr_sink w') = contents (wr_sink w) @ expand_from (eol_seq w) (last_c w = CR) buffer)"
proof (cases "buffer = []")
  case False
  obtain n w1 where "teco_eol_writer_convert True put buffer w = (n, w1)" by fastforce
  then show ?thesis using convert_complete [OF assms(1,2), of buffer n w1] assms(3) False
    by (auto simp: save_block_def split: if_splits)
qed (use assms in \<open>simp add: save_block_def\<close>)

end

lemma view_save_text:
  assumes "complete_sink put contents"
    and "teco_view_save_to_channel True put eol_mode text gap k = (r, w)"
  shows "r \<noteq> Save_abort \<and> (r = Save_ok \<longrightarrow> contents (wr_sink w) = contents k @ expand_eol eol_mode text)"
proof -
  obtain r1 w1 where w1: "save_block True put (take gap text) (teco_eol_writer_init eol_mode k) = (r1, w1)" by fastforce
  note one = complete_sink.save_block_complete [OF assms(1) writer_init(3,1) w1]
  show ?thesis
  proof (cases "r1 = Save_ok")
    case True
    then have "\<not> wr_lf w1" "known_seq w1" "save_block True put (drop gap text) w1 = (r, w)"
      using one w1 assms(2) known_seq_get [of eol_mode]
      by (auto simp: teco_view_save_to_channel_def known_seq_def writer_init)
    note two = complete_sink.save_block_complete [OF assms(1) this]
    have "expand_eol eol_mode (take gap text @ drop gap text) =
        expand_eol eol_mode (take gap text) @ expand_from (teco_eol_get_seq eol_mode)
          (if take gap text = [] then False else last (take gap text) = CR) (drop gap text)"
      unfolding expand_eol_def by (rule expand_append)
    then show ?thesis using one two True by (auto simp: writer_init expand_eol_def)
  next
    case False
    then show ?thesis using one w1 assms(2) by (simp add: teco_view_save_to_channel_def)
  qed
qed

text \<open>
  C13: Saving a view writes its text with every line end (CRLF, CR or LF) replaced by the one of the
  view's EOL mode, wherever the gap of the document is, also between CR and LF; the assertions on the
  lengths hold. The sink may fail but must otherwise be complete, as a blocking channel is.
\<close>

theorem view_save:
  assumes "complete_sink put contents"
    and "teco_view_save_to_channel True put eol_mode text gap k = (r, w)"
  shows "r \<noteq> Save_abort \<and> (r = Save_ok \<longrightarrow> contents (wr_sink w) = contents k @ expand_eol eol_mode text)"
  using assms by (rule view_save_text)

theorem view_save_witness:
  "teco_view_save_to_channel True teco_eol_writer_write_mem SC_EOL_LF [CHR ''a'', CR, LF, CHR ''b''] 2 [] =
     (Save_ok, snd (teco_view_save_to_channel True teco_eol_writer_write_mem SC_EOL_LF [CHR ''a'', CR, LF, CHR ''b''] 2 [])) \<and>
   wr_sink (snd (teco_view_save_to_channel True teco_eol_writer_write_mem SC_EOL_LF [CHR ''a'', CR, LF, CHR ''b''] 2 [])) =
     [CHR ''a'', LF, CHR ''b'']"
proof -
  let ?s = "teco_view_save_to_channel True teco_eol_writer_write_mem SC_EOL_LF [CHR ''a'', CR, LF, CHR ''b''] 2 []"
  have ok: "?s = (Save_ok, snd ?s)"
    by (simp add: teco_view_save_to_channel_def save_block_def teco_eol_writer_convert_def writer_blocks_def
        teco_eol_writer_init_def sink_write_def teco_eol_writer_write_mem_def eol_modes teco_eol_get_seq_def eval_nat_numeral Let_def)
  show ?thesis
    using view_save [OF mem_sink.complete_sink_axioms ok] ok
    by (simp add: expand_eol_def teco_eol_get_seq_def eol_modes)
qed

text \<open>Reading what was written: the same text in normal form, and the mode as the only style.\<close>

fun eol_count :: "bool \<Rightarrow> string \<Rightarrow> nat" where
  "eol_count cr [] = 0"
| "eol_count cr (c # s) = (if c = LF then (if cr then 0 else 1) else if c = CR then 1 else 0) + eol_count (c = CR) s"

lemma eol_count_0: "eol_count False s = 0 \<longleftrightarrow> plain_line s"
  by (induction s) auto

lemma norm_from_no_lf: "LF \<notin> set s \<Longrightarrow> norm_from True s = norm_from False s"
  by (cases s) auto

lemma styles_from_no_lf: "LF \<notin> set s \<Longrightarrow> styles_from True s = SC_EOL_CR # styles_from False s"
  by (cases s) auto

lemma expand_no_lf: "LF \<notin> set (expand_from [CR] cr s)"
  by (induction "[CR]" cr s rule: expand_from.induct) auto

lemma norm_expand_seq: "sq \<in> {[CR, LF], [CR], [LF]} \<Longrightarrow> norm_from False (expand_from sq cr s) = norm_from cr s"
  by (induction s arbitrary: cr) (auto simp: norm_from_no_lf expand_no_lf)

lemmas norm_expand = norm_expand_seq [OF known_seq_get]

lemma styles_expand_seq:
  "(m, sq) \<in> {(SC_EOL_CRLF, [CR, LF]), (SC_EOL_CR, [CR]), (SC_EOL_LF, [LF])} \<Longrightarrow>
   styles_from False (expand_from sq cr s) = replicate (eol_count cr s) m"
  by (induction s arbitrary: cr) (auto simp: styles_from_no_lf expand_no_lf)

lemma styles_expand:
  "m \<in> {SC_EOL_CRLF, SC_EOL_CR, SC_EOL_LF} \<Longrightarrow>
   styles_from False (expand_from (teco_eol_get_seq m) cr s) = replicate (eol_count cr s) m"
  by (rule styles_expand_seq) (auto simp: teco_eol_get_seq_def eol_modes)

text \<open>
  C11: Saving a view and loading the file again gives the text with its line ends normalized, and
  the EOL mode it was saved with is recognized, consistently, if there is a line end at all.
\<close>

theorem eol_roundtrip:
  assumes "complete_sink put contents" "contents k = []"
    and "teco_view_save_to_channel True put eol_mode text gap k = (Save_ok, w)"
    and "eol_mode \<in> {SC_EOL_CRLF, SC_EOL_CR, SC_EOL_LF}"
    and "delivers read ch blocks" "concat blocks = contents (wr_sink w)"
  shows "\<exists>r. teco_eol_reader_convert_all True read (teco_eol_reader_init ch) = Some (Some (normalize_eol text), r) \<and>
    eol_style r = (if LF \<in> set text \<or> CR \<in> set text then eol_mode else - 1) \<and> \<not> eol_style_inconsistent r"
proof -
  have saved: "concat blocks = expand_eol eol_mode text"
    using assms view_save_text [OF assms(1,3)] by simp
  have n: "normalize_eol (concat blocks) = normalize_eol text"
    by (simp add: saved expand_eol_def normalize_eol_from norm_expand)
  have e: "eol_styles (concat blocks) = replicate (eol_count False text) eol_mode"
    by (simp add: saved expand_eol_def eol_styles_from styles_expand [OF assms(4)])
  show ?thesis
    using reader_correct [OF assms(5)] eol_count_0 [of "text"] unfolding n e
    by (cases "eol_count False text") (auto simp: plain_line_def)
qed

theorem eol_roundtrip_witness:
  "\<exists>r. teco_eol_reader_convert_all True read_blocks (teco_eol_reader_init [[CHR ''a'', CR], [LF, CHR ''b'']]) =
      Some (Some (normalize_eol [CHR ''a'', LF, CHR ''b'']), r) \<and>
    eol_style r = SC_EOL_CRLF \<and> \<not> eol_style_inconsistent r"
proof -
  let ?s = "teco_view_save_to_channel True teco_eol_writer_write_mem SC_EOL_CRLF [CHR ''a'', LF, CHR ''b''] 0 []"
  have ok: "?s = (Save_ok, snd ?s)" "concat [[CHR ''a'', CR], [LF, CHR ''b'']] = wr_sink (snd ?s)"
    by (simp_all add: teco_view_save_to_channel_def save_block_def teco_eol_writer_convert_def writer_blocks_def
        teco_eol_writer_init_def sink_write_def teco_eol_writer_write_mem_def eol_modes teco_eol_get_seq_def eval_nat_numeral Let_def)
  show ?thesis
    using eol_roundtrip [OF mem_sink.complete_sink_axioms refl ok(1) _ read_blocks ok(2)] by simp
qed

section \<open>Feeding a process\<close>

text \<open>
  The fields of \<open>teco_spawn_ctx\<close> (\<open>src/spawn.c\<close>) that \<open>teco_spawn_stdin_watch_cb\<close> works on, and the
  callback: it is called when the pipe to the process can take data (\<open>ready\<close>) or was closed, passes
  the part of the range that lies before the gap, or all that is left, and returns whether it wants
  to be called again.
\<close>

record 'k spawn_ctx =
  sp_start :: nat
  sp_to :: nat
  sp_error :: bool
  sp_stdin_writer :: "'k eol_writer"

definition teco_spawn_stdin_watch_cb ::
  "bool \<Rightarrow> 'k write_cb \<Rightarrow> string \<Rightarrow> nat \<times> bool \<Rightarrow> 'k spawn_ctx \<Rightarrow> bool \<times> 'k spawn_ctx" where
  "teco_spawn_stdin_watch_cb autoeol put text call ctx =
     (case call of (gap, ready) \<Rightarrow>
        if sp_error ctx \<or> \<not> ready then (False, ctx)
        else
          let convert_len = (if sp_start ctx < gap \<and> gap < sp_to ctx then gap else sp_to ctx) - sp_start ctx;
              buffer = take convert_len (drop (sp_start ctx) text)
          in case teco_eol_writer_convert autoeol put buffer (sp_stdin_writer ctx) of (n, w) \<Rightarrow>
            if n < 0 then (False, ctx\<lparr>sp_stdin_writer := w, sp_error := True\<rparr>)
            else
              let start = sp_start ctx + nat n
              in (start \<noteq> sp_to ctx, ctx\<lparr>sp_stdin_writer := w, sp_start := start\<rparr>))"

fun spawn_calls :: "bool \<Rightarrow> 'k write_cb \<Rightarrow> string \<Rightarrow> (nat \<times> bool) list \<Rightarrow> 'k spawn_ctx \<Rightarrow> 'k spawn_ctx" where
  "spawn_calls autoeol put text [] ctx = ctx"
| "spawn_calls autoeol put text (call # calls) ctx =
     (case teco_spawn_stdin_watch_cb autoeol put text call ctx of (continue, ctx') \<Rightarrow>
        if continue then spawn_calls autoeol put text calls ctx' else ctx')"

text \<open>The context when the process is started for the range of the document.\<close>

definition spawn_init :: "int \<Rightarrow> nat \<Rightarrow> nat \<Rightarrow> 'k \<Rightarrow> 'k spawn_ctx" where
  "spawn_init eol_mode from to k =
     \<lparr>sp_start = from, sp_to = to, sp_error = False, sp_stdin_writer = teco_eol_writer_init eol_mode k\<rparr>"

definition spawn_ok :: "'k spawn_ctx \<Rightarrow> string \<Rightarrow> bool" where
  "spawn_ok ctx text \<longleftrightarrow>
     sp_start ctx \<le> sp_to ctx \<and> sp_to ctx \<le> length text \<and> CR \<notin> set (take (sp_to ctx - sp_start ctx) (drop (sp_start ctx) text)) \<and>
     last_c (sp_stdin_writer ctx) \<noteq> CR \<and> known_seq (sp_stdin_writer ctx) \<and> (wr_lf (sp_stdin_writer ctx) \<longrightarrow> sp_start ctx < sp_to ctx)"

abbreviation spawn_left :: "'k spawn_ctx \<Rightarrow> string \<Rightarrow> string" where
  "spawn_left ctx text \<equiv> take (sp_to ctx - sp_start ctx) (drop (sp_start ctx) text)"

context eol_sink
begin

abbreviation fed :: "'k spawn_ctx \<Rightarrow> string \<Rightarrow> string" where
  "fed ctx text \<equiv> contents (wr_sink (sp_stdin_writer ctx)) @ owed (sp_stdin_writer ctx) (spawn_left ctx text)"

lemma spawn_call:
  assumes "spawn_ok ctx text" "teco_spawn_stdin_watch_cb True put text call ctx = (go, ctx')" "\<not> sp_error ctx'"
  shows "spawn_ok ctx' text \<and> fed ctx' text = fed ctx text \<and> sp_to ctx' = sp_to ctx"
proof -
  obtain gap ready where call: "call = (gap, ready)" by fastforce
  define len where "len = (if sp_start ctx < gap \<and> gap < sp_to ctx then gap else sp_to ctx) - sp_start ctx"
  let ?w = "sp_stdin_writer ctx" and ?b = "take len (drop (sp_start ctx) text)"
  obtain n w' where w': "teco_eol_writer_convert True put ?b ?w = (n, w')" by fastforce
  have cb: "teco_spawn_stdin_watch_cb True put text call ctx =
      (if sp_error ctx \<or> \<not> ready then (False, ctx)
       else if n < 0 then (False, ctx\<lparr>sp_stdin_writer := w', sp_error := True\<rparr>)
       else (sp_start ctx + nat n \<noteq> sp_to ctx, ctx\<lparr>sp_stdin_writer := w', sp_start := sp_start ctx + nat n\<rparr>))"
    by (simp add: teco_spawn_stdin_watch_cb_def call Let_def w' flip: len_def)
  show ?thesis
  proof (cases "sp_error ctx \<or> \<not> ready \<or> n < 0")
    case True
    then show ?thesis using assms unfolding cb by (auto split: if_splits)
  next
    case False
    then have c: "ctx' = ctx\<lparr>sp_stdin_writer := w', sp_start := sp_start ctx + nat n\<rparr>"
      using assms(2) unfolding cb by simp
    note ok = assms(1) [unfolded spawn_ok_def]
    have len: "len \<le> sp_to ctx - sp_start ctx" "sp_start ctx < sp_to ctx \<Longrightarrow> 0 < len" by (auto simp: len_def)
    have "len \<le> length text - sp_start ctx" using ok len(1) by linarith
    then have lb: "length ?b = len" by simp
    define rest where "rest = drop len (spawn_left ctx text)"
    have left: "spawn_left ctx text = ?b @ rest"
      using append_take_drop_id [of len "spawn_left ctx text"] len(1) by (simp add: rest_def min_absorb1 del: append_take_drop_id)
    have cr: "CR \<notin> set ?b" "CR \<notin> set rest" using ok unfolding left by auto
    have ne: "wr_lf ?w \<Longrightarrow> ?b \<noteq> []" using ok len lb by fastforce
    have "0 \<le> n" using False by simp
    note p = convert_partial [of ?w ?b n w' rest, OF _ _ ne cr(1) w' this] 
    have n: "nat n \<le> len" "int (nat n) = n" using p ok lb \<open>0 \<le> n\<close> by auto
    have left': "spawn_left ctx' text = drop (nat n) ?b @ rest"
    proof -
      have "spawn_left ctx' text = drop (nat n) (spawn_left ctx text)"
        by (simp add: c drop_take add.commute)
      then show ?thesis unfolding left using n lb by simp
    qed
    have "set (spawn_left ctx' text) \<subseteq> set (spawn_left ctx text)"
      unfolding left left' using set_drop_subset by fastforce
    then have "CR \<notin> set (spawn_left ctx' text)" using ok by blast
    moreover have "wr_lf w' \<Longrightarrow> nat n < len" using p ok lb \<open>0 \<le> n\<close> by (auto simp: nat_less_iff)
    ultimately show ?thesis
      using p ok n len(1) lb left left' unfolding spawn_ok_def by (auto simp: c)
  qed
qed

lemma spawn_calls:
  assumes "spawn_ok ctx text" "\<not> sp_error (spawn_calls True put text calls ctx)"
  shows "spawn_ok (spawn_calls True put text calls ctx) text \<and>
    fed (spawn_calls True put text calls ctx) text = fed ctx text \<and> sp_to (spawn_calls True put text calls ctx) = sp_to ctx"
  using assms
proof (induction calls arbitrary: ctx)
  case (Cons call calls ctx)
  obtain go ctx' where "teco_spawn_stdin_watch_cb True put text call ctx = (go, ctx')" by fastforce
  moreover have "\<not> sp_error ctx'" if "go" "\<not> sp_error (spawn_calls True put text calls ctx')"
    using that by (cases calls) (auto simp: teco_spawn_stdin_watch_cb_def split: prod.splits)
  ultimately show ?case using spawn_call [of ctx "text" call go ctx'] Cons.IH [of ctx'] Cons.prems by (cases go) auto
qed simp

end

text \<open>
  C12: While a process is fed with a range of the document, it has read a prefix of the range with the line
  ends translated to the view's EOL mode, and all of it once the callback has reached the end: nothing is
  lost or repeated, however little the pipe accepts at a time, even half of a CRLF, and wherever the
  gap is. The range must not contain CR, as is the case for text read with EOL translation.
\<close>

theorem spawn_fed:
  assumes "eol_sink put contents" "from \<le> to" "to \<le> length doc" "CR \<notin> set (take (to - from) (drop from doc))"
    and "ctx = spawn_calls True put doc calls (spawn_init eol_mode from to k)" "\<not> sp_error ctx"
  shows "\<exists>rest. contents (wr_sink (sp_stdin_writer ctx)) @ rest =
      contents k @ expand_eol eol_mode (take (to - from) (drop from doc)) \<and>
    (sp_start ctx = to \<longrightarrow> rest = [])"
proof -
  let ?i = "spawn_init eol_mode from to k"
  have i: "spawn_ok ?i doc"
    using assms(2,3,4) by (simp add: spawn_ok_def spawn_init_def writer_init)
  note c = eol_sink.spawn_calls [OF assms(1) i assms(6) [unfolded assms(5)], folded assms(5)]
  have to: "sp_to ctx = to" using c by (simp add: spawn_init_def)
  have "owed (sp_stdin_writer ctx) (spawn_left ctx doc) = []" if "sp_start ctx = to"
    using conjunct1 [OF c] that to by (auto simp: spawn_ok_def owed_def)
  moreover have "contents (wr_sink (sp_stdin_writer ctx)) @ owed (sp_stdin_writer ctx) (spawn_left ctx doc) =
      contents k @ expand_eol eol_mode (take (to - from) (drop from doc))"
    using conjunct1 [OF conjunct2 [OF c]] by (simp add: spawn_init_def owed_def [of "teco_eol_writer_init eol_mode k"] expand_eol_def writer_init)
  ultimately show ?thesis by blast
qed

text \<open>A pipe that takes one byte at a time.\<close>

definition one_byte :: "string write_cb" where
  "one_byte k s = (int (length (take 1 s)), k @ take 1 s)"

interpretation one_byte: eol_sink one_byte "\<lambda>k. k"
proof unfold_locales
  fix k s n k'
  show "one_byte k s = (n, k') \<Longrightarrow> 0 \<le> n \<Longrightarrow> n \<le> int (length s) \<and> k' = k @ take (nat n) s"
    by (cases s) (auto simp: one_byte_def)
qed

lemmas spawn_eval =
  spawn_init_def teco_spawn_stdin_watch_cb_def teco_eol_writer_convert_def writer_blocks_def
  teco_eol_writer_init_def sink_write_def one_byte_def eol_modes teco_eol_get_seq_def eval_nat_numeral Let_def

theorem spawn_fed_witness:
  "\<exists>rest. wr_sink (sp_stdin_writer (spawn_calls True one_byte [CHR ''a'', LF, CHR ''b''] [(0, True), (0, True)]
      (spawn_init SC_EOL_CRLF 0 3 []))) @ rest = [CHR ''a'', CR, LF, CHR ''b''] \<and> rest = []"
proof -
  let ?c = "spawn_calls True one_byte [CHR ''a'', LF, CHR ''b''] [(0, True), (0, True)] (spawn_init SC_EOL_CRLF 0 3 [])"
  have c: "\<not> sp_error ?c" "sp_start ?c = 3" by (simp_all add: spawn_eval)
  show ?thesis
    using spawn_fed [OF one_byte.eol_sink_axioms _ _ _ refl c(1)] c(2)
    by (simp add: expand_eol_def teco_eol_get_seq_def eol_modes)
qed

end
