(* ===== verification/Registers.thy ===== *)
theory Registers
  imports Stack_Laws
begin

text \<open>
  Q-registers (\<open>src/qreg.c\<close>, \<open>src/qreg.h\<close>): the integer and string operations of plain registers and
  of the radix, their undo tokens, creation in a table, and the Q-register stack. The registers
  with other behaviour (dot, buffer, working directory, clipboard) and the view parameters of
  their documents are not modelled: a register's string is its text.
\<close>

section \<open>Access\<close>

text \<open>\<open>must_undo\<close> of a table and of its registers: only those of running macros have it unset.\<close>

fun table_must_undo :: "table_ref \<Rightarrow> bool" where
  "table_must_undo (Locals (Macro_locals i)) = False"
| "table_must_undo _ = True"

definition teco_qreg_table_find :: "table_ref \<Rightarrow> string \<Rightarrow> teco \<Rightarrow> qreg_ref option" where
  "teco_qreg_table_find t name s = (if get_table t s name = None then None else Some (t, name))"

text \<open>Following a register pointer; the pointers the program holds are to registers that exist.\<close>

definition deref :: "qreg_ref \<Rightarrow> qreg tm" where
  "deref r = bindM (gets (\<lambda>s. get_table (fst r) s (snd r))) (\<lambda>q.
     case q of None \<Rightarrow> throw G_assertion_failed | Some x \<Rightarrow> ret x)"

definition push_if :: "bool \<Rightarrow> token \<Rightarrow> unit tm" where
  "push_if b t = whenM b (push_token t)"

text \<open>
  Calls whose error the caller inspects. Only a \<open>GError\<close> comes back as a value; a failing
  assertion ends the program.
\<close>

definition is_gerror :: "teco_error \<Rightarrow> bool" where
  "is_gerror e \<longleftrightarrow> \<not> crash e \<and> e \<noteq> Out_of_fuel"

definition attempt :: "'a tm \<Rightarrow> (teco_error + 'a) tm" where
  "attempt m = (\<lambda>s. case m s of
     (Inl e, s') \<Rightarrow> if is_gerror e then (Inr (Inl e), s') else (Inl e, s')
   | (Inr x, s') \<Rightarrow> (Inr (Inr x), s'))"

section \<open>The operations of the virtual table\<close>

definition qreg_get_integer :: "qreg_ref \<Rightarrow> teco_int tm" where
  "qreg_get_integer r = bindM (deref r) (\<lambda>q. ret (qreg_integer q))"

definition qreg_undo_set_integer :: "qreg_ref \<Rightarrow> unit tm" where
  "qreg_undo_set_integer r =
     bindM (deref r) (\<lambda>q. push_if (table_must_undo (fst r)) (Undo_qreg_integer r (qreg_integer q)))"

definition qreg_set_integer :: "qreg_ref \<Rightarrow> teco_int \<Rightarrow> unit tm" where
  "qreg_set_integer r value =
     bindM (deref r) (\<lambda>q.
       if qreg_is_radix q \<and> sint value < 2 then throw (TECO_ERROR_FAILED ''Invalid radix'')
       else modify (update_qreg r (\<lambda>q. q\<lparr>qreg_integer := value\<rparr>)))"

definition qreg_get_string :: "qreg_ref \<Rightarrow> string tm" where
  "qreg_get_string r = bindM (deref r) (\<lambda>q. ret (qreg_string q))"

definition qreg_undo_set_string :: "qreg_ref \<Rightarrow> unit tm" where
  "qreg_undo_set_string r =
     bindM (deref r) (\<lambda>q. push_if (table_must_undo (fst r)) (Undo_qreg_string r (qreg_string q)))"

definition qreg_set_string :: "qreg_ref \<Rightarrow> string \<Rightarrow> unit tm" where
  "qreg_set_string r str =
     bindM (deref r) (\<lambda>q. modify (update_qreg r (\<lambda>q. q\<lparr>qreg_string := str\<rparr>)))"

text \<open>\<open>teco_qreg_plain_append_string\<close> does nothing for the empty string.\<close>

definition qreg_append_string :: "qreg_ref \<Rightarrow> string \<Rightarrow> unit tm" where
  "qreg_append_string r str =
     (if str = [] then ret ()
      else thenM (qreg_undo_set_string r)
        (bindM (deref r) (\<lambda>q. modify (update_qreg r (\<lambda>q. q\<lparr>qreg_string := qreg_string q @ str\<rparr>)))))"

text \<open>Creating a register, as \<open>teco_state_qregspec_done\<close> does for optional registers that are missing.\<close>

definition create_qreg :: "qreg_ref \<Rightarrow> unit tm" where
  "create_qreg r =
     thenM (modify (update_table (fst r) (\<lambda>tab. tab(snd r \<mapsto> teco_qreg_plain_new))))
       (push_if (table_must_undo (fst r)) (Undo_qreg_remove r))"

section \<open>The Q-register stack\<close>

definition teco_qreg_stack_push :: "qreg_ref \<Rightarrow> unit tm" where
  "teco_qreg_stack_push r =
     bindM (qreg_get_integer r) (\<lambda>n.
     bindM (qreg_get_string r) (\<lambda>str.
     thenM (modify (\<lambda>s. s\<lparr>teco_qreg_stack := teco_qreg_stack s @ [(n, str)]\<rparr>))
       (push_token Undo_qreg_stack_remove_last)))"

text \<open>
  The string of the register and that of the entry are exchanged, and the entry goes to the undo
  token with the register's old string.
\<close>

definition teco_qreg_stack_pop :: "qreg_ref \<Rightarrow> unit tm" where
  "teco_qreg_stack_pop r =
     bindM (gets teco_qreg_stack) (\<lambda>st.
       if st = [] then throw (TECO_ERROR_FAILED ''Q-Register stack empty'')
       else
         thenM (qreg_undo_set_integer r)
        (thenM (qreg_set_integer r (fst (last st)))
        (bindM (qreg_get_string r) (\<lambda>str.
         thenM (qreg_undo_set_string r)
        (thenM (push_token (Undo_qreg_stack_string (length st - 1) (snd (last st))))
        (thenM (qreg_set_string r (snd (last st)))
        (thenM (modify (\<lambda>s. s\<lparr>teco_qreg_stack := st[length st - 1 := (fst (last st), str)]\<rparr>))
        (thenM (push_token (Undo_qreg_stack_push (fst (last st), str)))
           (modify (\<lambda>s. s\<lparr>teco_qreg_stack := butlast (teco_qreg_stack s)\<rparr>))))))))))"

section \<open>What the nested parsers see\<close>

text \<open>
  The registers as the string building and register specification machines read them, with the
  local table of the machine that executes. The radix is that of the local table.
\<close>

definition registers_of :: "locals_ref \<Rightarrow> teco \<Rightarrow> qreg_ref registers" where
  "registers_of l s =
     \<lparr>find_qreg = (\<lambda>loc name. teco_qreg_table_find (if loc then Locals l else Globals) name s),
      get_integer = (\<lambda>r. case get_table (fst r) s (snd r) of
        None \<Rightarrow> Inl G_assertion_failed | Some q \<Rightarrow> Inr (qreg_integer q)),
      get_string = (\<lambda>r. case get_table (fst r) s (snd r) of
        None \<Rightarrow> Inl G_assertion_failed | Some q \<Rightarrow> Inr (qreg_string q)),
      name_of = snd,
      local_radix = (case get_table (Locals l) s [CHR 0x12] of None \<Rightarrow> 0 | Some q \<Rightarrow> qreg_integer q),
      default_codepage = teco_default_codepage (teco_ed s)\<rparr>"

end
