(* ===== verification/Control.thy ===== *)
theory Control
  imports Registers
begin

text \<open>
  The main parser's machinery and its control commands (\<open>src/parser.c\<close>, \<open>src/core-commands.c\<close>,
  \<open>src/goto-commands.c\<close>, \<open>src/goto.c\<close>): modifiers, transition tables, arithmetic commands,
  loops, conditionals, radix commands, labels and comments, and the return commands. A
  callback of the source that may fail is a program of theory \<open>State\<close>; an input function returns the
  next state.
\<close>

section \<open>What is not modelled\<close>

text \<open>
  The transition callbacks and states that work on the edited document, on files or on the user
  interface: they are parameters, named by the C function.
\<close>

datatype callback =
    CB_dot | CB_zed | CB_range | CB_backslash | CB_cmdline_push | CB_jump | CB_move | CB_reverse
  | CB_line | CB_back | CB_kill_lines | CB_delete_chars | CB_get | CB_typeout
  | CB_words string int bool | CB_delete_words string int bool
  | CB_control_date | CB_control_time | CB_lines2glyphs | CB_glyphs2bytes
  | CB_last_range | CB_last_length | CB_control_typeout | CB_control_refresh
  | CB_ecommand_close | CB_ecommand_properties | CB_ecommand_eol | CB_ecommand_encoding
  | CB_ecommand_version | CB_save_all_dirty_buffers | CB_macrofile_deprecated

text \<open>
  The record has GLib's functions, the directory separator test, the polled conditions
  (\<open>teco_interface_is_interrupted\<close> and a failing \<open>teco_memory_check\<close>), the callbacks above, the initial,
  process and done callbacks of the string arguments that are not modelled (the latter also for a
  register given before), the register callbacks, the contents of a file by its unexpanded name, three queries of a register's
  document (its code page, its length in glyphs, and one of its characters), the last command line,
  the first dirty buffer's id and the
  clocks (date, seconds, monotonic microseconds).
\<close>

record env =
  env_glib :: glib
  env_dir_separator :: "teco_int \<Rightarrow> bool"
  env_interrupted :: "teco \<Rightarrow> bool"
  env_memory_exceeded :: "teco \<Rightarrow> bool"
  env_callback :: "callback \<Rightarrow> unit tm"
  env_initial :: "string_state \<Rightarrow> unit tm"
  env_process :: "string_state \<Rightarrow> string \<Rightarrow> nat \<Rightarrow> unit tm"
  env_done :: "string_state \<Rightarrow> string \<Rightarrow> teco_state tm"
  env_done_qreg :: "string_state \<Rightarrow> qreg_ref option \<Rightarrow> string \<Rightarrow> teco_state tm"
  env_got_register :: "qreg_state \<Rightarrow> qreg_ref option \<Rightarrow> teco_state tm"
  env_file_contents :: "teco \<Rightarrow> string \<Rightarrow> teco_error + string"
  env_qreg_codepage :: "teco \<Rightarrow> qreg_ref \<Rightarrow> nat"
  env_last_cmdline :: "teco \<Rightarrow> string"
  env_qreg_length :: "string \<Rightarrow> teco_int"
  env_qreg_character :: "string \<Rightarrow> teco_int \<Rightarrow> teco_int"
  env_first_dirty :: "teco \<Rightarrow> nat"
  env_date :: "teco \<Rightarrow> teco_int \<times> teco_int \<times> teco_int"
  env_time :: "teco \<Rightarrow> teco_int"
  env_monotonic_time :: "teco \<Rightarrow> teco_int"

section \<open>The machine and its modifiers\<close>

definition ctx_flags :: "teco \<Rightarrow> main_flags" where
  "ctx_flags s = flags (ctx s)"

text \<open>\<open>ctx->flags.mode == TECO_MODE_NORMAL\<close>.\<close>

definition executing :: "teco \<Rightarrow> bool" where
  "executing s \<longleftrightarrow> mode (ctx_flags s) = TECO_MODE_NORMAL"

definition set_flags :: "(main_flags \<Rightarrow> main_flags) \<Rightarrow> unit tm" where
  "set_flags f = ctx_change (\<lambda>m. Undo_flags (flags m)) (\<lambda>m. m\<lparr>flags := f (flags m)\<rparr>)"

definition set_mode :: "teco_mode \<Rightarrow> unit tm" where
  "set_mode md = set_flags (\<lambda>f. f\<lparr>mode := md\<rparr>)"

definition set_nest_level :: "(int \<Rightarrow> int) \<Rightarrow> unit tm" where
  "set_nest_level f = ctx_change (\<lambda>m. Undo_nest_level (nest_level m)) (\<lambda>m. m\<lparr>nest_level := f (nest_level m)\<rparr>)"

definition set_macro_pc :: "nat \<Rightarrow> unit tm" where
  "set_macro_pc pc = modify (ctx_update (\<lambda>m. m\<lparr>macro_pc := pc\<rparr>))"

definition teco_machine_main_eval_colon :: "nat tm" where
  "teco_machine_main_eval_colon =
     bindM (gets (\<lambda>s. modifier_colon (ctx_flags s))) (\<lambda>c.
       if c = 0 then ret 0 else thenM (set_flags (\<lambda>f. f\<lparr>modifier_colon := 0\<rparr>)) (ret c))"

definition teco_machine_main_eval_at :: "bool tm" where
  "teco_machine_main_eval_at =
     bindM (gets (\<lambda>s. modifier_at (ctx_flags s))) (\<lambda>at.
       if \<not> at then ret False else thenM (set_flags (\<lambda>f. f\<lparr>modifier_at := False\<rparr>)) (ret True))"

text \<open>The radix that \<open>get_integer\<close> of \<open>ctx->qreg_table_locals->radix\<close> yields.\<close>

definition radix_ref :: "teco \<Rightarrow> qreg_ref" where
  "radix_ref s = (Locals (qreg_table_locals (ctx s)), [CHR 0x12])"

definition get_radix :: "teco_int tm" where
  "get_radix = bindM (gets radix_ref) qreg_get_integer"

text \<open>\<open>teco_machine_main_transition_t\<close>, and the table look-up; tables are indexed by ASCII characters.\<close>

record transition =
  tr_next :: teco_state
  tr_cb :: "unit tm option"
  tr_colon :: nat
  tr_at :: bool

type_synonym transitions = "(char \<times> transition) list"

abbreviation go :: "teco_state \<Rightarrow> nat \<Rightarrow> bool \<Rightarrow> transition" where
  "go next colon at \<equiv> \<lparr>tr_next = next, tr_cb = None, tr_colon = colon, tr_at = at\<rparr>"

abbreviation run_cb :: "unit tm \<Rightarrow> nat \<Rightarrow> transition" where
  "run_cb cb colon \<equiv> \<lparr>tr_next = teco_state_start, tr_cb = Some cb, tr_colon = colon, tr_at = False\<rparr>"

definition lookup_transition :: "transitions \<Rightarrow> unichar \<Rightarrow> transition option" where
  "lookup_transition tab chr = (if chr < 0x80 then map_of tab (char_of (unat chr)) else None)"

definition teco_machine_main_transition_input :: "transitions \<Rightarrow> unichar \<Rightarrow> teco_state tm" where
  "teco_machine_main_transition_input tab chr =
     (case lookup_transition tab chr of
        None \<Rightarrow> throw (TECO_ERROR_SYNTAX chr)
      | Some tr \<Rightarrow>
          bindM (gets ctx_flags) (\<lambda>f.
            if (modifier_at f \<and> \<not> tr_at tr) \<or> (mode f = TECO_MODE_NORMAL \<and> tr_colon tr < modifier_colon f)
            then throw (TECO_ERROR_MODIFIER chr)
            else thenM (case tr_cb tr of None \<Rightarrow> ret () | Some cb \<Rightarrow> whenM (mode f = TECO_MODE_NORMAL) cb)
              (ret (tr_next tr))))"

section \<open>Arithmetic commands\<close>

text \<open>The operators of \<open>src/core-commands.c\<close>.\<close>

definition teco_state_start_mul :: "unit tm" where
  "teco_state_start_mul = teco_expressions_push_calc TECO_OP_MUL"

definition teco_state_start_div :: "unit tm" where
  "teco_state_start_div = teco_expressions_push_calc TECO_OP_DIV"

definition teco_state_start_plus :: "unit tm" where
  "teco_state_start_plus = teco_expressions_push_calc TECO_OP_ADD"

definition teco_state_start_and :: "unit tm" where
  "teco_state_start_and = teco_expressions_push_calc TECO_OP_AND"

definition teco_state_start_or :: "unit tm" where
  "teco_state_start_or = teco_expressions_push_calc TECO_OP_OR"

definition teco_state_control_pow :: "unit tm" where
  "teco_state_control_pow = teco_expressions_push_calc TECO_OP_POW"

definition teco_state_control_mod :: "unit tm" where
  "teco_state_control_mod = teco_expressions_push_calc TECO_OP_MOD"

definition teco_state_control_xor :: "unit tm" where
  "teco_state_control_xor = teco_expressions_push_calc TECO_OP_XOR"

definition teco_state_start_brace_close :: "unit tm" where
  "teco_state_start_brace_close = teco_expressions_brace_close"

lemmas operator_defs = teco_state_start_mul_def teco_state_start_div_def teco_state_start_plus_def teco_state_start_and_def teco_state_start_or_def teco_state_control_pow_def teco_state_control_mod_def teco_state_control_xor_def teco_state_start_brace_close_def

definition teco_state_start_minus :: "unit tm" where
  "teco_state_start_minus =
     bindM (gets teco_expressions_args) (\<lambda>n.
       if n = 0 then bindM (gets teco_num_sign) (\<lambda>sign. teco_set_num_sign (- sign))
       else teco_expressions_push_calc TECO_OP_SUB)"

definition teco_state_start_brace_open :: "unit tm" where
  "teco_state_start_brace_open =
     bindM (gets teco_num_sign) (\<lambda>sign.
     thenM (whenM (sign < 0)
         (thenM (teco_set_num_sign 1)
         (thenM (teco_expressions_eval False)
         (thenM (teco_expressions_push_int (- 1))
            (teco_expressions_push_calc TECO_OP_MUL)))))
       teco_expressions_brace_open)"

definition teco_state_start_comma :: "unit tm" where
  "teco_state_start_comma = thenM (teco_expressions_eval False) (teco_expressions_push_op TECO_OP_NEW)"

definition teco_state_control_negate :: "unit tm" where
  "teco_state_control_negate =
     thenM (teco_expressions_eval False)
    (bindM (gets teco_expressions_args) (\<lambda>n.
       if n = 0 then throw (TECO_ERROR_ARGEXPECTED ''^_'')
       else bindM (teco_expressions_pop_num 0) (\<lambda>v. teco_expressions_push_int (NOT v))))"

text \<open>Octal and decimal mode; they ignore an error of \<open>set_integer\<close>, which cannot occur for 8 and 10.\<close>

definition set_radix :: "teco_int \<Rightarrow> unit tm" where
  "set_radix n = bindM (gets radix_ref) (\<lambda>r. thenM (qreg_undo_set_integer r) (qreg_set_integer r n))"

definition teco_state_control_octal :: "unit tm" where
  "teco_state_control_octal = set_radix 8"

definition teco_state_control_decimal :: "unit tm" where
  "teco_state_control_decimal = set_radix 10"

definition teco_state_control_radix :: "unit tm" where
  "teco_state_control_radix =
     thenM (teco_expressions_eval False)
    (bindM (gets teco_expressions_args) (\<lambda>n.
       if n = 0 then bindM get_radix teco_expressions_push_int
       else bindM (gets radix_ref) (\<lambda>r.
         thenM (qreg_undo_set_integer r)
           (bindM (teco_expressions_pop_num 0) (qreg_set_integer r)))))"

section \<open>Loops\<close>

text \<open>\<open>teco_loop_stack->len <= ctx->loop_stack_fp\<close>: not within a loop of this macro.\<close>

definition no_loop :: "teco \<Rightarrow> bool" where
  "no_loop s \<longleftrightarrow> length (teco_loop_stack s) \<le> loop_stack_fp (ctx s)"

definition append_loop :: "loop_context \<Rightarrow> unit tm" where
  "append_loop lctx =
     thenM (modify (\<lambda>s. s\<lparr>teco_loop_stack := teco_loop_stack s @ [lctx]\<rparr>))
       (bindM (gets (\<lambda>s. Undo_remove_loop (length (teco_loop_stack s) - 1))) push_token)"

definition teco_state_start_loop_open :: "unit tm" where
  "teco_state_start_loop_open =
     bindM (teco_expressions_pop_num_calc (- 1)) (\<lambda>counter.
     bindM (gets teco_brace_level) (\<lambda>level.
     bindM teco_machine_main_eval_colon (\<lambda>colon.
       if counter \<noteq> 0 then
         thenM (whenM (colon = 0) teco_expressions_brace_open)
        (bindM (gets (\<lambda>s. macro_pc (ctx s))) (\<lambda>pc.
           append_loop \<lparr>lc_counter = counter, lc_pc = pc, lc_brace_level = level, lc_pass_through = (0 < colon)\<rparr>))
       else set_mode TECO_MODE_PARSE_ONLY_LOOP)))"

text \<open>\<open>lctx->counter--\<close> with its token, which only a machine with \<open>must_undo\<close> pushes.\<close>

definition decrement_counter :: "unit tm" where
  "decrement_counter =
     bindM (gets ctx) (\<lambda>m.
     bindM (gets (\<lambda>s. length (teco_loop_stack s) - 1)) (\<lambda>i.
     bindM (gets (\<lambda>s. last (teco_loop_stack s))) (\<lambda>lctx.
       thenM (push_if (must_undo m) (Undo_loop_counter i (lc_counter lctx)))
         (modify (\<lambda>s. s\<lparr>teco_loop_stack := (teco_loop_stack s)[i := lctx\<lparr>lc_counter := lc_counter lctx - 1\<rparr>]\<rparr>)))))"

definition remove_loop :: "unit tm" where
  "remove_loop =
     change (\<lambda>s. Undo_insert_loop (length (teco_loop_stack s) - 1) (last (teco_loop_stack s)))
       (\<lambda>s. s\<lparr>teco_loop_stack := butlast (teco_loop_stack s)\<rparr>)"

definition teco_state_start_loop_close :: "unit tm" where
  "teco_state_start_loop_close =
     bindM (gets no_loop) (\<lambda>outside.
     if outside then throw (TECO_ERROR_FAILED ''Loop end without corresponding loop start command'')
     else bindM (gets (\<lambda>s. last (teco_loop_stack s))) (\<lambda>lctx.
     bindM (gets teco_brace_level) (\<lambda>level.
     if level \<noteq> lc_brace_level lctx + (if lc_pass_through lctx then 0 else 1)
     then throw (TECO_ERROR_FAILED ''Brace left open at loop end command'')
     else bindM teco_machine_main_eval_colon (\<lambda>colon.
       thenM (whenM (\<not> lc_pass_through lctx)
         (if 0 < colon
          then thenM teco_expressions_brace_close (whenM (lc_counter lctx \<noteq> 1) teco_expressions_brace_open)
          else thenM teco_expressions_discard_args (whenM (lc_counter lctx = 1) teco_expressions_brace_close)))
       (if lc_counter lctx = 1 then remove_loop
        else thenM (set_macro_pc (lc_pc lctx)) (whenM (0 \<le> sint (lc_counter lctx)) decrement_counter))))))"

definition teco_state_start_break :: "unit tm" where
  "teco_state_start_break =
     bindM (gets no_loop) (\<lambda>outside.
     if outside then throw (TECO_ERROR_FAILED ''<;> only allowed in loops'')
     else bindM (qreg_get_integer (Globals, ''_'')) (\<lambda>v.
     bindM (teco_expressions_pop_num_calc v) (\<lambda>rc0.
     bindM teco_machine_main_eval_colon (\<lambda>colon.
       let rc = (if 0 < colon then NOT rc0 else rc0) in
       if teco_is_success rc then ret ()
       else bindM (gets (\<lambda>s. last (teco_loop_stack s))) (\<lambda>lctx.
         thenM (modify (\<lambda>s. s\<lparr>teco_loop_stack := butlast (teco_loop_stack s)\<rparr>))
        (thenM teco_expressions_discard_args
        (thenM (whenM (\<not> lc_pass_through lctx) (teco_expressions_brace_return (lc_brace_level lctx) 0))
        (thenM (bindM (gets (\<lambda>s. Undo_insert_loop (length (teco_loop_stack s)) lctx)) push_token)
           (set_mode TECO_MODE_PARSE_ONLY_LOOP)))))))))"

definition teco_state_fcommand_loop_start :: "unit tm" where
  "teco_state_fcommand_loop_start =
     bindM (gets no_loop) (\<lambda>outside.
     if outside then thenM teco_expressions_discard_args (set_macro_pc 0)
     else bindM (gets (\<lambda>s. last (teco_loop_stack s))) (\<lambda>lctx.
     bindM teco_machine_main_eval_colon (\<lambda>colon.
       thenM (whenM (\<not> lc_pass_through lctx)
         (if 0 < colon then thenM teco_expressions_brace_close teco_expressions_brace_open
          else teco_expressions_discard_args))
       (set_macro_pc (lc_pc lctx)))))"

text \<open>
  Raising \<open>TECO_ERROR_RETURN\<close> (\<open>teco_error_return_set\<close>) notes the number of arguments in a variable that
  is not undone; the machine's state is reset without an undo token.
\<close>

definition return_error :: "'a tm" where
  "return_error =
     thenM (modify (ctx_update (\<lambda>m. m\<lparr>current := teco_state_start\<rparr>)))
    (thenM (teco_expressions_eval False)
    (thenM (modify (\<lambda>s. s\<lparr>teco_error_return_args := teco_expressions_args s\<rparr>))
       (throw TECO_ERROR_RETURN)))"

definition teco_state_fcommand_loop_end :: "unit tm" where
  "teco_state_fcommand_loop_end =
     bindM (gets no_loop) (\<lambda>outside.
     if outside then return_error
     else bindM (gets (\<lambda>s. length (teco_loop_stack s))) (\<lambda>old_len.
       thenM teco_state_start_loop_close
      (bindM (gets (\<lambda>s. length (teco_loop_stack s))) (\<lambda>len.
         whenM (len < old_len) (set_mode TECO_MODE_PARSE_ONLY_LOOP)))))"

section \<open>Conditionals\<close>

definition teco_state_fcommand_cond_end :: "unit tm" where
  "teco_state_fcommand_cond_end = set_mode TECO_MODE_PARSE_ONLY_COND_FORCE"

definition teco_state_fcommand_cond_else :: "unit tm" where
  "teco_state_fcommand_cond_else = set_mode TECO_MODE_PARSE_ONLY_COND"

text \<open>
  The test of a conditional type on a value, \<open>None\<close> for an invalid type. The value's low 32 bits are
  what the functions on Unicode characters get.
\<close>

definition cond_test :: "env \<Rightarrow> unichar \<Rightarrow> teco_int \<Rightarrow> bool option" where
  "cond_test E t value =
     (let G = env_glib E; c = ucast value in
      if t = uc CHR ''A'' then Some (g_unichar_isalpha G c)
      else if t = uc CHR ''C'' then
        Some (g_unichar_isalnum G c \<or> value = 0x2E \<or> value = 0x24 \<or> value = 0x5F)
      else if t = uc CHR ''D'' then Some (g_unichar_isdigit G c)
      else if t = uc CHR ''I'' then Some (env_dir_separator E value)
      else if t = uc CHR ''S'' \<or> t = uc CHR ''T'' then Some (teco_is_success value)
      else if t = uc CHR ''F'' \<or> t = uc CHR ''U'' then Some (teco_is_failure value)
      else if t = uc CHR ''E'' \<or> t = uc CHR ''='' then Some (value = 0)
      else if t = uc CHR ''G'' \<or> t = uc CHR ''>'' then Some (0 < sint value)
      else if t = uc CHR ''L'' \<or> t = uc CHR ''<'' then Some (sint value < 0)
      else if t = uc CHR ''N'' then Some (value \<noteq> 0)
      else if t = uc CHR ''R'' then Some (g_unichar_isalnum G c)
      else if t = uc CHR ''V'' then Some (g_unichar_islower G c)
      else if t = uc CHR ''W'' then Some (g_unichar_isupper G c)
      else None)"

definition teco_state_condcommand_input :: "env \<Rightarrow> unichar \<Rightarrow> teco_state tm" where
  "teco_state_condcommand_input E chr =
     bindM (gets (\<lambda>s. mode (ctx_flags s))) (\<lambda>md.
     bindM
       (if md = TECO_MODE_PARSE_ONLY_COND \<or> md = TECO_MODE_PARSE_ONLY_COND_FORCE
        then thenM (set_nest_level (\<lambda>n. n + 1)) (ret 0)
        else if md = TECO_MODE_NORMAL then
          thenM (teco_expressions_eval False)
            (if chr = uc CHR ''~'' then ret 0
             else bindM (gets teco_expressions_args) (\<lambda>n.
               if n = 0 then throw (TECO_ERROR_ARGEXPECTED [CHR 0x22]) else teco_expressions_pop_num 0))
        else ret 0)
       (\<lambda>value.
         bindM (gets (\<lambda>s. if teco_ascii_toupper chr = uc CHR ''~'' then Some (teco_expressions_args s = 0)
             else cond_test E (teco_ascii_toupper chr) value)) (\<lambda>test.
           case test of
             None \<Rightarrow> throw (TECO_ERROR_FAILED ''Invalid conditional type'')
           | Some result \<Rightarrow>
               thenM (whenM (md = TECO_MODE_NORMAL \<and> \<not> result) (set_mode TECO_MODE_PARSE_ONLY_COND))
                 (ret teco_state_start))))"

section \<open>Labels, comments and jumps\<close>

definition teco_goto_table_find :: "string \<Rightarrow> teco \<Rightarrow> int" where
  "teco_goto_table_find name s = (case goto_table (ctx s) name of None \<Rightarrow> - 1 | Some pc \<Rightarrow> int pc)"

definition teco_goto_table_set :: "string \<Rightarrow> nat \<Rightarrow> int tm" where
  "teco_goto_table_set name pc =
     bindM (gets (teco_goto_table_find name)) (\<lambda>existing.
       if 0 \<le> existing then ret existing
       else thenM (modify (ctx_update (\<lambda>m. m\<lparr>goto_table := (goto_table m)(name \<mapsto> pc)\<rparr>))) (ret (- 1)))"

definition teco_goto_table_undo_remove :: "string \<Rightarrow> unit tm" where
  "teco_goto_table_undo_remove name =
     bindM (gets (\<lambda>s. goto_must_undo (ctx s))) (\<lambda>b. push_if b (Undo_goto_remove name))"

text \<open>Leaving goto mode: the label and the program counter to return to are cleared.\<close>

definition clear_goto :: "unit tm" where
  "clear_goto =
     thenM (change (\<lambda>s. Undo_skip_label (teco_goto_skip_label s)) (\<lambda>s. s\<lparr>teco_goto_skip_label := []\<rparr>))
       (change (\<lambda>s. Undo_backup_pc (teco_goto_backup_pc s)) (\<lambda>s. s\<lparr>teco_goto_backup_pc := - 1\<rparr>))"

definition teco_state_label_input :: "env \<Rightarrow> unichar \<Rightarrow> teco_state tm" where
  "teco_state_label_input E chr =
     bindM (gets (\<lambda>s. goto_label (ctx s))) (\<lambda>label.
     if label = [] \<and> chr = uc CHR ''*'' then ret teco_state_blockcomment
     else if label = [] \<and> chr = uc CHR ''!'' then ret teco_state_eolcomment
     else if chr = uc CHR ''!'' then
       bindM (gets (\<lambda>s. macro_pc (ctx s))) (\<lambda>pc.
       bindM (teco_goto_table_set label pc) (\<lambda>existing.
       thenM (whenM (existing < 0)
         (bindM (gets (\<lambda>s. must_undo (ctx s))) (\<lambda>undo.
          thenM (whenM undo (teco_goto_table_undo_remove label))
         (bindM (gets teco_goto_skip_label) (\<lambda>skip.
            whenM (skip \<noteq> [] \<and> teco_string_cmp label skip = 0)
              (thenM clear_goto (set_mode TECO_MODE_NORMAL)))))))
       (thenM (ctx_change (\<lambda>m. Undo_goto_label (goto_label m)) (\<lambda>m. m\<lparr>goto_label := []\<rparr>))
         (ret teco_state_start))))
     else
       thenM (ctx_change (\<lambda>m. Undo_goto_label_truncate (length (goto_label m)))
           (\<lambda>m. m\<lparr>goto_label := teco_string_append_wc (env_glib E) (goto_label m) chr\<rparr>))
         (ret teco_state_label))"

definition teco_state_blockcomment_input :: "unichar \<Rightarrow> teco_state tm" where
  "teco_state_blockcomment_input chr =
     ret (if chr = uc CHR ''*'' then teco_state_blockcomment_star else teco_state_blockcomment)"

definition teco_state_blockcomment_star_input :: "unichar \<Rightarrow> teco_state tm" where
  "teco_state_blockcomment_star_input chr =
     ret (if chr = uc CHR ''!'' then teco_state_start else teco_state_blockcomment)"

definition teco_state_eolcomment_input :: "unichar \<Rightarrow> teco_state tm" where
  "teco_state_eolcomment_input chr =
     ret (if chr = 0x0A then teco_state_start else teco_state_eolcomment)"

text \<open>
  The substring of \<open>str\<close> between commas that \<open>value\<close> indexes: the loop returns the remaining value
  (negative if the substring was found) and the last substring looked at.
\<close>

function label_loop :: "int \<Rightarrow> string \<Rightarrow> string \<Rightarrow> int \<times> string" where
  "label_loop value label rest =
     (if value < 0 then (value, label)
      else let l = takeWhile (\<lambda>c. c \<noteq> CHR '','') rest; r = dropWhile (\<lambda>c. c \<noteq> CHR '','') rest in
        if r = [] then (value - 1, l) else label_loop (value - 1) l (tl r))"
  by pat_completeness auto
termination
proof (relation "measure (\<lambda>(v, _, rest). length rest)", goal_cases)
  case (2 v label rest l r)
  then have "0 < length r" "length r \<le> length rest"
    by (simp_all only: length_dropWhile_le length_greater_0_conv not_False_eq_True)
  then have "length (tl r) < length rest" by (cases r) simp_all
  then show ?case by simp
qed simp

declare label_loop.simps [simp del]

definition teco_state_goto_done :: "string \<Rightarrow> teco_state tm" where
  "teco_state_goto_done str =
     bindM (gets executing) (\<lambda>normal.
     if \<not> normal then ret teco_state_start
     else if str = [] then throw (TECO_ERROR_FAILED ''No labels given for <O>'')
     else bindM (teco_expressions_pop_num_calc 0) (\<lambda>value.
     bindM teco_machine_main_eval_colon (\<lambda>colon.
       let (value', label) = label_loop (sint value) [] str in
       thenM (whenM (value' < 0 \<and> label \<noteq> [])
         (bindM (gets (teco_goto_table_find label)) (\<lambda>pc.
          bindM (gets ctx) (\<lambda>m.
          if 0 \<le> pc then set_macro_pc (nat pc)
          else if \<not> goto_complete m then
            bindM (gets teco_goto_skip_label) (\<lambda>skip.
            if skip \<noteq> [] then throw G_assertion_failed
            else
              thenM (change (\<lambda>s. Undo_skip_label []) (\<lambda>s. s\<lparr>teco_goto_skip_label := label\<rparr>))
             (thenM (change (\<lambda>s. Undo_backup_pc (teco_goto_backup_pc s))
                 (\<lambda>s. s\<lparr>teco_goto_backup_pc := (if 0 < colon then int (macro_pc m) else - 1)\<rparr>))
                (set_mode TECO_MODE_PARSE_ONLY_GOTO)))
          else if colon = 0 then bindM (gets teco_goto_skip_label) (\<lambda>skip. throw (TECO_ERROR_LABEL skip))
          else ret ()))))
       (ret teco_state_start))))"

end
