(* ===== verification/Core_Commands.thy ===== *)
theory Core_Commands
  imports Control
begin

text \<open>
  The start, command and return states of \<open>src/core-commands.c\<close>: their transition tables and input
  functions. A table lists the characters of its C initializer in their order; a missing
  \<open>.modifier_colon\<close> or \<open>.modifier_at\<close> is 0 or false.
\<close>

section \<open>Search mode, date, time and the editor flags\<close>

text \<open>\<open>^X\<close> in \<open>src/search.c\<close>: the search mode is the local register of that name.\<close>

definition teco_state_control_search_mode :: "unit tm" where
  "teco_state_control_search_mode =
     thenM (teco_expressions_eval False)
    (bindM (gets (\<lambda>s. (Locals (qreg_table_locals (ctx s)), [CHR 0x18]))) (\<lambda>reg.
     bindM (gets (\<lambda>s. teco_expressions_args s = 0 \<and> 0 < teco_num_sign s)) (\<lambda>query.
       if query then bindM (qreg_get_integer reg) teco_expressions_push_int
       else bindM (gets (\<lambda>s. word_of_int (teco_num_sign s))) (\<lambda>sign.
         bindM (teco_expressions_pop_num_calc sign) (\<lambda>v.
           thenM (qreg_undo_set_integer reg) (qreg_set_integer reg v))))))"

definition teco_state_control_date :: "env \<Rightarrow> unit tm" where
  "teco_state_control_date E =
     bindM (gets (env_date E)) (\<lambda>(year, month, day).
       teco_expressions_push_int (((year - 1900) * 16 + month) * 32 + day))"

definition teco_state_control_time :: "env \<Rightarrow> unit tm" where
  "teco_state_control_time E =
     bindM teco_machine_main_eval_colon (\<lambda>colon.
       if colon = 0 then bindM (gets (env_time E)) (\<lambda>t. teco_expressions_push_int (word_of_int (sint t smod (60 * 60 * 24))))
       else if colon = 1 then bindM (gets (env_time E)) teco_expressions_push_int
       else if colon = 2 then bindM (gets (env_monotonic_time E)) teco_expressions_push_int
       else throw G_assertion_failed)"

definition set_ed :: "(teco_int \<Rightarrow> teco_int) \<Rightarrow> unit tm" where
  "set_ed f = change (\<lambda>s. Undo_ed (teco_ed s)) (\<lambda>s. s\<lparr>teco_ed := f (teco_ed s)\<rparr>)"

definition teco_state_ecommand_flags :: "unit tm" where
  "teco_state_ecommand_flags =
     thenM (teco_expressions_eval False)
    (bindM (gets teco_expressions_args) (\<lambda>n.
       if n = 0 then bindM (gets teco_ed) teco_expressions_push_int
       else bindM (teco_expressions_pop_num_calc 0) (\<lambda>on.
         bindM (teco_expressions_pop_num_calc (NOT 0)) (\<lambda>off.
           set_ed (\<lambda>ed. (ed AND NOT off) OR on)))))"

definition teco_state_ecommand_exit :: "env \<Rightarrow> unit tm" where
  "teco_state_ecommand_exit E =
     bindM teco_machine_main_eval_colon (\<lambda>colon.
       thenM
         (if 0 < colon then env_callback E CB_save_all_dirty_buffers
          else bindM (gets (\<lambda>s. word_of_int (teco_num_sign s))) (\<lambda>sign.
            bindM (teco_expressions_pop_num_calc sign) (\<lambda>v.
            bindM (gets (env_first_dirty E)) (\<lambda>id.
              whenM (teco_is_failure v \<and> id \<noteq> 0)
                (throw (TECO_ERROR_FAILED ''Buffer with id %u is dirty''))))))
         (set_ed (\<lambda>ed. ed OR TECO_ED_EXIT)))"

section \<open>Control commands\<close>

definition control_transitions :: "env \<Rightarrow> transitions" where
  "control_transitions E =
     [(CHR ''I'', go (Expect_string E_insert_indent) 0 True),
      (CHR ''U'', go (Expect_qreg Q_ctlucommand) 1 True),
      (CHR ''^'', go teco_state_ascii 0 False),
      (CHR ''['', go teco_state_escape 0 False),
      (CHR ''C'', go teco_state_ctlc 0 False),
      (CHR ''A'', go (Expect_string E_print_string) 1 True),
      (CHR ''_'', run_cb teco_state_control_negate 0),
      (CHR ''*'', run_cb teco_state_control_pow 0),
      (CHR ''/'', run_cb teco_state_control_mod 0),
      (CHR ''#'', run_cb teco_state_control_xor 0),
      (CHR ''B'', run_cb (teco_state_control_date E) 0),
      (CHR ''H'', run_cb (teco_state_control_time E) 2),
      (CHR ''O'', run_cb teco_state_control_octal 0),
      (CHR ''D'', run_cb teco_state_control_decimal 0),
      (CHR ''R'', run_cb teco_state_control_radix 0),
      (CHR ''Q'', run_cb (env_callback E CB_lines2glyphs) 1),
      (CHR ''E'', run_cb (env_callback E CB_glyphs2bytes) 1),
      (CHR ''X'', run_cb teco_state_control_search_mode 0),
      (CHR ''Y'', run_cb (env_callback E CB_last_range) 0),
      (CHR ''S'', run_cb (env_callback E CB_last_length) 0),
      (CHR ''T'', run_cb (env_callback E CB_control_typeout) 1),
      (CHR ''W'', run_cb (env_callback E CB_control_refresh) 0)]"

definition teco_state_control_input :: "env \<Rightarrow> unichar \<Rightarrow> teco_state tm" where
  "teco_state_control_input E chr =
     teco_machine_main_transition_input (control_transitions E) (teco_ascii_toupper chr)"

definition teco_state_ascii_input :: "unichar \<Rightarrow> teco_state tm" where
  "teco_state_ascii_input chr =
     bindM (gets executing) (\<lambda>b.
       thenM (whenM b (teco_expressions_push_int (ucast chr))) (ret teco_state_start))"

section \<open>F- and E-commands\<close>

definition fcommand_transitions :: transitions where
  "fcommand_transitions =
     [(CHR ''K'', go (Expect_string E_search_kill) 1 True),
      (CHR ''D'', go (Expect_string E_search_delete) 2 True),
      (CHR ''S'', go (Expect_string E_replace) 2 True),
      (CHR ''R'', go (Expect_string E_replace_default) 2 True),
      (CHR ''N'', go (Expect_string E_replace_default_all) 1 True),
      (CHR ''G'', go (Expect_string E_changedir) 0 True),
      (CHR ''<'', run_cb teco_state_fcommand_loop_start 1),
      (CHR ''>'', run_cb teco_state_fcommand_loop_end 1),
      (CHR 0x27, run_cb teco_state_fcommand_cond_end 0),
      (CHR ''|'', run_cb teco_state_fcommand_cond_else 0)]"

definition teco_state_fcommand_input :: "unichar \<Rightarrow> teco_state tm" where
  "teco_state_fcommand_input chr =
     teco_machine_main_transition_input fcommand_transitions (teco_ascii_toupper chr)"

definition ecommand_transitions :: "env \<Rightarrow> transitions" where
  "ecommand_transitions E =
     [(CHR ''%'', go (Expect_qreg Q_epctcommand) 0 True),
      (CHR ''B'', go (Expect_string E_edit_file) 0 True),
      (CHR ''C'', go (Expect_string E_execute) 1 True),
      (CHR ''G'', go (Expect_qreg Q_egcommand) 1 True),
      (CHR ''I'', go (Expect_string E_indirect) 1 True),
      (CHR ''M'', \<lparr>tr_next = Expect_string E_indirect, tr_cb = Some (env_callback E CB_macrofile_deprecated),
        tr_colon = 1, tr_at = True\<rparr>),
      (CHR ''N'', go (Expect_string E_glob_pattern) 1 True),
      (CHR ''S'', go (Expect_string E_scintilla_symbols) 0 True),
      (CHR ''Q'', go (Expect_qreg Q_eqcommand) 0 True),
      (CHR ''U'', go (Expect_qreg Q_eucommand) 1 True),
      (CHR ''W'', go (Expect_string E_save_file) 0 True),
      (CHR ''R'', go (Expect_string E_read_file) 0 True),
      (CHR ''F'', run_cb (env_callback E CB_ecommand_close) 1),
      (CHR ''D'', run_cb teco_state_ecommand_flags 0),
      (CHR ''J'', run_cb (env_callback E CB_ecommand_properties) 0),
      (CHR ''L'', run_cb (env_callback E CB_ecommand_eol) 1),
      (CHR ''E'', run_cb (env_callback E CB_ecommand_encoding) 1),
      (CHR ''O'', run_cb (env_callback E CB_ecommand_version) 0),
      (CHR ''X'', run_cb (teco_state_ecommand_exit E) 1)]"

definition teco_state_ecommand_input :: "env \<Rightarrow> unichar \<Rightarrow> teco_state tm" where
  "teco_state_ecommand_input E chr =
     teco_machine_main_transition_input (ecommand_transitions E) (teco_ascii_toupper chr)"

section \<open>The start state\<close>

text \<open>\<open>}\<close>: the error \<open>TECO_ERROR_CMDLINE\<close> asks the command line to replace itself.\<close>

definition teco_state_start_cmdline_pop :: "unit tm" where
  "teco_state_start_cmdline_pop =
     bindM (gets (\<lambda>s. s)) (\<lambda>s.
       if \<not> teco_undo_enabled s
       then throw (TECO_ERROR_FAILED ''Command-line editing only possible in interactive mode'')
       else if teco_qreg_current s \<noteq> teco_qreg_table_find Globals [CHR 0x1B] s
       then throw (TECO_ERROR_FAILED ''Command-line replacement only allowed when editing the replacement register'')
       else throw TECO_ERROR_CMDLINE)"

definition start_transitions :: "env \<Rightarrow> transitions" where
  "start_transitions E =
     [(CHR ''$'', go teco_state_escape 0 False),
      (CHR ''!'', go teco_state_label 0 False),
      (CHR ''O'', go (Expect_string E_goto) 1 True),
      (CHR ''^'', go teco_state_control 2 True),
      (CHR ''F'', go teco_state_fcommand 2 True),
      (CHR 0x22, go teco_state_condcommand 0 False),
      (CHR ''E'', go teco_state_ecommand 2 True),
      (CHR ''I'', go (Expect_string E_insert_plain) 0 True),
      (CHR ''?'', go (Expect_string E_help) 0 True),
      (CHR ''S'', go (Expect_string E_search) 2 True),
      (CHR ''N'', go (Expect_string E_search_all) 1 True),
      (CHR ''['', go (Expect_qreg Q_pushqreg) 0 False),
      (CHR '']'', go (Expect_qreg Q_popqreg) 1 False),
      (CHR ''G'', go (Expect_qreg Q_getqregstring) 1 False),
      (CHR ''Q'', go (Expect_qreg Q_queryqreg) 1 False),
      (CHR ''U'', go (Expect_qreg Q_setqreginteger) 1 True),
      (CHR ''%'', go (Expect_qreg Q_increaseqreg) 0 False),
      (CHR ''M'', go (Expect_qreg Q_macro) 1 False),
      (CHR ''X'', go (Expect_qreg Q_copytoqreg) 1 True),
      (CHR ''='', go teco_state_print_decimal 1 False),
      (CHR ''*'', run_cb teco_state_start_mul 0),
      (CHR ''/'', run_cb teco_state_start_div 0),
      (CHR ''+'', run_cb teco_state_start_plus 0),
      (CHR ''-'', run_cb teco_state_start_minus 0),
      (CHR ''&'', run_cb teco_state_start_and 0),
      (CHR ''#'', run_cb teco_state_start_or 0),
      (CHR ''('', run_cb teco_state_start_brace_open 0),
      (CHR '')'', run_cb teco_state_start_brace_close 0),
      (CHR '','', run_cb teco_state_start_comma 0),
      (CHR ''.'', run_cb (env_callback E CB_dot) 0),
      (CHR ''Z'', run_cb (env_callback E CB_zed) 0),
      (CHR ''H'', run_cb (env_callback E CB_range) 0),
      (CHR 0x5C, run_cb (env_callback E CB_backslash) 0),
      (CHR ''<'', run_cb teco_state_start_loop_open 1),
      (CHR ''>'', run_cb teco_state_start_loop_close 1),
      (CHR '';'', run_cb teco_state_start_break 1),
      (CHR ''{'', run_cb (env_callback E CB_cmdline_push) 0),
      (CHR ''}'', run_cb teco_state_start_cmdline_pop 0),
      (CHR ''J'', run_cb (env_callback E CB_jump) 1),
      (CHR ''C'', run_cb (env_callback E CB_move) 1),
      (CHR ''R'', run_cb (env_callback E CB_reverse) 1),
      (CHR ''L'', run_cb (env_callback E CB_line) 1),
      (CHR ''B'', run_cb (env_callback E CB_back) 1),
      (CHR ''K'', run_cb (env_callback E CB_kill_lines) 1),
      (CHR ''D'', run_cb (env_callback E CB_delete_chars) 1),
      (CHR ''A'', run_cb (env_callback E CB_get) 0),
      (CHR ''T'', run_cb (env_callback E CB_typeout) 0)]"

text \<open>
  The syntactic part of the word commands, which clear the at-modifier even when they do not
  execute.
\<close>

definition words_command :: "env \<Rightarrow> (bool \<Rightarrow> callback) \<Rightarrow> teco_state tm" where
  "words_command E cb =
     bindM teco_machine_main_eval_at (\<lambda>at.
     bindM (gets executing) (\<lambda>b.
       thenM (whenM b (env_callback E (cb at))) (ret teco_state_start)))"

text \<open>Skipping to the end of a loop, of a conditional or of its else-part.\<close>

definition skip_loop_end :: "unit tm" where
  "skip_loop_end =
     bindM (gets (\<lambda>s. nest_level (ctx s))) (\<lambda>n.
       if n = 0 then set_mode TECO_MODE_NORMAL else set_nest_level (\<lambda>n. n - 1))"

definition start_else :: "unit tm" where
  "start_else =
     bindM (gets (\<lambda>s. nest_level (ctx s))) (\<lambda>n.
       set_flags (\<lambda>f.
         if mode f = TECO_MODE_PARSE_ONLY_COND \<and> n = 0 then f\<lparr>mode := TECO_MODE_NORMAL\<rparr>
         else if mode f = TECO_MODE_NORMAL then f\<lparr>mode := TECO_MODE_PARSE_ONLY_COND\<rparr>
         else f))"

definition start_endif :: "unit tm" where
  "start_endif =
     bindM (gets (\<lambda>s. mode (ctx_flags s))) (\<lambda>md.
       whenM (md = TECO_MODE_PARSE_ONLY_COND \<or> md = TECO_MODE_PARSE_ONLY_COND_FORCE) skip_loop_end)"

definition teco_state_start_input :: "env \<Rightarrow> unichar \<Rightarrow> teco_state tm" where
  "teco_state_start_input E chr =
     bindM (gets (\<lambda>s. s)) (\<lambda>s.
     let f = ctx_flags s; normal = (mode f = TECO_MODE_NORMAL);
         modified = (modifier_at f \<or> (normal \<and> 0 < modifier_colon f));
         transition = teco_machine_main_transition_input (start_transitions E) (teco_ascii_toupper chr)
     in
       if teco_is_noop chr then (if modified then throw (TECO_ERROR_MODIFIER chr) else ret teco_state_start)
       else if uc CHR ''0'' \<le> chr \<and> chr \<le> uc CHR ''9'' then
         (if modified then throw (TECO_ERROR_MODIFIER chr)
          else thenM (whenM normal (bindM get_radix (teco_expressions_add_digit chr))) (ret teco_state_start))
       else if chr = uc CHR ''*'' then
         (if cmdline_effective_len s = 1 \<and> take 1 (cmdline_str s) = ''*''
          then ret (Expect_qreg Q_save_cmdline) else transition)
       else if chr = uc CHR ''<'' then
         (if modifier_at f then throw (TECO_ERROR_MODIFIER chr)
          else if mode f \<noteq> TECO_MODE_PARSE_ONLY_LOOP then transition
          else thenM (set_nest_level (\<lambda>n. n + 1)) (ret teco_state_start))
       else if chr = uc CHR ''>'' then
         (if modifier_at f then throw (TECO_ERROR_MODIFIER chr)
          else if mode f \<noteq> TECO_MODE_PARSE_ONLY_LOOP then transition
          else thenM skip_loop_end (ret teco_state_start))
       else if chr = uc CHR ''|'' then
         (if modified then throw (TECO_ERROR_MODIFIER chr)
          else thenM start_else (ret teco_state_start))
       else if chr = uc CHR 0x27 then
         (if modified then throw (TECO_ERROR_MODIFIER chr)
          else thenM start_endif (ret teco_state_start))
       else if chr = uc CHR ''w'' \<or> chr = uc CHR ''W'' then words_command E (CB_words ''W'' 1)
       else if chr = uc CHR ''p'' \<or> chr = uc CHR ''P'' then words_command E (CB_words ''P'' (- 1))
       else if chr = uc CHR ''v'' \<or> chr = uc CHR ''V'' then words_command E (CB_delete_words ''V'' 1)
       else if chr = uc CHR ''y'' \<or> chr = uc CHR ''Y'' then words_command E (CB_delete_words ''Y'' (- 1))
       else if chr = uc CHR ''@'' then
         (if modifier_at f then throw (TECO_ERROR_MODIFIER chr)
          else thenM (set_flags (\<lambda>f. f\<lparr>modifier_at := True\<rparr>)) (ret teco_state_start))
       else if chr = uc CHR '':'' then
         (if \<not> normal then ret teco_state_start
          else if 2 \<le> modifier_colon f then throw (TECO_ERROR_MODIFIER chr)
          else thenM (set_flags (\<lambda>f. f\<lparr>modifier_colon := modifier_colon f + 1\<rparr>)) (ret teco_state_start))
       else if teco_is_ctl chr then teco_state_control_input E (teco_ctl_echo chr)
       else transition)"

section \<open>Returning\<close>

definition teco_return :: "teco_state tm" where
  "teco_return =
     bindM (gets (\<lambda>s. s)) (\<lambda>s.
       if \<not> executing s then throw G_assertion_failed
       else if frames s = [] \<and> (\<exists>r \<in> set_option (teco_qreg_current s). teco_string_cmp (snd r) [CHR 0x1B] = 0)
       then throw (TECO_ERROR_FAILED ''Not allowed to terminate command-line while editing command-line replacement register'')
       else return_error)"

definition teco_state_escape_input :: "env \<Rightarrow> unichar \<Rightarrow> teco_state tm" where
  "teco_state_escape_input E chr =
     bindM (gets executing) (\<lambda>normal.
       if chr = 0x1B \<or> chr = uc CHR ''$'' then (if normal then teco_return else ret teco_state_start)
       else thenM (whenM normal teco_expressions_discard_args) (teco_state_start_input E chr))"

definition teco_state_escape_end_of_macro :: "unit tm" where
  "teco_state_escape_end_of_macro = teco_expressions_discard_args"

definition teco_state_ctlc_control_input :: "env \<Rightarrow> unichar \<Rightarrow> teco_state tm" where
  "teco_state_ctlc_control_input E chr =
     bindM (gets executing) (\<lambda>normal.
       if chr = uc CHR ''c'' \<or> chr = uc CHR ''C'' then
         (if \<not> normal then ret teco_state_start
          else bindM (gets teco_undo_enabled) (\<lambda>undo.
            if undo then throw (TECO_ERROR_FAILED ''<^C^C> not allowed in interactive mode'')
            else thenM (teco_expressions_eval False)
              (thenM (modify (\<lambda>s. s\<lparr>teco_ed := teco_ed s OR TECO_ED_EXIT\<rparr>)) (throw TECO_ERROR_QUIT))))
       else if normal then teco_return
       else teco_state_control_input E chr)"

definition teco_state_ctlc_input :: "env \<Rightarrow> unichar \<Rightarrow> teco_state tm" where
  "teco_state_ctlc_input E chr =
     (if chr = teco_ctl_key (uc CHR ''C'') then teco_state_ctlc_control_input E (uc CHR ''C'')
      else if chr = uc CHR ''^'' then ret teco_state_ctlc_control
      else bindM (gets executing) (\<lambda>normal. if normal then teco_return else teco_state_start_input E chr))"

definition teco_state_ctlc_initial :: "unit tm" where
  "teco_state_ctlc_initial =
     bindM (gets frames) (\<lambda>fs.
       whenM (fs = []) (throw (TECO_ERROR_FAILED ''<^C> is not allowed to terminate command-lines'')))"

end
