(* ===== verification/Arguments.thy ===== *)
theory Arguments
  imports Core_Commands
begin

text \<open>
  Commands with a string argument (\<open>src/parser.c\<close>) or a Q-register argument
  (\<open>src/qreg-commands.c\<close>): the states that collect the argument with the nested parsers, and the
  callbacks that are run on it.
\<close>

section \<open>String arguments\<close>

fun sb_set_escape_char :: "unichar \<Rightarrow> sb_machine \<Rightarrow> sb_machine" where
  "sb_set_escape_char esc (SB st md _ cp code spec) = SB st md esc cp code spec"

fun sb_set_codepage :: "nat \<Rightarrow> sb_machine \<Rightarrow> sb_machine" where
  "sb_set_codepage cp (SB st md esc _ code spec) = SB st md esc cp code spec"

definition set_es_machine :: "(sb_machine \<Rightarrow> sb_machine) \<Rightarrow> unit tm" where
  "set_es_machine f = ctx_change (\<lambda>m. Undo_es_machine (es_machine m)) (\<lambda>m. m\<lparr>es_machine := f (es_machine m)\<rparr>)"

definition set_es_insert_len :: "(machine \<Rightarrow> nat) \<Rightarrow> unit tm" where
  "set_es_insert_len f =
     ctx_change (\<lambda>m. Undo_es_insert_len (es_insert_len m)) (\<lambda>m. m\<lparr>es_insert_len := f m\<rparr>)"

definition set_es_nesting :: "(int \<Rightarrow> int) \<Rightarrow> unit tm" where
  "set_es_nesting f = ctx_change (\<lambda>m. Undo_es_nesting (es_nesting m)) (\<lambda>m. m\<lparr>es_nesting := f (es_nesting m)\<rparr>)"

definition teco_machine_stringbuilding_set_codepage :: "nat \<Rightarrow> unit tm" where
  "teco_machine_stringbuilding_set_codepage cp = set_es_machine (sb_set_codepage cp)"

definition teco_state_expectstring_initial :: "unit tm" where
  "teco_state_expectstring_initial =
     bindM (gets executing) (\<lambda>normal.
     bindM (gets (\<lambda>s. teco_default_codepage (teco_ed s))) (\<lambda>cp.
       whenM normal (teco_machine_stringbuilding_set_codepage cp)))"

text \<open>
  The settings of the states: \<open>expectstring.last\<close>, \<open>expectstring.string_building\<close>, the states defined by
  \<open>TECO_DEFINE_STATE_EXPECTFILE\<close> and its derivatives, those without a \<open>process_cb\<close>, and the state
  that a \<open>done_cb\<close> returns when nothing is executed.
\<close>

definition expectstring_last :: "string_state \<Rightarrow> bool" where
  "expectstring_last st \<longleftrightarrow>
     st \<notin> {E_glob_pattern, E_replace, E_replace_default, E_replace_default_all, E_scintilla_symbols}"

definition expectstring_building :: "string_state \<Rightarrow> bool" where
  "expectstring_building st \<longleftrightarrow> st \<notin> {E_setqregstring_nobuilding, E_help}"

definition expectfile :: "string_state \<Rightarrow> bool" where
  "expectfile st \<longleftrightarrow> st \<in> {E_changedir, E_loadqreg, E_saveqreg, E_indirect, E_glob_pattern,
     E_glob_filename, E_edit_file, E_save_file, E_read_file}"

definition no_process :: "string_state \<Rightarrow> bool" where
  "no_process st \<longleftrightarrow> st \<in> {E_setqregstring_nobuilding, E_setqregstring_building, E_goto, E_help, E_execute,
     E_print_string, E_scintilla_symbols, E_scintilla_lparam, E_replace_ignore, E_replace_default_ignore}"

definition parse_only_next :: "string_state \<Rightarrow> teco_state" where
  "parse_only_next st =
     (case st of
        E_glob_pattern \<Rightarrow> Expect_string E_glob_filename
      | E_replace \<Rightarrow> Expect_string E_replace_ignore
      | E_replace_default \<Rightarrow> Expect_string E_replace_default_ignore
      | E_replace_default_all \<Rightarrow> Expect_string E_replace_default_ignore
      | E_scintilla_symbols \<Rightarrow> Expect_string E_scintilla_lparam
      | _ \<Rightarrow> teco_state_start)"

definition teco_state_expectfile_process :: "string \<Rightarrow> nat \<Rightarrow> unit tm" where
  "teco_state_expectfile_process str new_chars =
     whenM (CHR 0x00 \<in> set (drop (length str - new_chars) str))
       (throw (TECO_ERROR_FAILED ''Null-character not allowed in filenames''))"

definition expectstring_process :: "env \<Rightarrow> string_state \<Rightarrow> string \<Rightarrow> nat \<Rightarrow> unit tm" where
  "expectstring_process E st str new_chars =
     (if no_process st then ret ()
      else if expectfile st then teco_state_expectfile_process str new_chars
      else env_process E st str new_chars)"

text \<open>\<open>process_cb\<close> on the characters that were added since its last call.\<close>

definition process_new :: "env \<Rightarrow> string_state \<Rightarrow> unit tm" where
  "process_new E st =
     bindM (gets ctx) (\<lambda>m.
       whenM (es_insert_len m \<noteq> 0) (expectstring_process E st (es_string m) (es_insert_len m)))"

text \<open>The escape character, or the braces that nest, at the top level of the argument.\<close>

definition count_nesting :: "env \<Rightarrow> unichar \<Rightarrow> unit tm" where
  "count_nesting E chr =
     bindM (gets (\<lambda>s. es_machine (ctx s))) (\<lambda>sb.
       whenM (sb_current sb = SB_start)
         (if sb_escape_char sb = uc CHR ''{'' then
            (if chr = uc CHR ''{'' then set_es_nesting (\<lambda>n. n + 1)
             else whenM (chr = uc CHR ''}'') (set_es_nesting (\<lambda>n. n - 1)))
          else whenM (g_unichar_toupper (env_glib E) chr = sb_escape_char sb) (set_es_nesting (\<lambda>n. n - 1))))"

text \<open>
  The end of the argument. The state of the argument parser is reset even when \<open>done_cb\<close> has
  failed, whose error is returned last.
\<close>

definition expectstring_finish :: "env \<Rightarrow> (string \<Rightarrow> teco_state tm) \<Rightarrow> string_state \<Rightarrow> teco_state tm" where
  "expectstring_finish E done_cb st =
     thenM (process_new E st)
    (bindM (gets (\<lambda>s. es_string (ctx s))) (\<lambda>str.
     bindM (attempt (done_cb str)) (\<lambda>next.
     thenM (ctx_change (\<lambda>m. Undo_es_string (es_string m)) (\<lambda>m. m\<lparr>es_string := []\<rparr>))
    (thenM (if expectstring_last st then set_es_machine (sb_set_escape_char 0x1B)
            else bindM (gets (\<lambda>s. sb_escape_char (es_machine (ctx s)))) (\<lambda>esc.
              whenM (esc = uc CHR ''{'') (set_flags (\<lambda>f. f\<lparr>modifier_at := True\<rparr>))))
    (thenM (modify (ctx_update (\<lambda>m. m\<lparr>es_nesting := 1\<rparr>)))
    (thenM (whenM (expectstring_building st) (set_es_machine teco_machine_stringbuilding_reset))
    (thenM (set_es_insert_len (\<lambda>_. 0))
       (case next of Inl e \<Rightarrow> throw e | Inr n \<Rightarrow> ret n))))))))"

text \<open>Any other character, with the length of the string before.\<close>

definition expectstring_append :: "env \<Rightarrow> string_state \<Rightarrow> unichar \<Rightarrow> unit tm" where
  "expectstring_append E st chr =
     bindM (gets executing) (\<lambda>normal.
     bindM (gets ctx) (\<lambda>m.
     bindM (gets (registers_of (qreg_table_locals m))) (\<lambda>R.
     thenM (push_if (normal \<and> must_undo m) (Undo_es_truncate (length (es_string m))))
    (thenM
      (if expectstring_building st then
         (case teco_machine_stringbuilding_input (env_glib E) R (es_machine m) chr
             (if normal then Some (es_string m) else None) of
            Inl e \<Rightarrow> throw e
          | Inr (sb, str) \<Rightarrow>
              thenM (set_es_machine (\<lambda>_. sb))
                (modify (ctx_update (\<lambda>m. m\<lparr>es_string := (case str of None \<Rightarrow> es_string m | Some x \<Rightarrow> x)\<rparr>))))
       else whenM normal
         (modify (ctx_update (\<lambda>m. m\<lparr>es_string := teco_string_append_wc (env_glib E) (es_string m) chr\<rparr>))))
      (set_es_insert_len (\<lambda>m'. es_insert_len m' + (length (es_string m') - length (es_string m))))))))"

definition teco_state_expectstring_input ::
  "env \<Rightarrow> (string \<Rightarrow> teco_state tm) \<Rightarrow> string_state \<Rightarrow> unichar \<Rightarrow> teco_state tm" where
  "teco_state_expectstring_input E done_cb st chr =
     bindM (gets ctx_flags) (\<lambda>f.
       if modifier_at f \<and> teco_is_noop chr then ret (Expect_string st)
       else bindM teco_machine_main_eval_at (\<lambda>at.
         if at then
           thenM (set_es_machine (sb_set_escape_char (g_unichar_toupper (env_glib E) chr)))
             (ret (Expect_string st))
         else
           thenM (count_nesting E chr)
          (bindM (gets (\<lambda>s. es_nesting (ctx s))) (\<lambda>n.
             if n = 0 then expectstring_finish E done_cb st
             else thenM (expectstring_append E st chr) (ret (Expect_string st))))))"

definition teco_state_expectstring_refresh :: "env \<Rightarrow> string_state \<Rightarrow> unit tm" where
  "teco_state_expectstring_refresh E st = thenM (process_new E st) (set_es_insert_len (\<lambda>_. 0))"

section \<open>Register arguments\<close>

text \<open>
  A pending specification: its machine is allocated when the state is entered and freed by the
  callback that has used the register. The pointer is \<open>NULL\<close> before; its undo token restores that.
\<close>

definition set_expectqreg :: "qs_machine option \<Rightarrow> unit tm" where
  "set_expectqreg q = ctx_change (\<lambda>m. Undo_expectqreg (expectqreg m)) (\<lambda>m. m\<lparr>expectqreg := q\<rparr>)"

abbreviation teco_state_expectqreg_reset :: "unit tm" where
  "teco_state_expectqreg_reset \<equiv> set_expectqreg None"

definition expectqreg_type :: "qreg_state \<Rightarrow> qreg_type" where
  "expectqreg_type st =
     (if st \<in> {Q_popqreg, Q_eqcommand, Q_ctlucommand, Q_eucommand, Q_setqreginteger, Q_increaseqreg,
        Q_copytoqreg, Q_egcommand, Q_save_cmdline}
      then TECO_QREG_OPTIONAL_INIT else TECO_QREG_REQUIRED)"

definition new_qregspec :: "qreg_type \<Rightarrow> unit tm" where
  "new_qregspec type =
     bindM (gets (\<lambda>s. registers_of (qreg_table_locals (ctx s)) s)) (\<lambda>R.
       set_expectqreg (Some (teco_machine_qregspec_new type R)))"

definition teco_state_expectqreg_initial :: "qreg_state \<Rightarrow> unit tm" where
  "teco_state_expectqreg_initial st = new_qregspec (expectqreg_type st)"

definition teco_state_queryqreg_initial :: "unit tm" where
  "teco_state_queryqreg_initial =
     bindM (gets ctx_flags) (\<lambda>f.
       new_qregspec (if 0 < modifier_colon f then TECO_QREG_OPTIONAL else TECO_QREG_REQUIRED))"

text \<open>The table and the name a specification stands for, and the register it denotes.\<close>

definition spec_ref :: "qs_machine \<Rightarrow> teco \<Rightarrow> qreg_ref" where
  "spec_ref q s = (if qs_local q then Locals (qreg_table_locals (ctx s)) else Globals, qs_name q)"

definition teco_machine_qregspec_get_results :: "teco \<Rightarrow> qreg_ref option" where
  "teco_machine_qregspec_get_results s =
     (case expectqreg (ctx s) of None \<Rightarrow> None
      | Some q \<Rightarrow> teco_qreg_table_find (fst (spec_ref q s)) (snd (spec_ref q s)) s)"

definition teco_state_expectqreg_input ::
  "env \<Rightarrow> (qreg_ref option \<Rightarrow> teco_state tm) \<Rightarrow> qreg_state \<Rightarrow> unichar \<Rightarrow> teco_state tm" where
  "teco_state_expectqreg_input E got_register_cb st chr =
     bindM (gets executing) (\<lambda>normal.
     bindM (gets ctx) (\<lambda>m.
     bindM (gets (registers_of (qreg_table_locals m))) (\<lambda>R.
       case expectqreg m of
         None \<Rightarrow> throw G_assertion_failed
       | Some q \<Rightarrow>
           (case teco_machine_qregspec_input (env_glib E) R q chr (\<not> normal) of
              Inl e \<Rightarrow> throw e
            | Inr (q', reg) \<Rightarrow>
                thenM (set_expectqreg (Some q'))
               (if qs_current q' \<noteq> QS_start then ret (Expect_qreg st)
                else if normal \<and> reg = None \<and> qs_type q' = TECO_QREG_OPTIONAL_INIT then
                  bindM (gets (spec_ref q')) (\<lambda>r. thenM (create_qreg r) (got_register_cb (Some r)))
                else got_register_cb reg)))))"

end
