(* ===== verification/Qreg_Commands.thy ===== *)
theory Qreg_Commands
  imports Arguments
begin

text \<open>
  The callbacks on completed arguments (\<open>src/qreg-commands.c\<close>, \<open>src/search.c\<close>, \<open>src/cmdline.c\<close>), the
  print commands (\<open>src/stdio-commands.c\<close>) and the settings of the states. Executing a macro is a
  parameter \<open>exec\<close> here, a program for the macro's text and its table of local registers; theory
  \<open>Interpreter\<close> supplies it.
\<close>

section \<open>Helpers\<close>

text \<open>\<open>if (ctx->flags.mode > TECO_MODE_NORMAL) return next;\<close>\<close>

definition when_executing :: "teco_state \<Rightarrow> teco_state tm \<Rightarrow> teco_state tm" where
  "when_executing next m = bindM (gets executing) (\<lambda>b. if b then m else ret next)"

text \<open>Using a register pointer.\<close>

definition with_qreg :: "qreg_ref option \<Rightarrow> (qreg_ref \<Rightarrow> 'a tm) \<Rightarrow> 'a tm" where
  "with_qreg reg f = (case reg of None \<Rightarrow> throw G_assertion_failed | Some r \<Rightarrow> f r)"

definition num_sign :: "teco \<Rightarrow> teco_int" where
  "num_sign s = word_of_int (teco_num_sign s)"

section \<open>Macros\<close>

type_synonym executor = "string \<Rightarrow> locals_ref \<Rightarrow> unit tm"

definition teco_qreg_execute :: "executor \<Rightarrow> qreg_ref \<Rightarrow> locals_ref \<Rightarrow> unit tm" where
  "teco_qreg_execute exec q l = bindM (qreg_get_string q) (\<lambda>macro. exec macro l)"

text \<open>A new table of local registers that is freed when the block it is declared in is left.\<close>

definition with_macro_locals :: "(locals_ref \<Rightarrow> 'a tm) \<Rightarrow> 'a tm" where
  "with_macro_locals m = (\<lambda>s.
     let i = length (macro_locals s);
         (r, s') = m (Macro_locals i) (s\<lparr>macro_locals := macro_locals s @ [teco_qreg_table_init_locals]\<rparr>)
     in (r, s'\<lparr>macro_locals := take i (macro_locals s')\<rparr>))"

definition teco_state_macro_got_register :: "executor \<Rightarrow> qreg_ref option \<Rightarrow> teco_state tm" where
  "teco_state_macro_got_register exec reg =
     thenM teco_state_expectqreg_reset
    (when_executing teco_state_start (with_qreg reg (\<lambda>q.
       bindM teco_machine_main_eval_colon (\<lambda>colon.
         thenM
          (if 0 < colon then bindM (gets (\<lambda>s. qreg_table_locals (ctx s))) (teco_qreg_execute exec q)
           else with_macro_locals (\<lambda>l.
             thenM (teco_qreg_execute exec q l)
              (bindM (gets teco_qreg_current) (\<lambda>cur.
                 case cur of None \<Rightarrow> ret ()
                 | Some r \<Rightarrow> whenM (fst r = Locals l) (throw (TECO_ERROR_EDITINGLOCALQREG (snd r)))))))
          (ret teco_state_start)))))"

text \<open>
  \<open>teco_execute_file\<close>: a hash-bang line is skipped. \<open>strpbrk\<close> ends at a null byte, and a first
  line without an end is an empty script (\<open>None\<close>).
\<close>

definition hash_bang :: "string \<Rightarrow> string option" where
  "hash_bang macro =
     (if take 1 macro = ''#'' then
        (let p = dropWhile (\<lambda>c. c \<noteq> CHR 0x0D \<and> c \<noteq> CHR 0x0A \<and> c \<noteq> CHR 0x00) macro in
         if p = [] \<or> hd p = CHR 0x00 then None else Some (tl p))
      else Some macro)"

definition teco_execute_file :: "env \<Rightarrow> executor \<Rightarrow> string \<Rightarrow> locals_ref \<Rightarrow> unit tm" where
  "teco_execute_file E exec filename l =
     bindM (gets (\<lambda>s. env_file_contents E s filename)) (\<lambda>contents.
       case contents of
         Inl e \<Rightarrow> throw e
       | Inr macro \<Rightarrow> (case hash_bang macro of None \<Rightarrow> ret () | Some p \<Rightarrow> exec p l))"

definition teco_state_indirect_done :: "env \<Rightarrow> executor \<Rightarrow> string \<Rightarrow> teco_state tm" where
  "teco_state_indirect_done E exec str =
     when_executing teco_state_start
      (bindM teco_machine_main_eval_colon (\<lambda>colon.
         thenM
          (if 0 < colon then bindM (gets (\<lambda>s. qreg_table_locals (ctx s))) (teco_execute_file E exec str)
           else with_macro_locals (teco_execute_file E exec str))
          (ret teco_state_start)))"

section \<open>Integers of registers\<close>

definition teco_state_queryqreg_got_register :: "env \<Rightarrow> qreg_ref option \<Rightarrow> teco_state tm" where
  "teco_state_queryqreg_got_register E reg =
     thenM teco_state_expectqreg_reset
    (when_executing teco_state_start
      (thenM (teco_expressions_eval False)
      (bindM teco_machine_main_eval_colon (\<lambda>colon.
       bindM (gets teco_expressions_args) (\<lambda>args.
         thenM
          (if 0 < colon then
             (case reg of
                None \<Rightarrow> teco_expressions_push_int (- 1)
              | Some q \<Rightarrow> bindM (qreg_get_string q) (\<lambda>str. teco_expressions_push_int (env_qreg_length E str)))
           else with_qreg reg (\<lambda>q.
             if 0 < args then
               bindM (teco_expressions_pop_num 0) (\<lambda>pos.
                 if sint pos < 0 then throw (TECO_ERROR_RANGE ''Q'')
                 else bindM (qreg_get_string q) (\<lambda>str.
                   teco_expressions_push_int (env_qreg_character E str pos)))
             else bindM (qreg_get_integer q) teco_expressions_push_int))
          (ret teco_state_start))))))"

definition teco_state_setqreginteger_got_register :: "qreg_ref option \<Rightarrow> teco_state tm" where
  "teco_state_setqreginteger_got_register reg =
     thenM teco_state_expectqreg_reset
    (when_executing teco_state_start (with_qreg reg (\<lambda>q.
       thenM (teco_expressions_eval False)
      (bindM (gets (\<lambda>s. 0 < teco_expressions_args s \<or> teco_num_sign s < 0)) (\<lambda>given.
         thenM
          (if given then
             bindM (gets num_sign) (\<lambda>sign.
             bindM (teco_expressions_pop_num_calc sign) (\<lambda>v.
             thenM (qreg_undo_set_integer q)
            (thenM (qreg_set_integer q v)
            (bindM teco_machine_main_eval_colon (\<lambda>colon.
               whenM (0 < colon) (teco_expressions_push_int TECO_SUCCESS))))))
           else
             bindM teco_machine_main_eval_colon (\<lambda>colon.
               if 0 < colon then teco_expressions_push_int TECO_FAILURE
               else throw (TECO_ERROR_ARGEXPECTED ''U'')))
          (ret teco_state_start))))))"

definition teco_state_increaseqreg_got_register :: "qreg_ref option \<Rightarrow> teco_state tm" where
  "teco_state_increaseqreg_got_register reg =
     thenM teco_state_expectqreg_reset
    (when_executing teco_state_start (with_qreg reg (\<lambda>q.
       thenM (qreg_undo_set_integer q)
      (bindM (qreg_get_integer q) (\<lambda>value.
       bindM (gets num_sign) (\<lambda>sign.
       bindM (teco_expressions_pop_num_calc sign) (\<lambda>add.
       thenM (qreg_set_integer q (value + add))
      (thenM (teco_expressions_push_int (value + add)) (ret teco_state_start)))))))))"

section \<open>The register stack\<close>

definition teco_state_pushqreg_got_register :: "qreg_ref option \<Rightarrow> teco_state tm" where
  "teco_state_pushqreg_got_register reg =
     thenM teco_state_expectqreg_reset
    (when_executing teco_state_start
      (with_qreg reg (\<lambda>q. thenM (teco_qreg_stack_push q) (ret teco_state_start))))"

definition teco_state_popqreg_got_register :: "qreg_ref option \<Rightarrow> teco_state tm" where
  "teco_state_popqreg_got_register reg =
     thenM teco_state_expectqreg_reset
    (when_executing teco_state_start (with_qreg reg (\<lambda>q.
       bindM teco_machine_main_eval_colon (\<lambda>colon.
         thenM
          (if colon = 0 then teco_qreg_stack_pop q
           else bindM (attempt (teco_qreg_stack_pop q)) (\<lambda>r. teco_expressions_push_int (teco_bool (\<not> isl r))))
          (ret teco_state_start)))))"

section \<open>Strings of registers\<close>

text \<open>The characters given as arguments of \<open>^U\<close> and \<open>EU\<close>, in an 8-bit encoding and in UTF-8.\<close>

fun pop_bytes :: "nat \<Rightarrow> string \<Rightarrow> string tm" where
  "pop_bytes 0 buffer = ret buffer"
| "pop_bytes (Suc n) buffer =
     bindM (teco_expressions_pop_num 0) (\<lambda>chr.
       if sint chr < 0 \<or> 0xFF < sint chr then throw (TECO_ERROR_CODEPOINT ''^U'')
       else pop_bytes n (char_of (unat chr) # buffer))"

definition pop_chars :: "env \<Rightarrow> nat \<Rightarrow> nat \<Rightarrow> string tm" where
  "pop_chars E codepage args =
     (if codepage = SC_CP_UTF8 then
        bindM (gets (\<lambda>s. map (teco_expressions_peek_num s) (rev [0..<args]))) (\<lambda>chrs.
          if \<exists>chr \<in> set chrs. sint chr < 0 \<or> \<not> g_unichar_validate (env_glib E) (ucast chr)
          then throw (TECO_ERROR_CODEPOINT ''^U'')
          else thenM (pop_args args [])
            (ret (concat (map (\<lambda>chr. g_unichar_to_utf8 (env_glib E) (ucast chr)) chrs))))
      else pop_bytes args [])"

definition replace_string :: "qreg_ref \<Rightarrow> string \<Rightarrow> unit tm" where
  "replace_string q str = thenM (qreg_undo_set_string q) (qreg_set_string q str)"

definition teco_state_setqregstring_nobuilding_done :: "env \<Rightarrow> string \<Rightarrow> teco_state tm" where
  "teco_state_setqregstring_nobuilding_done E str =
     bindM (gets teco_machine_qregspec_get_results) (\<lambda>reg.
     thenM teco_state_expectqreg_reset
    (when_executing teco_state_start (with_qreg reg (\<lambda>q.
       bindM teco_machine_main_eval_colon (\<lambda>colon.
       thenM (teco_expressions_eval False)
      (bindM (gets teco_expressions_args) (\<lambda>args.
       bindM (gets (\<lambda>s. if 0 < colon then env_qreg_codepage E s q else teco_default_codepage (teco_ed s))) (\<lambda>codepage.
         thenM
          (whenM (0 < args)
            (bindM (pop_chars E codepage args) (\<lambda>buffer.
               if 0 < colon then qreg_append_string q buffer else replace_string q buffer)))
        (thenM
          (if 0 < args \<or> 0 < colon then qreg_append_string q str else replace_string q str)
          (ret teco_state_start))))))))))"

definition teco_state_setqregstring_building_initial :: "env \<Rightarrow> unit tm" where
  "teco_state_setqregstring_building_initial E =
     bindM (gets executing) (\<lambda>b. whenM b
      (bindM (gets teco_machine_qregspec_get_results) (\<lambda>reg. with_qreg reg (\<lambda>q.
       bindM (gets (\<lambda>s. env_qreg_codepage E s q)) teco_machine_stringbuilding_set_codepage))))"

definition teco_state_save_cmdline_got_register :: "env \<Rightarrow> qreg_ref option \<Rightarrow> teco_state tm" where
  "teco_state_save_cmdline_got_register E reg =
     thenM teco_state_expectqreg_reset
    (when_executing teco_state_start (with_qreg reg (\<lambda>q.
       bindM (gets (env_last_cmdline E)) (\<lambda>str. thenM (replace_string q str) (ret teco_state_start)))))"

definition teco_state_replace_default_ignore_done :: "string \<Rightarrow> teco_state tm" where
  "teco_state_replace_default_ignore_done str =
     when_executing teco_state_start
       (thenM (whenM (str \<noteq> []) (replace_string (Globals, ''-'') str)) (ret teco_state_start))"

section \<open>Printing\<close>

text \<open>
  \<open>teco_print\<close> without the message it shows: \<open>is_executing\<close> says that the number was printed when
  the state was entered, at the end of the command line.
\<close>

definition teco_cmdline_is_executing :: "teco \<Rightarrow> bool" where
  "teco_cmdline_is_executing s \<longleftrightarrow> frames s = [] \<and> macro_pc (ctx s) = cmdline_effective_len s"

definition teco_print :: "unit tm" where
  "teco_print =
     thenM (teco_expressions_eval False)
    (bindM (gets teco_expressions_args) (\<lambda>n.
       if n = 0 then throw (TECO_ERROR_ARGEXPECTED ''='')
       else bindM teco_machine_main_eval_colon (\<lambda>_. ret ())))"

definition teco_state_print_initial :: "unit tm" where
  "teco_state_print_initial =
     bindM (gets executing) (\<lambda>b. whenM b
      (thenM (modify (\<lambda>s. s\<lparr>is_executing := teco_cmdline_is_executing s\<rparr>))
      (bindM (gets is_executing) (\<lambda>now. whenM now teco_print))))"

definition print_and_pop :: "unit tm" where
  "print_and_pop =
     bindM (gets is_executing) (\<lambda>printed.
       thenM (whenM (\<not> printed) teco_print) (thenM (teco_expressions_pop_num 0) (ret ())))"

definition teco_state_print_decimal_input :: "env \<Rightarrow> unichar \<Rightarrow> teco_state tm" where
  "teco_state_print_decimal_input E chr =
     (if chr = uc CHR ''='' then ret teco_state_print_octal
      else bindM (gets executing) (\<lambda>b. thenM (whenM b print_and_pop) (teco_state_start_input E chr)))"

definition teco_state_print_octal_input :: "env \<Rightarrow> unichar \<Rightarrow> teco_state tm" where
  "teco_state_print_octal_input E chr =
     bindM (gets executing) (\<lambda>b.
       if chr = uc CHR ''='' then
         thenM (whenM b (thenM teco_print (thenM (teco_expressions_pop_num 0) (ret ())))) (ret teco_state_start)
       else thenM (whenM b print_and_pop) (teco_state_start_input E chr))"

definition teco_state_print_end_of_macro :: "unit tm" where
  "teco_state_print_end_of_macro =
     bindM (gets (\<lambda>s. executing s \<and> \<not> is_executing s)) (\<lambda>b. whenM b print_and_pop)"

text \<open>\<open>^A\<close> has its own terminator.\<close>

definition teco_state_print_string_initial :: "unit tm" where
  "teco_state_print_string_initial =
     thenM (set_es_machine (sb_set_escape_char (teco_ctl_key (uc CHR ''A''))))
    (bindM (gets executing) (\<lambda>b. whenM b
      (bindM teco_machine_main_eval_colon (\<lambda>colon.
       bindM (gets (\<lambda>s. if 0 < colon then 0 else teco_default_codepage (teco_ed s)))
         teco_machine_stringbuilding_set_codepage))))"

section \<open>Dispatch\<close>

definition got_register :: "env \<Rightarrow> executor \<Rightarrow> qreg_state \<Rightarrow> qreg_ref option \<Rightarrow> teco_state tm" where
  "got_register E exec st reg =
     (case st of
        Q_pushqreg \<Rightarrow> teco_state_pushqreg_got_register reg
      | Q_popqreg \<Rightarrow> teco_state_popqreg_got_register reg
      | Q_eqcommand \<Rightarrow> ret (Expect_string E_loadqreg)
      | Q_epctcommand \<Rightarrow> ret (Expect_string E_saveqreg)
      | Q_queryqreg \<Rightarrow> teco_state_queryqreg_got_register E reg
      | Q_ctlucommand \<Rightarrow> ret (Expect_string E_setqregstring_nobuilding)
      | Q_eucommand \<Rightarrow> ret (Expect_string E_setqregstring_building)
      | Q_getqregstring \<Rightarrow>
          thenM teco_state_expectqreg_reset (when_executing teco_state_start (env_got_register E st reg))
      | Q_setqreginteger \<Rightarrow> teco_state_setqreginteger_got_register reg
      | Q_increaseqreg \<Rightarrow> teco_state_increaseqreg_got_register reg
      | Q_macro \<Rightarrow> teco_state_macro_got_register exec reg
      | Q_copytoqreg \<Rightarrow>
          thenM teco_state_expectqreg_reset
         (bindM teco_machine_main_eval_at (\<lambda>_.
            when_executing teco_state_start (env_got_register E st reg)))
      | Q_egcommand \<Rightarrow>
          thenM teco_state_expectqreg_reset
           (when_executing (Expect_string E_execute) (env_got_register E st reg))
      | Q_save_cmdline \<Rightarrow> teco_state_save_cmdline_got_register E reg)"

definition expectstring_done :: "env \<Rightarrow> executor \<Rightarrow> string_state \<Rightarrow> string \<Rightarrow> teco_state tm" where
  "expectstring_done E exec st str =
     (case st of
        E_goto \<Rightarrow> teco_state_goto_done str
      | E_indirect \<Rightarrow> teco_state_indirect_done E exec str
      | E_setqregstring_nobuilding \<Rightarrow> teco_state_setqregstring_nobuilding_done E str
      | E_setqregstring_building \<Rightarrow> teco_state_setqregstring_nobuilding_done E str
      | E_replace_ignore \<Rightarrow> ret teco_state_start
      | E_replace_default_ignore \<Rightarrow> teco_state_replace_default_ignore_done str
      | E_print_string \<Rightarrow> ret teco_state_start
      | _ \<Rightarrow>
          if st = E_loadqreg \<or> st = E_saveqreg then
            bindM (gets teco_machine_qregspec_get_results) (\<lambda>reg.
              thenM teco_state_expectqreg_reset
               (when_executing teco_state_start (env_done_qreg E st reg str)))
          else when_executing (parse_only_next st) (env_done E st str))"

definition expectstring_initial :: "env \<Rightarrow> string_state \<Rightarrow> unit tm" where
  "expectstring_initial E st =
     (if st = E_setqregstring_building then teco_state_setqregstring_building_initial E
      else if st = E_print_string then teco_state_print_string_initial
      else if st = E_replace_default_insert then ret ()
      else if st \<in> {E_changedir, E_loadqreg, E_saveqreg, E_setqregstring_nobuilding, E_indirect, E_goto,
        E_glob_pattern, E_glob_filename, E_save_file, E_read_file, E_replace_ignore,
        E_replace_default_ignore, E_scintilla_symbols, E_scintilla_lparam}
      then teco_state_expectstring_initial
      else bindM (gets executing) (\<lambda>b. whenM b (env_initial E st)))"

text \<open>The \<open>initial_cb\<close>, \<open>input_cb\<close>, \<open>refresh_cb\<close> and \<open>end_of_macro_cb\<close> of every state.\<close>

definition state_initial :: "env \<Rightarrow> teco_state \<Rightarrow> unit tm" where
  "state_initial E st =
     (case st of
        Expect_qreg q \<Rightarrow> if q = Q_queryqreg then teco_state_queryqreg_initial else teco_state_expectqreg_initial q
      | Expect_string e \<Rightarrow> expectstring_initial E e
      | teco_state_ctlc \<Rightarrow> teco_state_ctlc_initial
      | teco_state_print_decimal \<Rightarrow> teco_state_print_initial
      | teco_state_print_octal \<Rightarrow> teco_state_print_initial
      | _ \<Rightarrow> ret ())"

definition state_input :: "env \<Rightarrow> executor \<Rightarrow> teco_state \<Rightarrow> unichar \<Rightarrow> teco_state tm" where
  "state_input E exec st chr =
     (case st of
        teco_state_start \<Rightarrow> teco_state_start_input E chr
      | teco_state_fcommand \<Rightarrow> teco_state_fcommand_input chr
      | teco_state_condcommand \<Rightarrow> teco_state_condcommand_input E chr
      | teco_state_control \<Rightarrow> teco_state_control_input E chr
      | teco_state_ascii \<Rightarrow> teco_state_ascii_input chr
      | teco_state_escape \<Rightarrow> teco_state_escape_input E chr
      | teco_state_ctlc \<Rightarrow> teco_state_ctlc_input E chr
      | teco_state_ctlc_control \<Rightarrow> teco_state_ctlc_control_input E chr
      | teco_state_ecommand \<Rightarrow> teco_state_ecommand_input E chr
      | teco_state_label \<Rightarrow> teco_state_label_input E chr
      | teco_state_blockcomment \<Rightarrow> teco_state_blockcomment_input chr
      | teco_state_blockcomment_star \<Rightarrow> teco_state_blockcomment_star_input chr
      | teco_state_eolcomment \<Rightarrow> teco_state_eolcomment_input chr
      | teco_state_print_decimal \<Rightarrow> teco_state_print_decimal_input E chr
      | teco_state_print_octal \<Rightarrow> teco_state_print_octal_input E chr
      | Expect_qreg q \<Rightarrow> teco_state_expectqreg_input E (got_register E exec q) q chr
      | Expect_string e \<Rightarrow> teco_state_expectstring_input E (expectstring_done E exec e) e chr)"

definition state_refresh :: "env \<Rightarrow> teco_state \<Rightarrow> unit tm" where
  "state_refresh E st =
     (case st of Expect_string e \<Rightarrow> teco_state_expectstring_refresh E e | _ \<Rightarrow> ret ())"

definition teco_state_end_of_macro :: "teco_state \<Rightarrow> unit tm" where
  "teco_state_end_of_macro st =
     (case st of
        teco_state_start \<Rightarrow> ret ()
      | teco_state_ctlc \<Rightarrow> ret ()
      | teco_state_escape \<Rightarrow> teco_state_escape_end_of_macro
      | teco_state_print_decimal \<Rightarrow> teco_state_print_end_of_macro
      | teco_state_print_octal \<Rightarrow> teco_state_print_end_of_macro
      | _ \<Rightarrow> throw TECO_ERROR_UNTERMINATED)"

end
