(* ===== verification/Interpreter.thy ===== *)
theory Interpreter
  imports Qreg_Commands
begin

text \<open>
  The interpreter's loop (\<open>src/parser.c\<close>): one input character, the execution of a macro up to a
  position, and macro invocations with their frames. A macro may run forever, so the loops take a
  number of steps they may make, which also bounds the depth of invocations; running out of
  it is the error \<open>Out_of_fuel\<close>, which nothing catches.
\<close>

section \<open>One character\<close>

definition teco_machine_input :: "env \<Rightarrow> executor \<Rightarrow> unichar \<Rightarrow> unit tm" where
  "teco_machine_input E exec chr =
     bindM (gets (\<lambda>s. current (ctx s))) (\<lambda>st.
     bindM (state_input E exec st chr) (\<lambda>next.
     bindM (gets (\<lambda>s. current (ctx s))) (\<lambda>cur.
       whenM (next \<noteq> cur)
        (thenM (ctx_change (\<lambda>m. Undo_current (current m)) (\<lambda>m. m\<lparr>current := next\<rparr>))
           (state_initial E next)))))"

section \<open>Executing up to a position\<close>

definition fetch :: "env \<Rightarrow> string \<Rightarrow> unichar tm" where
  "fetch E macro =
     bindM (gets (\<lambda>s. s)) (\<lambda>s.
       let rest = drop (macro_pc (ctx s)) macro in
       if env_interrupted E s then throw TECO_ERROR_INTERRUPTED
       else if env_memory_exceeded E s then throw TECO_ERROR_MEMLIMIT
       else thenM (set_macro_pc (macro_pc (ctx s) + Suc (g_utf8_cont (env_glib E) (hd rest))))
         (ret (g_utf8_get_char (env_glib E) rest)))"

fun step_loop :: "env \<Rightarrow> executor \<Rightarrow> nat \<Rightarrow> string \<Rightarrow> nat \<Rightarrow> unit tm" where
  "step_loop E exec 0 macro stop =
     bindM (gets (\<lambda>s. macro_pc (ctx s))) (\<lambda>pc. whenM (pc < stop) (throw Out_of_fuel))"
| "step_loop E exec (Suc n) macro stop =
     bindM (gets (\<lambda>s. macro_pc (ctx s))) (\<lambda>pc.
       whenM (pc < stop)
        (bindM (fetch E macro) (\<lambda>chr.
           thenM (teco_machine_input E exec chr) (step_loop E exec n macro stop))))"

declare step_loop.simps [simp del]

definition teco_machine_main_step :: "env \<Rightarrow> executor \<Rightarrow> nat \<Rightarrow> string \<Rightarrow> nat \<Rightarrow> unit tm" where
  "teco_machine_main_step E exec n macro stop =
     thenM (step_loop E exec n macro stop) (bindM (gets (\<lambda>s. current (ctx s))) (state_refresh E))"

section \<open>Macro invocations\<close>

definition with_frame :: "machine \<Rightarrow> unit tm \<Rightarrow> unit tm" where
  "with_frame m body = (\<lambda>s.
     let (r, s') = body (s\<lparr>frames := m # frames s\<rparr>) in (r, s'\<lparr>frames := tl (frames s')\<rparr>))"

text \<open>The labels \<open>error_attach\<close> and \<open>error_cleanup\<close>: no label is looked for any more.\<close>

definition error_cleanup :: "unit tm \<Rightarrow> unit tm" where
  "error_cleanup m = (\<lambda>s. case m s of
     (Inl e, s') \<Rightarrow> (Inl e, s'\<lparr>teco_goto_skip_label := truncated (teco_goto_skip_label s') 0\<rparr>)
   | (Inr x, s') \<Rightarrow> (Inr x, s'))"

text \<open>
  The error \<open>TECO_ERROR_RETURN\<close> is a regular end of the macro: its arguments are returned from all
  braces opened since, and its loops are dropped.
\<close>

definition catch_return :: "nat \<Rightarrow> unit tm \<Rightarrow> unit tm" where
  "catch_return parent_brace_level m =
     bindM (attempt m) (\<lambda>r.
       case r of
         Inr _ \<Rightarrow> ret ()
       | Inl e \<Rightarrow>
           if e \<noteq> TECO_ERROR_RETURN then throw e
           else bindM (gets (\<lambda>s. s)) (\<lambda>s.
             if current (ctx s) \<noteq> teco_state_start then throw G_assertion_failed
             else thenM (teco_expressions_brace_return parent_brace_level (teco_error_return_args s))
               (modify (\<lambda>s. s\<lparr>teco_loop_stack := take (loop_stack_fp (ctx s)) (teco_loop_stack s)\<rparr>))))"

text \<open>Continue after \<open>:Olabel$\<close> when the macro has no such label.\<close>

definition resume_after_goto :: "unit tm" where
  "resume_after_goto =
     bindM (gets teco_goto_backup_pc) (\<lambda>pc.
     thenM (modify (ctx_update (\<lambda>m. m\<lparr>macro_pc := nat pc, current := teco_state_start\<rparr>)))
    (thenM clear_goto
    (thenM (set_mode TECO_MODE_NORMAL)
       (modify (ctx_update (\<lambda>m. m\<lparr>goto_complete := True\<rparr>))))))"

fun macro_loop :: "env \<Rightarrow> executor \<Rightarrow> nat \<Rightarrow> nat \<Rightarrow> nat \<Rightarrow> string \<Rightarrow> unit tm" where
  "macro_loop E exec n 0 parent_brace_level macro = throw Out_of_fuel"
| "macro_loop E exec n (Suc k) parent_brace_level macro =
     thenM (catch_return parent_brace_level (teco_machine_main_step E exec n macro (length macro)))
    (bindM (gets teco_goto_backup_pc) (\<lambda>pc.
       whenM (0 \<le> pc) (thenM resume_after_goto (macro_loop E exec n k parent_brace_level macro))))"

definition macro_end :: "unit tm" where
  "macro_end =
     bindM (gets (\<lambda>s. s)) (\<lambda>s.
       if teco_goto_skip_label s \<noteq> [] then throw (TECO_ERROR_LABEL (teco_goto_skip_label s))
       else if loop_stack_fp (ctx s) < length (teco_loop_stack s) then throw (TECO_ERROR_FAILED ''Unterminated loop'')
       else teco_state_end_of_macro (current (ctx s)))"

text \<open>
  \<open>teco_execute_macro\<close>. Its callers always pass a table of local registers. Both inner bounds are the
  fuel that is left: \<open>n\<close> characters, and \<open>n\<close> rounds of the loop around them.
\<close>

fun teco_execute_macro :: "env \<Rightarrow> nat \<Rightarrow> executor" where
  "teco_execute_macro E 0 macro l = throw Out_of_fuel"
| "teco_execute_macro E (Suc n) macro l =
     (if \<not> teco_string_validate_utf8 (env_glib E) macro then throw (TECO_ERROR_CODEPOINT ''macro'')
      else
        bindM (gets teco_brace_level) (\<lambda>parent_brace_level.
        bindM (gets (\<lambda>s. teco_machine_main_init (length (teco_loop_stack s)) (teco_default_codepage (teco_ed s)) l False)) (\<lambda>m.
          with_frame m (error_cleanup
            (thenM (macro_loop E (teco_execute_macro E n) n n parent_brace_level macro) macro_end)))))"

text \<open>The command line, executed by its own machine as far as \<open>stop\<close>.\<close>

definition cmdline_step :: "env \<Rightarrow> nat \<Rightarrow> string \<Rightarrow> nat \<Rightarrow> unit tm" where
  "cmdline_step E n = teco_machine_main_step E (teco_execute_macro E n) n"

end
