(* ===== verification/Command_Laws.thy ===== *)
theory Command_Laws
  imports Interpreter
begin

text \<open>
  What every command keeps. A command's effects are related by a step relation if it succeeds, and
  after the errors that are caught inside the interpreter. The locale \<open>commands\<close> states what such a
  relation has to allow: the primitive changes the commands are made of; it then holds of every
  command, of macros and of the interpreter's loop. Theory \<open>Rubout\<close> interprets it on the relation of
  the undo stack, theory \<open>Consistency\<close> on an invariant of the expression stacks.
\<close>

section \<open>Steps that respect a relation\<close>

definition steps :: "(teco \<Rightarrow> teco \<Rightarrow> bool) \<Rightarrow> (teco_error \<Rightarrow> teco \<Rightarrow> bool) \<Rightarrow> 'a tm \<Rightarrow> teco \<Rightarrow> bool" where
  "steps R tol m s = (case m s of (Inl e, t) \<Rightarrow> tol e s \<longrightarrow> R s t | (Inr x, t) \<Rightarrow> R s t)"

lemma steps_obeys: "obeys R m \<Longrightarrow> steps R tol m s"
  by (auto simp: steps_def obeys_def split: prod.splits sum.splits dest: spec [of _ s])

lemma steps_sub: "steps Q tol m s \<Longrightarrow> (\<And>s t. Q s t \<Longrightarrow> P s t) \<Longrightarrow> steps P tol m s"
  by (auto simp: steps_def split: prod.splits sum.splits)

lemma steps_okD: "steps R tol m s \<Longrightarrow> m s = (Inr x, t) \<Longrightarrow> R s t"
  by (simp add: steps_def)

lemma steps_errD: "steps R tol m s \<Longrightarrow> m s = (Inl e, t) \<Longrightarrow> tol e s \<Longrightarrow> R s t"
  by (simp add: steps_def)

lemma steps_cong: "m s = n s \<Longrightarrow> steps R tol n s \<Longrightarrow> steps R tol m s"
  by (simp add: steps_def)

locale error_steps = step_preorder R for R :: "teco \<Rightarrow> teco \<Rightarrow> bool" +
  fixes tol :: "teco_error \<Rightarrow> teco \<Rightarrow> bool"
  assumes tol_mono: "R s t \<Longrightarrow> tol e s \<Longrightarrow> tol e t"
    and tol_return: "tol e s \<Longrightarrow> e = TECO_ERROR_RETURN"
begin

lemma st_ret: "steps R tol (ret x) s"
  by (simp add: steps_def ret_def R_refl)

lemma st_throw: "steps R tol (throw e) s"
  by (simp add: steps_def throw_def R_refl)

lemma st_gets: "steps R tol (gets g) s"
  by (simp add: steps_def gets_def R_refl)

lemma st_bind:
  assumes m: "steps R tol m s" and f: "\<And>x s'. m s = (Inr x, s') \<Longrightarrow> steps R tol (f x) s'"
  shows "steps R tol (bindM m f) s"
proof (cases "m s")
  case (Pair r s')
  show ?thesis
  proof (cases r)
    case (Inl e)
    then show ?thesis using m Pair by (simp add: steps_def bindM_def)
  next
    case (Inr x)
    then have "steps R tol (f x) s'" "R s s'" using m f [of x s'] Pair by (simp_all add: steps_def)
    then show ?thesis using Pair Inr R_trans [of s s'] tol_mono [of s s']
      by (auto simp: steps_def bindM_def split: prod.splits sum.splits)
  qed
qed

lemma st_then: "steps R tol m s \<Longrightarrow> (\<And>x s'. m s = (Inr x, s') \<Longrightarrow> steps R tol n s') \<Longrightarrow> steps R tol (thenM m n) s"
  by (simp add: thenM_def st_bind)

lemma st_get: "steps R tol (f (g s)) s \<Longrightarrow> steps R tol (bindM (gets g) f) s"
  by (simp add: steps_def bindM_def gets_def)

lemma st_if: "(b \<Longrightarrow> steps R tol m s) \<Longrightarrow> (\<not> b \<Longrightarrow> steps R tol n s) \<Longrightarrow> steps R tol (if b then m else n) s"
  by simp

lemma st_when: "(b \<Longrightarrow> steps R tol m s) \<Longrightarrow> steps R tol (whenM b m) s"
  by (simp add: whenM_def st_ret)

lemma st_modify: "R s (f s) \<Longrightarrow> steps R tol (modify f) s"
  by (simp add: steps_def modify_def)

lemma st_option: "steps R tol m s \<Longrightarrow> (\<And>x. y = Some x \<Longrightarrow> steps R tol (f x) s) \<Longrightarrow>
    steps R tol (case y of None \<Rightarrow> m | Some x \<Rightarrow> f x) s"
  by (cases y) simp_all

lemma st_sum: "(\<And>e. y = Inl e \<Longrightarrow> steps R tol (f e) s) \<Longrightarrow> (\<And>x. y = Inr x \<Longrightarrow> steps R tol (g x) s) \<Longrightarrow>
    steps R tol (case y of Inl e \<Rightarrow> f e | Inr x \<Rightarrow> g x) s"
  by (cases y) simp_all

lemma st_pair: "(\<And>a b. y = (a, b) \<Longrightarrow> steps R tol (f a b) s) \<Longrightarrow> steps R tol (case y of (a, b) \<Rightarrow> f a b) s"
  by (cases y) simp

lemmas st_intros = st_ret st_throw st_gets st_get st_bind st_then st_if st_when st_option st_sum st_pair

text \<open>A program whose errors are looked at has to respect the relation after all of them.\<close>

lemma st_attempt: "obeys R m \<Longrightarrow> steps R tol (attempt m) s"
  by (auto simp: steps_def attempt_def obeys_def split: prod.splits sum.splits dest: spec [of _ s])

text \<open>
  The other use of \<open>attempt\<close>: something is done after the error, without raising an error that is
  caught, and the error is raised again.
\<close>

lemma st_attempt_rethrow:
  assumes m: "steps R tol m s"
    and r: "\<And>s'. R s s' \<Longrightarrow> steps R tol rest s'"
    and e: "\<And>s' e. fst (rest s') = Inl e \<Longrightarrow> e \<noteq> TECO_ERROR_RETURN"
  shows "steps R tol (bindM (attempt m) (\<lambda>y. thenM rest (case y of Inl e \<Rightarrow> throw e | Inr n \<Rightarrow> ret n))) s"
proof (cases "m s")
  case (Pair y s')
  have rest: "steps R tol rest s'" if "R s s'" using that by (rule r)
  have err: "\<not> tol e u" if "fst (rest s') = Inl e" for e u
    using tol_return e [OF that] by blast
  show ?thesis
  proof (cases y)
    case (Inr x)
    then have "R s s'" using m Pair by (simp add: steps_def)
    then show ?thesis using Pair Inr rest R_trans [of s s'] err
      by (auto simp: steps_def run_simps attempt_def split: prod.splits sum.splits)
  next
    case (Inl e)
    then have "R s s'" if "tol e s" using m Pair that by (simp add: steps_def)
    then show ?thesis using Pair Inl rest R_trans [of s s'] err tol_mono [of s s']
      by (auto simp: steps_def run_simps attempt_def split: prod.splits sum.splits)
  qed
qed

end

section \<open>Errors that are not caught\<close>

text \<open>The program does not raise \<open>TECO_ERROR_RETURN\<close>.\<close>

definition noret :: "'a tm \<Rightarrow> teco \<Rightarrow> bool" where
  "noret m s \<longleftrightarrow> fst (m s) \<noteq> Inl TECO_ERROR_RETURN"

lemma noretD: "noret m s \<Longrightarrow> m s = (Inl e, t) \<Longrightarrow> e \<noteq> TECO_ERROR_RETURN"
  by (auto simp: noret_def)

lemma noret_bind:
  "noret m s \<Longrightarrow> (\<And>x s'. m s = (Inr x, s') \<Longrightarrow> noret (f x) s') \<Longrightarrow> noret (bindM m f) s"
  by (auto simp: noret_def bindM_def split: prod.splits sum.splits)

lemma noret_then:
  "noret m s \<Longrightarrow> (\<And>x s'. m s = (Inr x, s') \<Longrightarrow> noret n s') \<Longrightarrow> noret (thenM m n) s"
  by (simp add: thenM_def noret_bind)

lemma noret_simple: "noret (ret x) s" "noret (gets g) s" "noret (modify k) s"
  by (simp_all add: noret_def run_simps)

lemma noret_throw: "e \<noteq> TECO_ERROR_RETURN \<Longrightarrow> noret (throw e) s"
  by (simp add: noret_def run_simps)

lemma noret_get: "noret (f (g s)) s \<Longrightarrow> noret (bindM (gets g) f) s"
  by (simp add: noret_def run_simps)

lemma noret_push: "noret (push_token t) s"
  using push_token_run [of t s] by (auto simp: noret_def)

lemma noret_if: "(b \<Longrightarrow> noret m s) \<Longrightarrow> (\<not> b \<Longrightarrow> noret n s) \<Longrightarrow> noret (if b then m else n) s"
  by simp

lemma noret_when: "(b \<Longrightarrow> noret m s) \<Longrightarrow> noret (whenM b m) s"
  by (simp add: whenM_def noret_simple)

lemma noret_mapM: "(\<And>x s. noret (f x) s) \<Longrightarrow> noret (mapM f xs) s"
  by (induction xs arbitrary: s) (auto intro!: noret_simple noret_then)

lemma noret_option: "noret m s \<Longrightarrow> (\<And>x. noret (f x) s) \<Longrightarrow> noret (case y of None \<Rightarrow> m | Some x \<Rightarrow> f x) s"
  by (cases y) simp_all

lemmas noret_steps = noret_get noret_simple noret_bind noret_then noret_if noret_when noret_push noret_mapM
  noret_option noret_throw

lemma noret_change: "noret (change t f) s"
  unfolding change_def by (intro noret_steps)

lemma noret_ctx_change: "noret (ctx_change t f) s"
  unfolding ctx_change_def by (intro noret_steps)

lemmas noret_intros = noret_steps noret_change noret_ctx_change

lemma noret_cong: "m s = n s \<Longrightarrow> noret n s \<Longrightarrow> noret m s"
  by (simp add: noret_def)

lemma noret_pop_op: "noret (teco_expressions_pop_op i) s"
  unfolding teco_expressions_pop_op_def by (intro noret_intros)

lemma noret_drop_new: "noret drop_new s"
proof (induction s rule: drop_new.induct)
  case (1 s)
  show ?case
  proof (cases "teco_operators s \<noteq> [] \<and> teco_expressions_peek_op s 0 = TECO_OP_NEW")
    case True
    then have "noret (bindM (teco_expressions_pop_op 0) (\<lambda>_. drop_new)) s"
      using 1 by (auto intro!: noret_bind noret_pop_op)
    then show ?thesis using True by (simp add: noret_def drop_new.simps [of s])
  next
    case False
    then show ?thesis by (auto simp: noret_def drop_new.simps [of s] ret_run)
  qed
qed

lemma noret_push_op: "noret (teco_expressions_push_op op) s"
  unfolding teco_expressions_push_op_def by (intro noret_intros)

lemma noret_push_int: "noret (teco_expressions_push_int n) s"
  unfolding teco_expressions_push_int_def append_number_def teco_set_num_sign_def
  by (intro noret_intros noret_drop_new noret_push_op)

lemma noret_pop_num: "noret (teco_expressions_pop_num i) s"
  unfolding teco_expressions_pop_num_def by (intro noret_intros noret_pop_op) simp_all

lemma noret_calc: "noret teco_expressions_calc s"
  unfolding teco_expressions_calc_def
  by (intro noret_intros noret_pop_op noret_pop_num)
    (auto split: sum.split intro!: noret_throw noret_push_int dest: calc_result_Inl)

lemma noret_eval: "noret (teco_expressions_eval b) s"
proof (induction b s rule: teco_expressions_eval.induct)
  case (1 b s)
  have IH: "noret (teco_expressions_eval c) s'"
    if "c = b" "\<not> teco_expressions_first_op s < 1" "teco_expressions_calc s = (Inr u, s')"
      "teco_expressions_peek_op s (nat (teco_expressions_first_op s)) \<noteq> TECO_OP_BRACE" for s' u c
    unfolding \<open>c = b\<close> by (rule 1 [OF gets_run _ gets_run]) (use that in auto)
  show ?case
    by (intro noret_cong [where m = "teco_expressions_eval b", OF teco_expressions_eval.simps])
      (auto intro!: noret_intros noret_calc noret_pop_op IH)
qed

lemma noret_pop_num_calc: "noret (teco_expressions_pop_num_calc v) s"
  unfolding teco_expressions_pop_num_calc_def teco_set_num_sign_def
  by (intro noret_intros noret_eval noret_pop_num)

lemma noret_discard_loop: "noret (discard_loop n) s"
  by (induction n arbitrary: s) (auto intro!: noret_intros noret_pop_num_calc)

lemma noret_discard_args: "noret teco_expressions_discard_args s"
  unfolding teco_expressions_discard_args_def by (intro noret_intros noret_eval noret_discard_loop)

lemma noret_pop_args: "noret (pop_args n acc) s"
  by (induction n arbitrary: acc s) (auto intro!: noret_intros noret_pop_num)

lemma noret_brace_loop: "noret (brace_loop keep) s"
proof (induction keep s rule: brace_loop.induct)
  case (1 keep s)
  have b: "noret (thenM teco_expressions_discard_args (teco_expressions_eval True)) s"
    by (intro noret_intros noret_discard_args noret_eval)
  show ?case
  proof (cases "keep < teco_brace_level s")
    case True
    have "noret (thenM (thenM teco_expressions_discard_args (teco_expressions_eval True))
        (\<lambda>s'. brace_loop keep (s'\<lparr>teco_brace_level := teco_brace_level s' - 1\<rparr>))) s"
      by (rule noret_then [OF b]) (use 1 [OF True] in \<open>auto simp: noret_def\<close>)
    then show ?thesis using True by (simp add: noret_def brace_loop.simps [of keep s])
  next
    case False
    then show ?thesis by (simp add: noret_def brace_loop.simps [of keep s] ret_run)
  qed
qed

lemma noret_brace_return: "noret (teco_expressions_brace_return keep n) s"
  unfolding teco_expressions_brace_return_def
  by (intro noret_intros noret_pop_args noret_brace_loop noret_push_int)

text \<open>Pushing the token of a register only changes the undo stack.\<close>

lemma get_table_heads [simp]: "get_table t (s\<lparr>teco_undo_heads := h\<rparr>) = get_table t s"
  by (simp add: get_table_def split: table_ref.split locals_ref.split)

lemma push_token_state: "\<exists>h. snd (push_token t s) = s\<lparr>teco_undo_heads := h\<rparr>"
  using push_token_run [of t s] by auto

lemma undo_set_integer_state: "\<exists>h. snd (qreg_undo_set_integer r s) = s\<lparr>teco_undo_heads := h\<rparr>"
proof -
  have "\<exists>h. s = s\<lparr>teco_undo_heads := h\<rparr>" by (rule exI [of _ "teco_undo_heads s"]) simp
  then show ?thesis using push_token_state [of _ s]
    by (auto simp: run_simps qreg_undo_set_integer_def deref_def push_if_def split: option.splits)
qed

lemma undo_then_get:
  assumes "\<And>h. g (s\<lparr>teco_undo_heads := h\<rparr>) = g s"
  shows "thenM (qreg_undo_set_integer r) (bindM (gets g) f) s =
    bindM (gets g) (\<lambda>x. thenM (qreg_undo_set_integer r) (f x)) s"
  using undo_set_integer_state [of r s] assms
  by (cases "qreg_undo_set_integer r s") (auto simp: run_simps split: sum.splits)

lemma undo_then_get_integer:
  "thenM (qreg_undo_set_integer r) (bindM (qreg_get_integer r) f) s =
   bindM (qreg_get_integer r) (\<lambda>x. thenM (qreg_undo_set_integer r) (f x)) s"
proof (cases "get_table (fst r) s (snd r)")
  case None
  then show ?thesis by (simp add: run_simps qreg_undo_set_integer_def qreg_get_integer_def deref_def)
next
  case (Some q)
  then show ?thesis
    using undo_set_integer_state [of r s]
    by (cases "qreg_undo_set_integer r s")
      (auto simp: run_simps qreg_get_integer_def deref_def split: sum.splits option.splits)
qed

text \<open>What leaves the loop stack and the frame pointer of the machine alone.\<close>

definition same_loops :: "teco \<Rightarrow> teco \<Rightarrow> bool" where
  "same_loops s t \<longleftrightarrow> teco_loop_stack t = teco_loop_stack s \<and> loop_stack_fp (ctx t) = loop_stack_fp (ctx s)"

interpretation sl: step_preorder same_loops
  by unfold_locales (simp_all add: same_loops_def)

lemma same_loops_no_loop: "same_loops s t \<Longrightarrow> no_loop t = no_loop s"
  by (simp add: same_loops_def no_loop_def)

lemma same_loops_stacks: "obeys stacks_only m \<Longrightarrow> obeys same_loops m"
proof (unfold obeys_def, rule allI)
  fix s
  assume "\<forall>s. stacks_only s (snd (m s))"
  then have "stacks_only s (snd (m s))" by blast
  from stacks_onlyD [OF this] show "same_loops s (snd (m s))" by (simp add: same_loops_def)
qed

lemma same_loops_heads [simp]: "same_loops s (s\<lparr>teco_undo_heads := h\<rparr>)"
  by (cases "frames s") (simp_all add: same_loops_def ctx_def)

lemma same_loops_push: "obeys same_loops (push_token t)"
  unfolding obeys_def using push_token_state [of t] by (metis same_loops_heads)

lemma same_loops_braces:
  "obeys same_loops teco_expressions_brace_open" "obeys same_loops teco_expressions_brace_close"
  "obeys same_loops teco_expressions_discard_args" "obeys same_loops (teco_expressions_eval b)"
proof -
  have l: "obeys same_loops (set_brace_level g)" for g
    unfolding set_brace_level_def change_def
    by (intro sl.intros sl.modify same_loops_push) (auto simp: same_loops_def ctx_def split: list.splits)
  show "obeys same_loops teco_expressions_brace_open" "obeys same_loops teco_expressions_brace_close"
    "obeys same_loops teco_expressions_discard_args" "obeys same_loops (teco_expressions_eval b)"
    unfolding teco_expressions_brace_open_def teco_expressions_brace_close_def
    by (intro sl.intros l same_loops_stacks so.stack_intros)+
qed

lemma ctx_update_sel [simp]:
  "ctx (ctx_update f s) = f (ctx s)" "teco_loop_stack (ctx_update f s) = teco_loop_stack s"
  by (simp_all add: ctx_def ctx_update_def split: list.split)

lemma same_loops_ctx_change: "(\<And>m. loop_stack_fp (f m) = loop_stack_fp m) \<Longrightarrow> obeys same_loops (ctx_change t f)"
  unfolding ctx_change_def by (intro sl.intros sl.modify same_loops_push) (simp_all add: same_loops_def)

lemma same_loops_modifiers:
  "obeys same_loops teco_machine_main_eval_colon" "obeys same_loops teco_machine_main_eval_at"
  "obeys same_loops (set_flags g)"
  unfolding teco_machine_main_eval_colon_def teco_machine_main_eval_at_def set_flags_def
  by (intro sl.intros same_loops_ctx_change; simp)+

section \<open>What a relation has to allow\<close>

text \<open>Tokens that do not work on the loop stack.\<close>

fun plain_token :: "token \<Rightarrow> bool" where
  "plain_token (Undo_remove_loop i) = False"
| "plain_token (Undo_insert_loop i c) = False"
| "plain_token (Undo_loop_counter i n) = False"
| "plain_token _ = True"

text \<open>
  A field of the machine that is changed with its undo token: the token restores the machine, and
  the change keeps what identifies the machine.
\<close>

definition machine_frame :: "machine \<Rightarrow> bool \<times> bool \<times> nat \<times> locals_ref \<times> int" where
  "machine_frame m = (must_undo m, goto_must_undo m, loop_stack_fp m, qreg_table_locals m, es_nesting m)"

definition machine_field :: "(machine \<Rightarrow> token) \<Rightarrow> (machine \<Rightarrow> machine) \<Rightarrow> bool" where
  "machine_field t f \<longleftrightarrow> (\<forall>m. machine_frame (f m) = machine_frame m \<and> plain_token (t m) \<and>
     (\<forall>s. undo_action (t m) (s\<lparr>cmdline_machine := f m\<rparr>) = s\<lparr>cmdline_machine := m\<rparr>))"

definition define_label :: "string \<Rightarrow> nat \<Rightarrow> int tm" where
  "define_label name pc =
     bindM (teco_goto_table_set name pc) (\<lambda>existing.
     thenM (whenM (existing < 0) (bindM (gets (\<lambda>s. must_undo (ctx s))) (\<lambda>undo.
       whenM undo (teco_goto_table_undo_remove name)))) (ret existing))"

definition start_goto :: "string \<Rightarrow> int \<Rightarrow> unit tm" where
  "start_goto label pc =
     thenM (change (\<lambda>s. Undo_skip_label []) (\<lambda>s. s\<lparr>teco_goto_skip_label := label\<rparr>))
       (change (\<lambda>s. Undo_backup_pc (teco_goto_backup_pc s)) (\<lambda>s. s\<lparr>teco_goto_backup_pc := pc\<rparr>))"

text \<open>An argument that is taken after the token of the register was pushed.\<close>

definition number_arg :: "teco_int tm \<Rightarrow> bool" where
  "number_arg m \<longleftrightarrow> m = teco_expressions_pop_num 0 \<or> (\<exists>v. m = teco_expressions_pop_num_calc v)"

text \<open>Leaving a loop, in the middle of \<open>;\<close>.\<close>

definition leave_loop :: "unit tm" where
  "leave_loop =
     bindM (gets (\<lambda>s. last (teco_loop_stack s))) (\<lambda>lctx.
       thenM (modify (\<lambda>s. s\<lparr>teco_loop_stack := butlast (teco_loop_stack s)\<rparr>))
      (thenM teco_expressions_discard_args
      (thenM (whenM (\<not> lc_pass_through lctx) (teco_expressions_brace_return (lc_brace_level lctx) 0))
         (bindM (gets (\<lambda>s. Undo_insert_loop (length (teco_loop_stack s)) lctx)) push_token))))"

text \<open>
  The relation \<open>Q\<close> holds across commands, which keep the nesting of the string argument they belong
  to; \<open>P\<close> also across the characters of the argument.
\<close>

locale commands = P: error_steps P tol + Q: error_steps Q tol
  for P Q :: "teco \<Rightarrow> teco \<Rightarrow> bool" and tol :: "teco_error \<Rightarrow> teco \<Rightarrow> bool" +
  assumes sub: "Q s t \<Longrightarrow> P s t"
    and nesting_kept: "Q s t \<Longrightarrow> es_nesting (ctx t) = es_nesting (ctx s)"
    and stack: "real_command c \<Longrightarrow> steps Q tol (run_command c) s"
    and pop_num: "steps Q tol (teco_expressions_pop_num 0) s"
    and pop_args: "steps Q tol (pop_args n acc) s"
    and push_new: "steps Q tol (teco_expressions_push_op TECO_OP_NEW) s"
    and field: "machine_field tok f \<Longrightarrow> steps Q tol (ctx_change tok f) s"
    and nesting: "steps P tol (set_es_nesting g) s"
    and reset_nesting: "es_nesting (ctx s) = 0 \<Longrightarrow> P s (ctx_update (\<lambda>m. m\<lparr>es_nesting := 1\<rparr>) s)"
    and pc: "Q s (ctx_update (\<lambda>m. m\<lparr>macro_pc := pc\<rparr>) s)"
    and frame_update: "frames s \<noteq> [] \<Longrightarrow> (\<And>m. machine_frame (f m) = machine_frame m) \<Longrightarrow> Q s (ctx_update f s)"
    and flag: "Q s (s\<lparr>is_executing := b\<rparr>)"
    and return_unit: "steps Q tol (return_error :: unit tm) s"
    and integer: "steps Q tol (thenM (qreg_undo_set_integer r) (qreg_set_integer r v)) s"
    and integer_arg: "number_arg a \<Longrightarrow> steps Q tol (thenM (qreg_undo_set_integer r)
        (bindM a (\<lambda>n. thenM (qreg_set_integer r (k + n)) (ret n)))) s"
    and string: "steps Q tol (replace_string r str) s"
    and append_string: "steps Q tol (qreg_append_string r str) s"
    and create: "get_table (fst r) s (snd r) = None \<Longrightarrow> steps Q tol (create_qreg r) s"
    and stack_push: "steps Q tol (teco_qreg_stack_push r) s"
    and stack_pop: "obeys Q (teco_qreg_stack_pop r)"
    and append_loop: "steps Q tol (append_loop lctx) s"
    and remove_loop: "\<not> no_loop s \<Longrightarrow> steps Q tol remove_loop s"
    and decrement: "\<not> no_loop s \<Longrightarrow> steps Q tol decrement_counter s"
    and leave_loop: "\<not> no_loop s \<Longrightarrow> steps Q tol leave_loop s"
    and label: "steps Q tol (define_label name pc) s"
    and goto: "teco_goto_skip_label s = [] \<Longrightarrow> steps Q tol (start_goto name bpc) s"
    and clear: "steps Q tol clear_goto s"
    and ed: "steps Q tol (set_ed h) s"
    and string_argument: "str = es_string (ctx s) @ new \<Longrightarrow>
        steps Q tol (thenM (push_if (must_undo (ctx s)) (Undo_es_truncate (length (es_string (ctx s)))))
          (modify (ctx_update (\<lambda>m. m\<lparr>es_string := str\<rparr>)))) s"
    and locals: "(\<And>l s. steps Q tol (m l :: unit tm) s) \<Longrightarrow> steps Q tol (with_macro_locals m) s"
begin

lemma stack_ops:
  "steps Q tol (teco_expressions_push_int n) s" "steps Q tol (teco_expressions_eval False) s"
  "real_op op \<Longrightarrow> steps Q tol (teco_expressions_push_calc op) s"
  "steps Q tol (teco_expressions_add_digit d k) s" "steps Q tol teco_expressions_discard_args s"
  "steps Q tol teco_expressions_brace_open s" "steps Q tol teco_expressions_brace_close s"
  "steps Q tol (teco_expressions_brace_return b i) s" "steps Q tol (teco_set_num_sign sign) s"
  using stack [of "Push_int n" s] stack [of Eval s] stack [of "Push_calc op" s] stack [of "Add_digit d k" s]
    stack [of Discard_args s] stack [of Brace_open s] stack [of Brace_close s] stack [of "Brace_return b i" s]
    stack [of "Num_sign sign" s] by simp_all

lemma pop_num_calc: "steps Q tol (teco_expressions_pop_num_calc v) s"
  using stack [of "Pop_num_calc v" s]
  by (auto simp: steps_def run_simps split: prod.splits sum.splits)

lemma set_pc: "steps Q tol (set_macro_pc n) s"
  unfolding set_macro_pc_def by (intro Q.st_modify pc)

lemma set_flags: "steps Q tol (set_flags g) s"
  unfolding set_flags_def by (rule field) (simp add: machine_field_def machine_frame_def)

lemma set_nest_level: "steps Q tol (set_nest_level g) s"
  unfolding set_nest_level_def by (rule field) (simp add: machine_field_def machine_frame_def)

lemma modifiers:
  "steps Q tol teco_machine_main_eval_colon s" "steps Q tol teco_machine_main_eval_at s" "steps Q tol (set_mode md) s"
  unfolding teco_machine_main_eval_colon_def teco_machine_main_eval_at_def set_mode_def
  by (intro Q.st_intros set_flags)+

lemma get_qreg: "steps Q tol (qreg_get_integer r) s" "steps Q tol (qreg_get_string r) s"
  unfolding qreg_get_integer_def qreg_get_string_def deref_def
  by (intro Q.st_intros)+

lemmas command_steps = Q.st_intros stack_ops pop_num_calc pop_num pop_args push_new set_pc set_flags set_nest_level
  modifiers get_qreg integer

lemma arithmetic:
  "steps Q tol teco_state_start_minus s" "steps Q tol teco_state_start_brace_open s"
  "steps Q tol teco_state_start_comma s" "steps Q tol teco_state_control_negate s"
  unfolding teco_state_start_minus_def teco_state_start_brace_open_def teco_state_start_comma_def
    teco_state_control_negate_def
  by (intro command_steps; simp add: real_op_def teco_expressions_precedence_def)+

lemma operators:
  "steps Q tol teco_state_start_mul s" "steps Q tol teco_state_start_div s" "steps Q tol teco_state_start_plus s"
  "steps Q tol teco_state_start_and s" "steps Q tol teco_state_start_or s" "steps Q tol teco_state_control_pow s"
  "steps Q tol teco_state_control_mod s" "steps Q tol teco_state_control_xor s" "steps Q tol teco_state_start_brace_close s"
  unfolding operator_defs by (intro stack_ops; simp add: real_op_def teco_expressions_precedence_def)+

lemma return: "steps Q tol return_error s"
proof -
  have "return_error = bindM (return_error :: unit tm) (\<lambda>_. throw TECO_ERROR_RETURN)"
    by (rule ext) (auto simp: return_error_def run_simps split: prod.splits sum.splits)
  then show ?thesis by (metis Q.st_bind Q.st_throw return_unit)
qed

lemma radix_commands:
  "steps Q tol teco_state_control_octal s" "steps Q tol teco_state_control_decimal s"
  unfolding teco_state_control_octal_def teco_state_control_decimal_def set_radix_def
  by (intro command_steps)+

lemma integer_arg_then:
  assumes "number_arg a" "\<And>n s. steps Q tol (f n) s"
  shows "steps Q tol (thenM (qreg_undo_set_integer r) (bindM a (\<lambda>n. thenM (qreg_set_integer r (k + n)) (f n)))) s"
proof -
  have "thenM (qreg_undo_set_integer r) (bindM a (\<lambda>n. thenM (qreg_set_integer r (k + n)) (f n))) =
      bindM (thenM (qreg_undo_set_integer r) (bindM a (\<lambda>n. thenM (qreg_set_integer r (k + n)) (ret n)))) f"
    by (rule ext) (simp add: run_simps split: prod.splits sum.splits)
  then show ?thesis using assms by (simp add: Q.st_bind integer_arg)
qed

lemma control_radix: "steps Q tol teco_state_control_radix s"
proof -
  have "bindM (teco_expressions_pop_num 0) (qreg_set_integer r) =
      bindM (teco_expressions_pop_num 0) (\<lambda>n. thenM (qreg_set_integer r (0 + n)) (ret ()))" for r
    by (rule ext) (simp add: run_simps split: prod.splits sum.splits)
  then have a: "steps Q tol (thenM (qreg_undo_set_integer r) (bindM (teco_expressions_pop_num 0) (qreg_set_integer r))) s'"
    for r s' by (simp only: integer_arg_then number_arg_def Q.st_ret simp_thms)
  show ?thesis unfolding teco_state_control_radix_def get_radix_def
    by (intro a command_steps)
qed

lemma date: "steps Q tol (teco_state_control_date E) s"
  unfolding teco_state_control_date_def by (intro command_steps)

lemma time: "steps Q tol (teco_state_control_time E) s"
  unfolding teco_state_control_time_def by (intro command_steps)

lemma ecommand_flags: "steps Q tol teco_state_ecommand_flags s"
  unfolding teco_state_ecommand_flags_def by (intro command_steps ed)

lemma search_mode: "steps Q tol teco_state_control_search_mode s"
  unfolding teco_state_control_search_mode_def by (intro command_steps)

lemma loop_open: "steps Q tol teco_state_start_loop_open s"
  unfolding teco_state_start_loop_open_def by (intro command_steps append_loop)

lemma fcommands:
  "steps Q tol teco_state_fcommand_loop_start s" "steps Q tol teco_state_fcommand_cond_end s"
  "steps Q tol teco_state_fcommand_cond_else s"
  unfolding teco_state_fcommand_loop_start_def teco_state_fcommand_cond_end_def teco_state_fcommand_cond_else_def
  by (intro command_steps)+

lemma condcommand: "steps Q tol (teco_state_condcommand_input E chr) s"
  unfolding teco_state_condcommand_input_def
  by (intro command_steps)

lemma bind_loops:
  assumes "steps Q tol m s" "obeys same_loops m" "\<And>x s'. same_loops s s' \<Longrightarrow> steps Q tol (f x) s'"
  shows "steps Q tol (bindM m f) s"
  using assms by (auto intro!: Q.st_bind dest: obeys_okD)

lemma then_loops:
  assumes "steps Q tol m s" "obeys same_loops m" "\<And>s'. same_loops s s' \<Longrightarrow> steps Q tol n s'"
  shows "steps Q tol (thenM m n) s"
  using assms by (auto intro!: Q.st_then dest: obeys_okD)

lemma loop_close: "steps Q tol teco_state_start_loop_close s"
proof -
  have r: "steps Q tol remove_loop t" "steps Q tol decrement_counter t" if "\<not> no_loop s" "same_loops s t" for t
    using that remove_loop decrement same_loops_no_loop by blast+
  have d: "obeys same_loops (set_macro_pc n)" for n
    unfolding set_macro_pc_def by (intro sl.modify) (simp add: same_loops_def)
  show ?thesis
    unfolding teco_state_start_loop_close_def
    by (intro Q.st_get Q.st_if Q.st_throw bind_loops then_loops Q.st_when modifiers same_loops_modifiers
        sl.intros same_loops_braces stack_ops set_pc d r) (auto intro: sl.R_trans)
qed

end

end
