(* ===== verification/Command_Steps.thy ===== *)
theory Command_Steps
  imports Command_Laws
begin

text \<open>
  Every command respects a relation of the locale \<open>commands\<close>: breaking out of loops, labels and
  jumps, the transition tables, and the commands with arguments. The callbacks that are parameters of the model
  are assumed to respect it, which is what every command has to do to be rubbed out.
\<close>

section \<open>Programs in another shape\<close>

text \<open>Associativity of sequencing, to bring a command into the shape a law talks about.\<close>

lemma bind_assoc:
  "bindM (bindM m f) g = bindM m (\<lambda>x. bindM (f x) g)" "thenM (thenM a b) c = thenM a (thenM b c)"
  "thenM (bindM m f) c = bindM m (\<lambda>x. thenM (f x) c)" "bindM (thenM a m) f = thenM a (bindM m f)"
  by (rule ext, simp add: run_simps split: prod.split sum.split)+

lemma then_leave_loop:
  "thenM leave_loop m = bindM (gets (\<lambda>s. last (teco_loop_stack s))) (\<lambda>lctx.
     thenM (modify (\<lambda>s. s\<lparr>teco_loop_stack := butlast (teco_loop_stack s)\<rparr>))
    (thenM teco_expressions_discard_args
    (thenM (whenM (\<not> lc_pass_through lctx) (teco_expressions_brace_return (lc_brace_level lctx) 0))
    (thenM (bindM (gets (\<lambda>s. Undo_insert_loop (length (teco_loop_stack s)) lctx)) push_token) m))))"
  by (simp only: leave_loop_def bind_assoc)

lemma then_start_goto:
  "thenM (start_goto label pc) m =
     thenM (change (\<lambda>s. Undo_skip_label []) (\<lambda>s. s\<lparr>teco_goto_skip_label := label\<rparr>))
    (thenM (change (\<lambda>s. Undo_backup_pc (teco_goto_backup_pc s)) (\<lambda>s. s\<lparr>teco_goto_backup_pc := pc\<rparr>)) m)"
  by (simp only: start_goto_def bind_assoc)

lemma bind_define_label:
  "bindM (define_label label pc) (\<lambda>existing. thenM (whenM (existing < 0) m) n) =
   bindM (teco_goto_table_set label pc) (\<lambda>existing.
     thenM (whenM (existing < 0) (bindM (gets (\<lambda>s. must_undo (ctx s))) (\<lambda>undo.
       thenM (whenM undo (teco_goto_table_undo_remove label)) m))) n)"
  by (rule ext) (simp add: define_label_def run_simps split: prod.split sum.split)

text \<open>The result of a complete register specification is the register it denotes.\<close>

lemma qs_finish_result:
  "qs_finish R p = Inr (q, reg) \<Longrightarrow> \<not> qs_parse_only p \<Longrightarrow> reg = find_qreg R (qs_local q) (qs_name q)"
  by (cases p) (auto simp: qs_finish_def qs_done_def split: sum.splits if_splits)

lemma qregspec_result:
  assumes "teco_machine_qregspec_input G R p chr False = Inr (q, reg)" "qs_current q = QS_start"
  shows "reg = find_qreg R (qs_local q) (qs_name q)"
proof -
  obtain st type po nesting name loc sb where p: "p = QS st type po nesting name loc sb" by (cases p)
  have f: "reg = find_qreg R (qs_local q) (qs_name q)" if "qs_finish R r = Inr (q, reg)" "\<not> qs_parse_only r" for r
    using that by (rule qs_finish_result)
  show ?thesis
  proof (cases st)
    case QS_string
    then show ?thesis using assms f
      by (auto simp: p Let_def split: if_splits sum.splits)
  qed (use assms f in \<open>auto simp: p qs_simple_input_def qs_start_global_input_def qs_append_def Let_def split: if_splits\<close>)
qed

text \<open>The string building machine only appends to its target.\<close>

lemma append_c_prefix: "sb_append_c G m v r = Some r' \<Longrightarrow> \<exists>new. r' = r @ new"
  by (auto simp: sb_append_c_def teco_string_append_wc_def Let_def split: if_splits)

lemma sb_simple_prefix:
  assumes "sb_simple_input G R m chr (Some r) = Inr (m', nxt, r')"
  shows "\<exists>new. r' = Some (r @ new)"
proof (cases "sb_current m")
  case SB_ctle_code
  then show ?thesis using assms
    by (auto simp: sb_simple_input_def sb_ctle_code_input_def teco_string_append_wc_def Let_def
        split: if_splits option.splits prod.splits) (metis append_c_prefix)
next
  case SB_ctle
  then show ?thesis using assms
    by (auto simp: sb_simple_input_def sb_ctle_input_def sb_append_def Let_def split: if_splits option.splits)
qed (use assms in \<open>auto simp: sb_simple_input_def sb_start_input_def sb_ctl_input_def sb_escaped_input_def
    sb_lower_input_def sb_lower_ctl_input_def sb_upper_input_def sb_upper_ctl_input_def sb_case_ctl_input_def
    append_char_def teco_string_append_wc_def Let_def split: if_splits\<close>)

lemma sb_qreg_prefix: "sb_qreg_text G R m st q loc r = Inr r' \<Longrightarrow> \<exists>new. r' = r @ new"
  by (auto simp: sb_qreg_text_def sb_append_def split: if_splits sum.splits option.splits dest: append_c_prefix)

lemma stringbuilding_prefix:
  assumes "teco_machine_stringbuilding_input G R m chr (Some r) = Inr (m', r')"
  shows "\<exists>new. r' = Some (r @ new)"
  using assms
  by (cases m) (auto split: if_splits option.splits sum.splits dest!: sb_simple_prefix sb_qreg_prefix)

lemma stringbuilding_parse_only:
  assumes "teco_machine_stringbuilding_input G R m chr None = Inr (m', r')"
  shows "r' = None"
proof (cases m)
  case (SB st mode esc cp code spec)
  have "r1 = None" if "sb_simple_input G R m chr None = Inr (m1, nxt, r1)" for m1 nxt r1
    using that by (cases "sb_current m")
      (auto simp: sb_simple_input_def sb_start_input_def sb_ctl_input_def sb_escaped_input_def
        sb_lower_input_def sb_lower_ctl_input_def sb_upper_input_def sb_upper_ctl_input_def sb_case_ctl_input_def
        sb_ctle_input_def sb_ctle_code_input_def append_char_def Let_def split: if_splits option.splits)
  then show ?thesis using assms SB by (auto split: if_splits option.splits sum.splits)
qed

text \<open>Pushing a token reads nothing of the machines.\<close>

lemma ctx_update_heads: "(ctx_update f s)\<lparr>teco_undo_heads := h\<rparr> = ctx_update f (s\<lparr>teco_undo_heads := h\<rparr>)"
  by (simp add: ctx_update_def split: list.split)

lemma ctx_heads [simp]: "ctx (s\<lparr>teco_undo_heads := h\<rparr>) = ctx s"
  by (simp add: ctx_def split: list.split)

lemma undo_fields_ctx_update [simp]:
  "teco_undo_enabled (ctx_update f s) = teco_undo_enabled s" "teco_undo_heads (ctx_update f s) = teco_undo_heads s"
  "cmdline_pc (ctx_update f s) = cmdline_pc s" "frames (ctx_update f s) = [] \<longleftrightarrow> frames s = []"
  by (simp_all add: ctx_update_def split: list.split)

lemma push_token_ctx_update: "push_token t (ctx_update f s) = (fst (push_token t s), ctx_update f (snd (push_token t s)))"
  by (simp add: push_token_def teco_undo_push_def Let_def ctx_update_heads)

lemma ctx_update_comp: "ctx_update f (ctx_update g s) = ctx_update (f \<circ> g) s"
  by (simp add: ctx_update_def split: list.split)

lemma ctx_update_same: "f (ctx s) = ctx s \<Longrightarrow> ctx_update f s = s"
  by (simp add: ctx_update_def ctx_def split: list.splits)

lemma ctx_update_eq: "f (ctx s) = g (ctx s) \<Longrightarrow> ctx_update f s = ctx_update g s"
  by (simp add: ctx_update_def ctx_def split: list.splits)

lemma get_table_ctx_update [simp]: "get_table tab (ctx_update f s) = get_table tab s"
  by (simp add: get_table_def ctx_update_def split: table_ref.split locals_ref.split list.split)

lemma set_es_machine_commute:
  assumes "set_es_machine f t = (Inr x, u)" and k: "\<And>m. k m = m\<lparr>es_string := str\<rparr>"
  shows "set_es_machine f (ctx_update k t) = (Inr x, ctx_update k u)"
proof -
  have c: "(\<lambda>x. x\<lparr>es_string := str, es_machine := f (es_machine x)\<rparr>) = (\<lambda>x. x\<lparr>es_machine := f (es_machine x), es_string := str\<rparr>)"
    by (rule ext) simp
  show ?thesis using assms(1) unfolding set_es_machine_def ctx_change_def
    by (auto simp: run_simps push_token_ctx_update ctx_update_comp comp_def k c split: prod.splits sum.splits if_splits)
qed

text \<open>What the parameters of the model have to keep.\<close>

definition env_respects :: "(teco \<Rightarrow> teco \<Rightarrow> bool) \<Rightarrow> (teco_error \<Rightarrow> teco \<Rightarrow> bool) \<Rightarrow> env \<Rightarrow> bool" where
  "env_respects Q tol E \<longleftrightarrow>
     (\<forall>c s. steps Q tol (env_callback E c) s) \<and> (\<forall>st s. steps Q tol (env_initial E st) s) \<and>
     (\<forall>st str n s. steps Q tol (env_process E st str n) s) \<and> (\<forall>st str s. steps Q tol (env_done E st str) s) \<and>
     (\<forall>st r str s. steps Q tol (env_done_qreg E st r str) s) \<and> (\<forall>st r s. steps Q tol (env_got_register E st r) s)"

lemma env_respectsD:
  assumes "env_respects Q tol E"
  shows "steps Q tol (env_callback E c) s" "steps Q tol (env_initial E st) s"
    "steps Q tol (env_process E st str n) s" "steps Q tol (env_done E st str) s"
    "steps Q tol (env_done_qreg E st r str) s" "steps Q tol (env_got_register E qst r) s"
  using assms by (simp_all add: env_respects_def)

definition respects_all ::
  "(teco \<Rightarrow> teco \<Rightarrow> bool) \<Rightarrow> (teco_error \<Rightarrow> teco \<Rightarrow> bool) \<Rightarrow> env \<Rightarrow> executor \<Rightarrow> bool" where
  "respects_all Q tol E exec \<longleftrightarrow> env_respects Q tol E \<and> (\<forall>macro l s. steps Q tol (exec macro l) s)"

context commands
begin

lemma break: "steps Q tol teco_state_start_break s"
proof -
  have o: "obeys same_loops (qreg_get_integer r)" "obeys same_loops (teco_expressions_pop_num_calc v)" for r v
    using same_loops_stacks [OF so.pop_num_calc]
    by (auto simp: qreg_get_integer_def deref_def obeys_def run_simps same_loops_def split: option.split)
  have l: "steps Q tol leave_loop t" if "\<not> no_loop s" "same_loops s t" for t
    using that leave_loop same_loops_no_loop by blast
  show ?thesis
    unfolding teco_state_start_break_def Let_def then_leave_loop [symmetric]
    by (intro Q.st_get Q.st_if Q.st_throw Q.st_ret bind_loops modifiers same_loops_modifiers get_qreg pop_num_calc
        Q.st_then o l) (simp_all add: same_loops_def)
qed

lemma loop_end: "steps Q tol teco_state_fcommand_loop_end s"
  unfolding teco_state_fcommand_loop_end_def by (intro command_steps return loop_close)

lemma label_input: "steps Q tol (teco_state_label_input E chr) s"
proof -
  have f: "steps Q tol (ctx_change (\<lambda>m. Undo_goto_label (goto_label m)) (\<lambda>m. m\<lparr>goto_label := []\<rparr>)) t" for t
    by (rule field) (simp add: machine_field_def machine_frame_def)
  have c: "steps Q tol (ctx_change (\<lambda>m. Undo_goto_label_truncate (length (goto_label m)))
      (\<lambda>m. m\<lparr>goto_label := teco_string_append_wc (env_glib E) (goto_label m) chr\<rparr>)) t" for t
    by (rule field) (simp add: machine_field_def machine_frame_def teco_string_append_wc_def truncated_take)
  show ?thesis
    unfolding teco_state_label_input_def bind_define_label [symmetric]
    by (intro command_steps label clear f c)
qed

lemma goto_done: "steps Q tol (teco_state_goto_done str) s"
  unfolding teco_state_goto_done_def Let_def then_start_goto [symmetric]
  by (intro command_steps goto) simp_all

lemma cmdline_pop: "steps Q tol teco_state_start_cmdline_pop s"
  unfolding teco_state_start_cmdline_pop_def by (intro command_steps)

lemma ascii: "steps Q tol (teco_state_ascii_input chr) s"
  unfolding teco_state_ascii_input_def by (intro command_steps)

lemma comments: "steps Q tol (teco_state_blockcomment_input chr) s"
  "steps Q tol (teco_state_blockcomment_star_input chr) s" "steps Q tol (teco_state_eolcomment_input chr) s"
  unfolding teco_state_blockcomment_input_def teco_state_blockcomment_star_input_def teco_state_eolcomment_input_def
  by (intro Q.st_ret)+

text \<open>The transition tables.\<close>

lemma transition_input:
  assumes "list_all (\<lambda>(c, tr). \<forall>cb \<in> set_option (tr_cb tr). \<forall>s. steps Q tol cb s) tab"
  shows "steps Q tol (teco_machine_main_transition_input tab chr) s"
proof -
  have "steps Q tol cb t" if "lookup_transition tab chr = Some tr" "tr_cb tr = Some cb" for tr cb t
    using that assms by (fastforce simp: lookup_transition_def list_all_iff split: if_splits dest: map_of_SomeD)
  then show ?thesis
    unfolding teco_machine_main_transition_input_def by (intro command_steps)
qed

lemma fcommand_input: "steps Q tol (teco_state_fcommand_input chr) s"
  unfolding teco_state_fcommand_input_def
  by (rule transition_input) (simp add: fcommand_transitions_def, intro conjI allI fcommands loop_end)

text \<open>The commands with parameters of the model.\<close>

lemma ecommand_exit: "env_respects Q tol E \<Longrightarrow> steps Q tol (teco_state_ecommand_exit E) s"
  unfolding teco_state_ecommand_exit_def by (intro command_steps ed env_respectsD)

lemma ecommand_input:
  assumes env: "env_respects Q tol E" shows "steps Q tol (teco_state_ecommand_input E chr) s"
  unfolding teco_state_ecommand_input_def
  by (rule transition_input)
    (simp add: ecommand_transitions_def, intro conjI allI ecommand_flags env_respectsD env ecommand_exit)

lemma control_input:
  assumes env: "env_respects Q tol E" shows "steps Q tol (teco_state_control_input E chr) s"
  unfolding teco_state_control_input_def
  by (rule transition_input)
    (simp add: control_transitions_def, intro conjI allI env_respectsD env arithmetic operators radix_commands
      control_radix date time search_mode)

lemma start_transition:
  assumes env: "env_respects Q tol E" shows "steps Q tol (teco_machine_main_transition_input (start_transitions E) chr) s"
  by (rule transition_input)
    (simp add: start_transitions_def, intro conjI allI env_respectsD env arithmetic operators loop_open loop_close break
      cmdline_pop)

lemma radix: "steps Q tol get_radix s"
  unfolding get_radix_def by (intro command_steps)

lemma skipping: "steps Q tol skip_loop_end s" "steps Q tol start_else s" "steps Q tol start_endif s"
  unfolding skip_loop_end_def start_else_def start_endif_def by (intro command_steps)+

lemma words: "env_respects Q tol E \<Longrightarrow> steps Q tol (words_command E cb) s"
  unfolding words_command_def by (intro command_steps env_respectsD)

lemma start_input: "env_respects Q tol E \<Longrightarrow> steps Q tol (teco_state_start_input E chr) s"
  unfolding teco_state_start_input_def Let_def
  by (intro Q.st_get Q.st_if Q.st_throw Q.st_ret Q.st_then Q.st_when Q.st_bind start_transition skipping words control_input
      set_flags set_nest_level radix stack_ops)

lemma returns: "steps Q tol teco_return s"
  unfolding teco_return_def by (intro Q.st_get Q.st_if Q.st_throw return)

lemma fatal: "e \<noteq> TECO_ERROR_RETURN \<Longrightarrow> steps Q tol (thenM (modify f) (throw e)) s"
  by (auto simp: steps_def run_simps dest: Q.tol_return)

lemma escape_input: "env_respects Q tol E \<Longrightarrow> steps Q tol (teco_state_escape_input E chr) s"
  unfolding teco_state_escape_input_def
  by (intro command_steps returns start_input)

lemma ctlc_control_input: "env_respects Q tol E \<Longrightarrow> steps Q tol (teco_state_ctlc_control_input E chr) s"
  unfolding teco_state_ctlc_control_input_def
  by (intro fatal command_steps returns control_input) simp

lemma ctlc_input: "env_respects Q tol E \<Longrightarrow> steps Q tol (teco_state_ctlc_input E chr) s"
  unfolding teco_state_ctlc_input_def
  by (intro command_steps returns start_input ctlc_control_input)

text \<open>Printing.\<close>

lemma prints:
  "steps Q tol teco_print s" "steps Q tol print_and_pop s" "steps Q tol teco_state_print_initial s"
proof -
  show p: "steps Q tol teco_print t" for t unfolding teco_print_def by (intro command_steps)
  show "steps Q tol print_and_pop s" unfolding print_and_pop_def by (intro command_steps p)
  show "steps Q tol teco_state_print_initial s" unfolding teco_state_print_initial_def
    by (intro command_steps p Q.st_modify flag)
qed

lemma print_inputs:
  assumes "env_respects Q tol E"
  shows "steps Q tol (teco_state_print_decimal_input E chr) s" "steps Q tol (teco_state_print_octal_input E chr) s"
  unfolding teco_state_print_decimal_input_def teco_state_print_octal_input_def
  by (intro command_steps prints start_input assms)+

lemma print_end: "steps Q tol teco_state_print_end_of_macro s"
  unfolding teco_state_print_end_of_macro_def by (intro command_steps prints)

text \<open>Fields of the argument parsers.\<close>

lemma argument_fields:
  "steps Q tol (set_es_machine f) s" "steps Q tol (set_es_insert_len g) s" "steps Q tol (set_expectqreg q) s"
  "steps Q tol (ctx_change (\<lambda>m. Undo_es_string (es_string m)) (\<lambda>m. m\<lparr>es_string := []\<rparr>)) s"
  "steps Q tol (ctx_change (\<lambda>m. Undo_current (current m)) (\<lambda>m. m\<lparr>current := st\<rparr>)) s"
  unfolding set_es_machine_def set_es_insert_len_def set_expectqreg_def
  by (rule field; simp add: machine_field_def machine_frame_def)+

lemma codepage: "steps Q tol (teco_machine_stringbuilding_set_codepage cp) s"
  unfolding teco_machine_stringbuilding_set_codepage_def by (rule argument_fields)

section \<open>Register arguments\<close>

lemma with_register: "(\<And>r. reg = Some r \<Longrightarrow> steps Q tol (f r) s) \<Longrightarrow> steps Q tol (with_qreg reg f) s"
  unfolding with_qreg_def by (intro Q.st_option Q.st_throw)

lemma if_executing: "(executing s \<Longrightarrow> steps Q tol m s) \<Longrightarrow> steps Q tol (when_executing next m) s"
  unfolding when_executing_def by (intro Q.st_get Q.st_if Q.st_ret)

lemmas argument_steps = with_register if_executing argument_fields codepage command_steps string append_string

lemma integer_then:
  assumes "\<And>s. steps Q tol m s"
  shows "steps Q tol (thenM (qreg_undo_set_integer r) (thenM (qreg_set_integer r v) m)) s"
  using assms by (simp only: bind_assoc(2) [symmetric] Q.st_then integer)

lemma query: "steps Q tol (teco_state_queryqreg_got_register E reg) s"
  unfolding teco_state_queryqreg_got_register_def by (intro argument_steps)

lemma set_integer: "steps Q tol (teco_state_setqreginteger_got_register reg) s"
  unfolding teco_state_setqreginteger_got_register_def
  by (intro integer_then argument_steps)

lemma increase: "steps Q tol (teco_state_increaseqreg_got_register reg) s"
proof -
  have i: "steps Q tol (thenM (qreg_undo_set_integer q) (bindM (qreg_get_integer q) (\<lambda>value. bindM (gets num_sign) (\<lambda>sign.
      bindM (teco_expressions_pop_num_calc sign) (\<lambda>add. thenM (qreg_set_integer q (value + add))
      (thenM (teco_expressions_push_int (value + add)) (ret teco_state_start))))))) t" for q t
    by (rule steps_cong [OF undo_then_get_integer], rule Q.st_bind [OF get_qreg(1)], rule steps_cong [OF undo_then_get])
      (simp add: num_sign_def, intro Q.st_get integer_arg_then Q.st_then stack_ops Q.st_ret, auto simp: number_arg_def)
  show ?thesis
    unfolding teco_state_increaseqreg_got_register_def by (intro i argument_steps)
qed

lemma push_register: "steps Q tol (teco_state_pushqreg_got_register reg) s"
  unfolding teco_state_pushqreg_got_register_def by (intro argument_steps stack_push)

lemma pop_register: "steps Q tol (teco_state_popqreg_got_register reg) s"
  unfolding teco_state_popqreg_got_register_def
  by (intro argument_steps Q.st_attempt steps_obeys stack_pop)

lemma pop_bytes: "steps Q tol (pop_bytes n buffer) s"
  by (induction n arbitrary: buffer s) (auto intro!: command_steps)

lemma pop_chars: "steps Q tol (pop_chars E cp n) s"
  unfolding pop_chars_def by (intro command_steps pop_bytes)

lemma set_string: "steps Q tol (teco_state_setqregstring_nobuilding_done E str) s"
  unfolding teco_state_setqregstring_nobuilding_done_def by (intro argument_steps pop_chars)

lemma save_cmdline: "steps Q tol (teco_state_save_cmdline_got_register E reg) s"
  unfolding teco_state_save_cmdline_got_register_def by (intro argument_steps)

lemma replace_default: "steps Q tol (teco_state_replace_default_ignore_done str) s"
  unfolding teco_state_replace_default_ignore_done_def by (intro argument_steps)

text \<open>Macros, for any way to execute them.\<close>

lemma execute_register:
  assumes exec: "\<And>macro l s. steps Q tol (exec macro l) s"
  shows "steps Q tol (teco_qreg_execute exec q l) s" "steps Q tol (teco_execute_file E exec str l) s"
  unfolding teco_qreg_execute_def teco_execute_file_def by (intro command_steps exec)+

lemma macro_register:
  assumes exec: "\<And>macro l s. steps Q tol (exec macro l) s"
  shows "steps Q tol (teco_state_macro_got_register exec reg) s"
  unfolding teco_state_macro_got_register_def
  by (intro argument_steps locals execute_register exec)

lemma indirect:
  assumes exec: "\<And>macro l s. steps Q tol (exec macro l) s"
  shows "steps Q tol (teco_state_indirect_done E exec str) s"
  unfolding teco_state_indirect_done_def
  by (intro argument_steps locals execute_register exec)

lemma got_register:
  assumes "respects_all Q tol E exec"
  shows "steps Q tol (got_register E exec st reg) s"
  using assms unfolding respects_all_def
  by (cases st) (auto simp: got_register_def intro!: argument_steps query set_integer increase push_register pop_register
    macro_register save_cmdline env_respectsD)

lemma done_callbacks:
  assumes "respects_all Q tol E exec"
  shows "steps Q tol (expectstring_done E exec st str) s"
  using assms unfolding respects_all_def
  by (cases st) (auto simp: expectstring_done_def intro!: argument_steps goto_done indirect set_string replace_default
    env_respectsD)

lemma initials:
  assumes "env_respects Q tol E"
  shows "steps Q tol (expectstring_initial E e) s" "steps Q tol (state_initial E st) s"
proof -
  have b: "steps Q tol (teco_state_setqregstring_building_initial E) t" "steps Q tol teco_state_print_string_initial t"
    "steps Q tol teco_state_expectstring_initial t" "steps Q tol teco_state_queryqreg_initial t"
    "steps Q tol (teco_state_expectqreg_initial q) t" "steps Q tol teco_state_ctlc_initial t" for t q
    unfolding teco_state_setqregstring_building_initial_def teco_state_print_string_initial_def
      teco_state_expectstring_initial_def teco_state_queryqreg_initial_def teco_state_expectqreg_initial_def
      new_qregspec_def teco_state_ctlc_initial_def
    by (intro argument_steps)+
  show e: "steps Q tol (expectstring_initial E e) t" for e t
    unfolding expectstring_initial_def by (intro argument_steps b env_respectsD assms)
  show "steps Q tol (state_initial E st) s"
    by (cases st) (auto simp: state_initial_def intro!: argument_steps b e prints)
qed

lemma create_register:
  assumes "teco_machine_qregspec_input G (registers_of l s) q chr False = Inr (q', None)" "qs_current q' = QS_start"
    and "l = qreg_table_locals (ctx s)" "set_expectqreg (Some q') s = (Inr x, t)"
  shows "steps Q tol (create_qreg (spec_ref q' t)) t"
proof (rule create)
  have "None = find_qreg (registers_of l s) (qs_local q') (qs_name q')"
    using assms(1,2) by (rule qregspec_result)
  moreover have "qreg_table_locals (ctx t) = l \<and> get_table tab t = get_table tab s" for tab
    using assms(3,4) push_token_state [of "Undo_expectqreg (expectqreg (ctx s))" s]
    by (auto simp: set_expectqreg_def ctx_change_def run_simps split: prod.splits sum.splits if_splits)
  ultimately show "get_table (fst (spec_ref q' t)) t (snd (spec_ref q' t)) = None"
    by (auto simp: registers_of_def teco_qreg_table_find_def spec_ref_def split: if_splits)
qed

lemma expectqreg_input:
  assumes "respects_all Q tol E exec"
  shows "steps Q tol (teco_state_expectqreg_input E (got_register E exec st) st chr) s"
  unfolding teco_state_expectqreg_input_def
  by (intro Q.st_get Q.st_option Q.st_throw Q.st_sum Q.st_pair Q.st_then Q.st_if Q.st_ret argument_fields
      got_register [OF assms] create_register) (auto simp: Q.R_refl)

section \<open>String arguments\<close>

text \<open>The relation across the characters of an argument.\<close>

lemma outer: assumes "steps Q tol m s" shows "steps P tol m s"
  using assms by (rule steps_sub) (rule sub)

lemma counting: "steps P tol (count_nesting E chr) s"
  unfolding count_nesting_def by (intro P.st_intros nesting)

lemma processing: "env_respects Q tol E \<Longrightarrow> steps Q tol (process_new E st) s"
  unfolding process_new_def expectstring_process_def teco_state_expectfile_process_def
  by (intro command_steps env_respectsD)

lemma finish_rest:
  assumes "es_nesting (ctx s) = 0"
  shows "steps P tol
    (thenM (ctx_change (\<lambda>m. Undo_es_string (es_string m)) (\<lambda>m. m\<lparr>es_string := []\<rparr>))
    (thenM (if expectstring_last st then set_es_machine (sb_set_escape_char 0x1B)
            else bindM (gets (\<lambda>s. sb_escape_char (es_machine (ctx s)))) (\<lambda>esc.
              whenM (esc = uc CHR ''{'') (set_flags (\<lambda>f. f\<lparr>modifier_at := True\<rparr>))))
    (thenM (modify (ctx_update (\<lambda>m. m\<lparr>es_nesting := 1\<rparr>)))
    (thenM (whenM (expectstring_building st) (set_es_machine teco_machine_stringbuilding_reset))
           (set_es_insert_len (\<lambda>_. 0)))))) s"
proof -
  have k: "steps Q tol m t \<Longrightarrow> m t = (Inr x, u) \<Longrightarrow> es_nesting (ctx t) = 0 \<Longrightarrow> es_nesting (ctx u) = 0"
    for m :: "'x tm" and t x u using nesting_kept by (metis steps_okD)
  have q: "steps Q tol (if expectstring_last st then set_es_machine (sb_set_escape_char 0x1B)
            else bindM (gets (\<lambda>s. sb_escape_char (es_machine (ctx s)))) (\<lambda>esc.
              whenM (esc = uc CHR ''{'') (set_flags (\<lambda>f. f\<lparr>modifier_at := True\<rparr>)))) t" for t
    by (intro argument_steps)
  show ?thesis
    by (intro P.st_then P.st_modify reset_nesting P.st_when outer argument_fields q)
      (metis k argument_fields(4) q assms)
qed

lemma finish_rest_noret: "noret
    (thenM (ctx_change (\<lambda>m. Undo_es_string (es_string m)) (\<lambda>m. m\<lparr>es_string := []\<rparr>))
    (thenM (if expectstring_last st then set_es_machine (sb_set_escape_char 0x1B)
            else bindM (gets (\<lambda>s. sb_escape_char (es_machine (ctx s)))) (\<lambda>esc.
              whenM (esc = uc CHR ''{'') (set_flags (\<lambda>f. f\<lparr>modifier_at := True\<rparr>))))
    (thenM (modify (ctx_update (\<lambda>m. m\<lparr>es_nesting := 1\<rparr>)))
    (thenM (whenM (expectstring_building st) (set_es_machine teco_machine_stringbuilding_reset))
           (set_es_insert_len (\<lambda>_. 0)))))) s"
  unfolding set_es_machine_def set_flags_def set_es_insert_len_def by (intro noret_intros)

lemma rethrow:
  assumes m: "steps Q tol m s" and r: "\<And>t. Q s t \<Longrightarrow> steps P tol rest t" and e: "\<And>t. noret rest t"
  shows "steps P tol (bindM (attempt m) (\<lambda>y. thenM rest (case y of Inl e \<Rightarrow> throw e | Inr n \<Rightarrow> ret n))) s"
proof (cases "m s")
  case (Pair y s')
  have err: "\<not> tol e u" if "fst (rest s') = Inl e" for e u
    using P.tol_return e [of s'] that by (auto simp: noret_def)
  have go: "steps P tol rest s'" "P s s'" if "Q s s'" using that r sub by simp_all
  have q: "Q s s'" if "\<And>e. y = Inl e \<Longrightarrow> tol e s" using m Pair that by (cases y) (simp_all add: steps_def)
  show ?thesis using Pair q go err P.R_trans [of s s'] P.tol_mono [of s s']
    by (cases y) (auto simp: steps_def run_simps attempt_def split: prod.splits sum.splits)
qed

lemma finishing:
  assumes "respects_all Q tol E exec" "es_nesting (ctx s) = 0"
  shows "steps P tol (expectstring_finish E (expectstring_done E exec st) st) s"
proof -
  have eq: "expectstring_finish E d st = thenM (process_new E st) (bindM (gets (\<lambda>s. es_string (ctx s))) (\<lambda>str.
      bindM (attempt (d str)) (\<lambda>y. thenM
    (thenM (ctx_change (\<lambda>m. Undo_es_string (es_string m)) (\<lambda>m. m\<lparr>es_string := []\<rparr>))
    (thenM (if expectstring_last st then set_es_machine (sb_set_escape_char 0x1B)
            else bindM (gets (\<lambda>s. sb_escape_char (es_machine (ctx s)))) (\<lambda>esc.
              whenM (esc = uc CHR ''{'') (set_flags (\<lambda>f. f\<lparr>modifier_at := True\<rparr>))))
    (thenM (modify (ctx_update (\<lambda>m. m\<lparr>es_nesting := 1\<rparr>)))
    (thenM (whenM (expectstring_building st) (set_es_machine teco_machine_stringbuilding_reset))
           (set_es_insert_len (\<lambda>_. 0))))))
      (case y of Inl e \<Rightarrow> throw e | Inr n \<Rightarrow> ret n))))" for d
    by (simp only: expectstring_finish_def bind_assoc)
  have p: "steps Q tol (process_new E st) s" using assms(1) by (simp add: processing respects_all_def)
  then have n: "es_nesting (ctx t) = 0" if "process_new E st s = (Inr x, t)" for t x
    using that assms(2) nesting_kept by (metis steps_okD)
  show ?thesis unfolding eq
    by (intro P.st_then outer p P.st_get rethrow done_callbacks assms(1) finish_rest finish_rest_noret)
      (use n nesting_kept in fastforce)
qed

lemma push_truncate:
  "steps Q tol (push_if (must_undo (ctx s)) (Undo_es_truncate (length (es_string (ctx s))))) s"
proof -
  let ?p = "push_if (must_undo (ctx s)) (Undo_es_truncate (length (es_string (ctx s))))"
  have "ctx_update (\<lambda>m. m\<lparr>es_string := es_string (ctx s)\<rparr>) t = t" if "?p s = (Inr (), t)" for t
  proof -
    have "ctx t = ctx s"
      using that push_token_state [of "Undo_es_truncate (length (es_string (ctx s)))" s]
      by (auto simp: push_if_def run_simps split: if_splits)
    then show ?thesis by (simp add: ctx_update_same)
  qed
  then have "thenM ?p (modify (ctx_update (\<lambda>m. m\<lparr>es_string := es_string (ctx s)\<rparr>))) s = ?p s"
    by (auto simp: run_simps split: prod.split sum.split)
  then show ?thesis using string_argument [of "es_string (ctx s)" s "[]"] by (simp add: steps_def)
qed

lemma append_built:
  assumes "str = es_string (ctx s) @ new"
  shows "steps Q tol (thenM (push_if (must_undo (ctx s)) (Undo_es_truncate (length (es_string (ctx s)))))
    (thenM (set_es_machine f) (modify (ctx_update (\<lambda>m. m\<lparr>es_string := str\<rparr>))))) s"
proof -
  let ?p = "push_if (must_undo (ctx s)) (Undo_es_truncate (length (es_string (ctx s))))"
  let ?k = "ctx_update (\<lambda>m. m\<lparr>es_string := str\<rparr>)"
  have "steps Q tol (thenM (thenM ?p (modify ?k)) (set_es_machine f)) s"
    by (rule Q.st_then [OF string_argument [OF assms]]) (rule argument_fields)
  then have r: "steps Q tol (thenM ?p (thenM (modify ?k) (set_es_machine f))) s" by (simp only: bind_assoc)
  have n: "noret (set_es_machine f) t" for t unfolding set_es_machine_def by (intro noret_intros)
  have c: "set_es_machine f (?k t) = (Inr x, ?k u)" if "set_es_machine f t = (Inr x, u)" for t x u
    using that by (rule set_es_machine_commute) simp
  show ?thesis
  proof (cases "?p s")
    case (Pair y t)
    show ?thesis using r Pair n [of t] c [of t] Q.tol_return
      by (cases y; cases "set_es_machine f t"; cases "fst (set_es_machine f t)")
        (auto simp: steps_def run_simps noret_def)
  qed
qed

lemma append_parse_only:
  "steps Q tol (thenM (set_es_machine f) (modify (ctx_update (\<lambda>m. m)))) s"
proof -
  have "thenM (set_es_machine f) (modify (ctx_update (\<lambda>m. m))) s = set_es_machine f s"
    by (auto simp: run_simps ctx_update_same split: prod.split sum.split)
  then show ?thesis using argument_fields(1) [of f s] by (simp add: steps_def)
qed

lemma append_plain:
  "steps Q tol (thenM (push_if (must_undo (ctx s)) (Undo_es_truncate (length (es_string (ctx s)))))
    (modify (ctx_update (\<lambda>m. m\<lparr>es_string := es_string m @ new\<rparr>)))) s"
proof -
  let ?p = "push_if (must_undo (ctx s)) (Undo_es_truncate (length (es_string (ctx s))))"
  have "ctx_update (\<lambda>m. m\<lparr>es_string := es_string m @ new\<rparr>) t = ctx_update (\<lambda>m. m\<lparr>es_string := es_string (ctx s) @ new\<rparr>) t"
    if "?p s = (Inr (), t)" for t
  proof -
    have "ctx t = ctx s"
      using that push_token_state [of "Undo_es_truncate (length (es_string (ctx s)))" s]
      by (auto simp: push_if_def run_simps split: if_splits)
    then show ?thesis by (intro ctx_update_eq) simp
  qed
  then have "thenM ?p (modify (ctx_update (\<lambda>m. m\<lparr>es_string := es_string m @ new\<rparr>))) s =
      thenM ?p (modify (ctx_update (\<lambda>m. m\<lparr>es_string := es_string (ctx s) @ new\<rparr>))) s"
    by (auto simp: run_simps split: prod.split sum.split)
  then show ?thesis using string_argument [of "es_string (ctx s) @ new" s new] by (simp add: steps_def)
qed

lemma appending: "steps Q tol (expectstring_append E st chr) s"
proof -
  let ?m = "ctx s" and ?R = "registers_of (qreg_table_locals (ctx s)) s"
  let ?in = "teco_machine_stringbuilding_input (env_glib E) ?R (es_machine ?m) chr
    (if executing s then Some (es_string ?m) else None)"
  let ?body = "if expectstring_building st then
      (case ?in of Inl e \<Rightarrow> throw e
       | Inr (sb, str) \<Rightarrow> thenM (set_es_machine (\<lambda>_. sb))
           (modify (ctx_update (\<lambda>m. m\<lparr>es_string := (case str of None \<Rightarrow> es_string m | Some x \<Rightarrow> x)\<rparr>))))
    else whenM (executing s)
      (modify (ctx_update (\<lambda>m. m\<lparr>es_string := teco_string_append_wc (env_glib E) (es_string m) chr\<rparr>)))"
  have idle: "steps Q tol (push_if (executing s \<and> must_undo ?m) (Undo_es_truncate (length (es_string ?m)))) s"
    using push_truncate [of s] by (cases "executing s") (auto simp: push_if_def whenM_def Q.st_ret)
  have body: "steps Q tol (thenM (push_if (executing s \<and> must_undo ?m) (Undo_es_truncate (length (es_string ?m)))) ?body) s"
  proof (cases "executing s")
    case True
    have "\<exists>new. str = Some (es_string ?m @ new)" if "?in = Inr (sb, str)" for sb str
      using that True by (auto dest: stringbuilding_prefix)
    then show ?thesis using True idle append_plain [of s]
      by (auto simp: whenM_def teco_string_append_wc_def split: sum.splits
          intro!: append_built [OF refl] Q.st_then [OF _ Q.st_throw])
  next
    case False
    have "str = None" if "?in = Inr (sb, str)" for sb str
      using that False by (auto dest: stringbuilding_parse_only)
    moreover have "thenM (push_if False t) m = m" for t and m :: "unit tm"
      by (rule ext) (simp add: push_if_def run_simps)
    ultimately show ?thesis using False
      by (auto simp: whenM_def split: sum.splits intro!: append_parse_only Q.st_throw Q.st_ret)
  qed
  show ?thesis
    unfolding expectstring_append_def bind_assoc(2) [symmetric]
    by (intro Q.st_get Q.st_then [OF body] argument_fields)
qed

lemma expectstring_input:
  assumes "respects_all Q tol E exec"
  shows "steps P tol (teco_state_expectstring_input E (expectstring_done E exec st) st chr) s"
proof -
  have e: "steps P tol (teco_machine_main_eval_at) t" "steps P tol (expectstring_append E st chr) t"
    "steps P tol (set_es_machine f) t" for t f
    by (intro outer modifiers appending argument_fields)+
  show ?thesis
    unfolding teco_state_expectstring_input_def
    by (intro P.st_intros e counting finishing assms)
qed

section \<open>The interpreter's loop\<close>

lemma input:
  assumes "respects_all Q tol E exec"
  shows "steps P tol (state_input E exec st chr) s"
proof -
  have env: "env_respects Q tol E" using assms by (simp add: respects_all_def)
  show ?thesis
    by (cases st) (auto simp: state_input_def intro!: outer start_input fcommand_input condcommand control_input ascii
      escape_input ctlc_input ctlc_control_input ecommand_input label_input comments print_inputs env
      expectqreg_input expectstring_input assms)
qed

lemma machine_input:
  assumes "respects_all Q tol E exec"
  shows "steps P tol (teco_machine_input E exec chr) s"
proof -
  have c: "steps P tol (ctx_change (\<lambda>m. Undo_current (current m)) (\<lambda>m. m\<lparr>current := st\<rparr>)) t"
    "steps P tol (state_initial E st) t" for st t
    using assms by (intro outer argument_fields initials; simp add: respects_all_def)+
  show ?thesis
    unfolding teco_machine_input_def by (intro P.st_intros c input assms)
qed

lemma fetching: "steps P tol (fetch E macro) s"
proof -
  have "steps P tol (set_macro_pc n) t" for n t by (intro outer set_pc)
  then show ?thesis unfolding fetch_def Let_def by (intro P.st_intros)
qed

lemma stepping:
  assumes "respects_all Q tol E exec"
  shows "steps P tol (step_loop E exec n macro stop) s"
  by (induction n arbitrary: s) (auto simp: step_loop.simps intro!: P.st_intros fetching machine_input assms)

lemma refreshing: "env_respects Q tol E \<Longrightarrow> steps Q tol (state_refresh E st) s"
  unfolding state_refresh_def teco_state_expectstring_refresh_def
  by (cases st) (auto intro!: command_steps processing argument_fields)

theorem main_step:
  assumes "respects_all Q tol E exec"
  shows "steps P tol (teco_machine_main_step E exec n macro stop) s"
proof -
  have "steps P tol (state_refresh E st) t" for st t
    using assms by (intro outer refreshing) (simp add: respects_all_def)
  then show ?thesis unfolding teco_machine_main_step_def by (intro P.st_intros stepping assms)
qed

end

end
