(* ===== verification/Macro_Laws.thy ===== *)
theory Macro_Laws
  imports Command_Steps
begin

text \<open>
  What macro invocations keep. The locale \<open>macros\<close> adds to the locale \<open>commands\<close> what a relation has to
  allow for the frame of an invocation; the relation then holds of \<open>teco_execute_macro\<close> for any fuel and nesting of
  invocations, of the command line's execution and of every character typed.
\<close>

section \<open>Invocations end with errors that are not caught\<close>

lemma noret_eval_colon: "noret teco_machine_main_eval_colon s"
  unfolding teco_machine_main_eval_colon_def set_flags_def by (intro noret_intros)

lemma noret_print: "noret teco_print s" "noret print_and_pop s"
proof -
  show p: "noret teco_print t" for t
    unfolding teco_print_def by (intro noret_intros noret_eval noret_eval_colon) simp
  show "noret print_and_pop s" unfolding print_and_pop_def by (intro noret_intros p noret_pop_num)
qed

lemma noret_end_of_macro: "noret (teco_state_end_of_macro st) s"
  by (cases st) (auto simp: teco_state_end_of_macro_def teco_state_escape_end_of_macro_def teco_state_print_end_of_macro_def
      intro!: noret_intros noret_discard_args noret_print)

lemma noret_macro_end: "noret macro_end s"
  unfolding macro_end_def by (intro noret_intros noret_end_of_macro) simp_all

lemma noret_catch_return: "noret (catch_return b m) s"
proof -
  have "noret (attempt m) t" for t
    by (auto simp: noret_def attempt_def is_gerror_def crash_def split: prod.splits sum.splits)
  then show ?thesis
    unfolding catch_return_def
    by (intro noret_bind) (auto split: sum.split intro!: noret_intros noret_brace_return)
qed

lemma noret_resume: "noret resume_after_goto s"
  unfolding resume_after_goto_def clear_goto_def set_mode_def set_flags_def by (intro noret_intros)

lemma noret_macro_loop: "noret (macro_loop E exec n k b macro) s"
  by (induction k arbitrary: s) (auto intro!: noret_intros noret_catch_return noret_resume)

lemma noret_cleanup: "noret m s \<Longrightarrow> noret (error_cleanup m) s"
  by (auto simp: noret_def error_cleanup_def split: prod.splits sum.splits)

lemma noret_frame: "(\<And>t. noret body t) \<Longrightarrow> noret (with_frame m body) s"
  by (auto simp: noret_def with_frame_def split: prod.splits) (metis fst_conv)

lemma noret_execute_macro: "noret (teco_execute_macro E n macro l) s"
  by (cases n) (auto intro!: noret_intros noret_frame noret_cleanup noret_macro_loop noret_macro_end)

lemma same_loops_macro_end: "obeys same_loops macro_end"
proof -
  have p: "obeys same_loops (teco_expressions_pop_num 0)" "obeys same_loops teco_print"
    unfolding teco_print_def by (intro sl.intros same_loops_stacks so.stack_intros same_loops_modifiers)+
  show ?thesis
    unfolding macro_end_def teco_state_end_of_macro_def teco_state_escape_end_of_macro_def
      teco_state_print_end_of_macro_def print_and_pop_def
    by (intro sl.intros) (auto split: teco_state.split intro!: sl.intros p same_loops_braces)
qed

section \<open>The relation across an invocation\<close>

locale macros = commands +
  assumes frames_kept: "P s t \<Longrightarrow> frames t = [] \<longleftrightarrow> frames s = []"
    and tol_frame: "frames s \<noteq> [] \<Longrightarrow> tol TECO_ERROR_RETURN s"
    and truncate: "frames s \<noteq> [] \<Longrightarrow> length (teco_loop_stack s) = loop_stack_fp (ctx s) \<Longrightarrow> P s t \<Longrightarrow>
      P s (t\<lparr>teco_loop_stack := take (loop_stack_fp (ctx t)) (teco_loop_stack t)\<rparr>)"
    and leave: "m = teco_machine_main_init (length (teco_loop_stack s)) cp l False \<Longrightarrow>
      P (s\<lparr>frames := m # frames s\<rparr>) t \<Longrightarrow> length (teco_loop_stack t) \<le> loop_stack_fp (ctx t) \<Longrightarrow>
      Q s (t\<lparr>frames := tl (frames t)\<rparr>)"
begin

lemma catching:
  assumes "respects_all Q tol E exec" "frames s0 \<noteq> []" "length (teco_loop_stack s0) = loop_stack_fp (ctx s0)"
    and "P s0 s" "catch_return b (teco_machine_main_step E exec n macro stop) s = (Inr x, t)"
  shows "P s0 t"
proof -
  let ?m = "teco_machine_main_step E exec n macro stop"
  have m: "steps P tol ?m s" using assms(1) by (rule main_step)
  have fs: "frames s \<noteq> []" using frames_kept [OF assms(4)] assms(2) by simp
  obtain r u where u: "?m s = (r, u)" by (cases "?m s")
  show ?thesis
  proof (cases r)
    case (Inr y)
    then show ?thesis using assms(4,5) m u P.R_trans by (auto simp: catch_return_def run_simps attempt_def steps_def)
  next
    case (Inl e)
    then have e: "e = TECO_ERROR_RETURN" using assms(5) u
      by (auto simp: catch_return_def run_simps attempt_def split: if_splits)
    then have su: "P s u" using m u Inl tol_frame [OF fs] by (simp add: steps_def)
    from assms(5) u Inl e obtain v where v: "teco_expressions_brace_return b (teco_error_return_args u) u = (Inr (), v)"
      and t: "t = v\<lparr>teco_loop_stack := take (loop_stack_fp (ctx v)) (teco_loop_stack v)\<rparr>"
      by (auto simp: catch_return_def run_simps attempt_def is_gerror_def split: if_splits prod.splits sum.splits)
    have "Q u v" using stack_ops(8) v by (rule steps_okD)
    then have "P s0 v" using assms(4) su sub P.R_trans by blast
    then show ?thesis unfolding t using assms(2,3) by (intro truncate)
  qed
qed

lemma resuming: "frames s \<noteq> [] \<Longrightarrow> steps P tol resume_after_goto s"
proof -
  assume fs: "frames s \<noteq> []"
  have f: "P u (ctx_update f u)" if "frames u \<noteq> []" "\<And>m. machine_frame (f m) = machine_frame m" for u f
    using that by (intro sub frame_update)
  have g: "steps P tol clear_goto u" "steps P tol (set_mode md) u" for u md
    by (intro outer clear modifiers)+
  have k: "frames v \<noteq> []" if "m u = (Inr y, v)" "steps P tol m u" "frames u \<noteq> []" for m :: "unit tm" and u v y
    using that frames_kept by (metis steps_okD)
  show ?thesis unfolding resume_after_goto_def
    by (intro P.st_get P.st_then P.st_modify g f) (auto simp: machine_frame_def fs modify_run dest!: k [OF _ g(1)] k [OF _ g(2)])
qed

lemma looping:
  assumes "respects_all Q tol E exec" "frames s0 \<noteq> []" "length (teco_loop_stack s0) = loop_stack_fp (ctx s0)"
  shows "P s0 s \<Longrightarrow> macro_loop E exec n k b macro s = (Inr x, t) \<Longrightarrow> P s0 t"
proof (induction k arbitrary: s)
  case 0
  then show ?case by (simp add: throw_run)
next
  case (Suc k)
  from Suc.prems(2) obtain u where u: "catch_return b (teco_machine_main_step E exec n macro (length macro)) s = (Inr (), u)"
    by (auto simp: run_simps split: prod.splits sum.splits)
  have pu: "P s0 u" using assms Suc.prems(1) u by (rule catching)
  show ?case
  proof (cases "0 \<le> teco_goto_backup_pc u")
    case False
    then show ?thesis using Suc.prems(2) u pu by (simp add: run_simps)
  next
    case True
    then obtain v where v: "resume_after_goto u = (Inr (), v)" "macro_loop E exec n k b macro v = (Inr x, t)"
      using Suc.prems(2) u by (auto simp: run_simps split: prod.splits sum.splits)
    have "P u v" using resuming frames_kept [OF pu] assms(2) v(1) by (metis steps_okD)
    then show ?thesis using Suc.IH v(2) pu P.R_trans by blast
  qed
qed

lemma ending: "steps Q tol macro_end s"
  unfolding macro_end_def teco_state_end_of_macro_def teco_state_escape_end_of_macro_def
  by (intro Q.st_get Q.st_if Q.st_throw) (auto split: teco_state.split intro!: Q.st_intros stack_ops print_end)

lemma running:
  assumes "respects_all Q tol E exec"
    and "thenM (macro_loop E exec n k b macro) macro_end s = (Inr x, t)" "frames s \<noteq> []"
    and "length (teco_loop_stack s) = loop_stack_fp (ctx s)"
  shows "P s t \<and> length (teco_loop_stack t) \<le> loop_stack_fp (ctx t)"
proof -
  from assms(2) obtain u where u: "macro_loop E exec n k b macro s = (Inr (), u)" "macro_end u = (Inr x, t)"
    by (auto simp: run_simps split: prod.splits sum.splits)
  have "P s u" by (rule looping [OF assms(1,3,4) P.R_refl u(1)])
  moreover have "Q u t" using ending u(2) by (rule steps_okD)
  moreover have "same_loops u t" using same_loops_macro_end u(2) by (rule obeys_okD)
  moreover have "length (teco_loop_stack u) \<le> loop_stack_fp (ctx u)"
    using u(2) by (auto simp: macro_end_def run_simps split: if_splits)
  ultimately show ?thesis using sub P.R_trans by (auto simp: same_loops_def)
qed

theorem execute_macro:
  assumes env: "env_respects Q tol E"
  shows "steps Q tol (teco_execute_macro E n macro l) s"
proof (induction n arbitrary: macro l s)
  case 0
  show ?case by (simp add: Q.st_throw)
next
  case (Suc n macro l s)
  have all: "respects_all Q tol E (teco_execute_macro E n)"
    using env Suc by (simp add: respects_all_def)
  let ?m = "teco_machine_main_init (length (teco_loop_stack s)) (teco_default_codepage (teco_ed s)) l False"
  let ?body = "thenM (macro_loop E (teco_execute_macro E n) n n (teco_brace_level s) macro) macro_end"
  let ?s = "s\<lparr>frames := ?m # frames s\<rparr>"
  have w: "steps Q tol (with_frame ?m (error_cleanup ?body)) s"
  proof (cases "?body ?s")
    case (Pair r t)
    show ?thesis
    proof (cases r)
      case (Inr x)
      have "P ?s t \<and> length (teco_loop_stack t) \<le> loop_stack_fp (ctx t)"
        by (rule running [OF all Pair [unfolded Inr]]) (simp_all add: ctx_def teco_machine_main_init_def)
      then have "Q s (t\<lparr>frames := tl (frames t)\<rparr>)" using leave [OF refl] by blast
      then show ?thesis using Pair Inr by (simp add: steps_def with_frame_def error_cleanup_def)
    next
      case (Inl e)
      have "noret ?body ?s" by (intro noret_then noret_macro_loop noret_macro_end)
      then have "\<not> tol e s" using Pair Inl Q.tol_return by (auto simp: noret_def)
      then show ?thesis using Pair Inl by (simp add: steps_def with_frame_def error_cleanup_def)
    qed
  qed
  show ?case unfolding teco_execute_macro.simps by (intro Q.st_if Q.st_throw Q.st_get w)
qed

text \<open>So every character of the command line respects the relation, whatever macros it invokes.\<close>

lemma all_respect: "env_respects Q tol E \<Longrightarrow> respects_all Q tol E (teco_execute_macro E n)"
  by (simp add: respects_all_def execute_macro)

theorem command_line:
  assumes "env_respects Q tol E"
  shows "steps P tol (cmdline_step E n macro stop) s"
  unfolding cmdline_step_def by (rule main_step [OF all_respect [OF assms]])

end

end
