(* ===== verification/Concrete.thy ===== *)
theory Concrete
  imports Interpreter
begin

text \<open>
  A concrete environment: ASCII text and commands without an effect for the parameters of the model, and the
  definitions with which a command line is evaluated in it by rewriting. The witnesses of the
  theorems on commands run in it.
\<close>

definition plain_env :: env where
  "plain_env = \<lparr>env_glib = ascii_glib, env_dir_separator = (\<lambda>c. c = 0x2F), env_interrupted = (\<lambda>_. False),
     env_memory_exceeded = (\<lambda>_. False), env_callback = (\<lambda>_. ret ()), env_initial = (\<lambda>_. ret ()),
     env_process = (\<lambda>_ _ _. ret ()), env_done = (\<lambda>_ _. ret teco_state_start),
     env_done_qreg = (\<lambda>_ _ _. ret teco_state_start), env_got_register = (\<lambda>_ _. ret teco_state_start),
     env_file_contents = (\<lambda>_ _. Inl (TECO_ERROR_FAILED [])), env_qreg_codepage = (\<lambda>_ _. SC_CP_UTF8),
     env_last_cmdline = (\<lambda>_. []), env_qreg_length = (\<lambda>str. word_of_nat (length str)),
     env_qreg_character = (\<lambda>_ _. 0), env_first_dirty = (\<lambda>_. 0), env_date = (\<lambda>_. (2025, 1, 1)),
     env_time = (\<lambda>_. 0), env_monotonic_time = (\<lambda>_. 0)\<rparr>"

lemma plain_env_simps [simp]:
  "env_glib plain_env = ascii_glib" "env_interrupted plain_env = (\<lambda>_. False)" "env_memory_exceeded plain_env = (\<lambda>_. False)"
  "env_callback plain_env = (\<lambda>_. ret ())" "env_initial plain_env = (\<lambda>_. ret ())" "env_process plain_env = (\<lambda>_ _ _. ret ())"
  "env_done plain_env = (\<lambda>_ _. ret teco_state_start)" "env_done_qreg plain_env = (\<lambda>_ _ _. ret teco_state_start)"
  "env_got_register plain_env = (\<lambda>_ _. ret teco_state_start)"
  by (simp_all add: plain_env_def)

lemma ascii_glib_simps [simp]:
  "g_utf8_cont ascii_glib = (\<lambda>_. 0)" "g_utf8_get_char ascii_glib (c # s) = uc c"
  "g_unichar_to_utf8 ascii_glib = (\<lambda>c. [ascii_char c])" "g_unichar_toupper ascii_glib = ascii_upcase"
  "g_utf8_valid_prefix ascii_glib = (\<lambda>s. length (takeWhile (\<lambda>c. 0 < schar c) s))"
  by (simp_all add: ascii_glib_def)

lemma validate_ascii: "list_all (\<lambda>c. 0 < schar c) s \<Longrightarrow> teco_string_validate_utf8 ascii_glib s"
  by (simp add: teco_string_validate_utf8_def validate_loop.simps [of ascii_glib s] list_all_iff takeWhile_eq_all_conv [THEN iffD2])

lemma ctx_fields [simp]:
  "frames s = [] \<Longrightarrow> ctx s = cmdline_machine s" "frames s = m # ms \<Longrightarrow> ctx s = m"
  "frames s = [] \<Longrightarrow> ctx_update f s = s\<lparr>cmdline_machine := f (cmdline_machine s)\<rparr>"
  "frames s = m # ms \<Longrightarrow> ctx_update f s = s\<lparr>frames := f m # ms\<rparr>"
  by (simp_all add: ctx_def ctx_update_def)

lemma lookup_ascii: "(of_char c :: nat) < 128 \<Longrightarrow> lookup_transition tab (uc c) = map_of tab c"
proof -
  assume a: "(of_char c :: nat) < 128"
  have u: "uc c = of_nat (of_char c)" by (simp only: of_nat_of_char)
  have "unat (uc c) = of_char c" using a by (simp add: u unat_of_nat)
  then show ?thesis using a by (simp add: lookup_transition_def word_less_nat_alt)
qed

lemma start_lookup:
  "lookup_transition (start_transitions E) (uc CHR ''('') = Some (run_cb teco_state_start_brace_open 0)"
  "lookup_transition (start_transitions E) (uc CHR ''+'') = Some (run_cb teco_state_start_plus 0)"
  "lookup_transition (start_transitions E) (uc CHR ''<'') = Some (run_cb teco_state_start_loop_open 1)"
  "lookup_transition (start_transitions E) (uc CHR ''>'') = Some (run_cb teco_state_start_loop_close 1)"
  by (subst lookup_ascii; simp add: start_transitions_def)+

text \<open>One character at a time, on the command line.\<close>

lemma step_done: "stop \<le> macro_pc (ctx s) \<Longrightarrow> step_loop E exec n macro stop s = (Inr (), s)"
  by (cases n) (simp_all add: step_loop.simps run_simps)

lemma step_char:
  assumes "macro_pc (ctx s) < stop" "stop \<le> length macro"
  shows "step_loop plain_env exec (Suc n) macro stop s =
    (case teco_machine_input plain_env exec (uc (macro ! macro_pc (ctx s)))
        (ctx_update (\<lambda>m. m\<lparr>macro_pc := Suc (macro_pc (ctx s))\<rparr>) s) of
      (Inl e, t) \<Rightarrow> (Inl e, t) | (Inr _, t) \<Rightarrow> step_loop plain_env exec n macro stop t)"
  using assms Cons_nth_drop_Suc [of "macro_pc (ctx s)" macro, symmetric]
  by (simp add: step_loop.simps run_simps fetch_def set_macro_pc_def split: prod.split sum.split)

lemmas command_eval =
  whenM_run cmdline_step_def teco_machine_main_step_def step_done step_char start_lookup [simplified]
  ctx_flags_def executing_def teco_machine_input_def state_input_def
  teco_state_start_input_def teco_is_noop_def teco_is_ctl_def teco_ascii_toupper_def Let_def
  teco_machine_main_transition_input_def ctx_change_def state_refresh_def state_initial_def
  teco_initial_def teco_machine_main_init_def get_radix_def radix_ref_def qreg_get_integer_def deref_def
  get_table_def teco_qreg_table_init_locals_def teco_qreg_radix_new_def teco_expressions_add_digit_def
  teco_state_start_brace_open_def teco_state_start_plus_def teco_state_start_loop_open_def
  teco_machine_main_eval_colon_def append_loop_def teco_undo_push_def teco_undo_pad_def push_token_def

lemmas macro_eval =
  validate_ascii schar_def with_frame_def error_cleanup_def catch_return_def attempt_def is_gerror_def
  crash_def macro_end_def teco_state_end_of_macro_def

end
