(* ===== verification/Rubout.thy ===== *)
theory Rubout
  imports Macro_Laws Concrete
begin

text \<open>
  Rubbing out a command: whatever a character of the command line does, popping the undo tokens
  that were pushed meanwhile restores the state, with all macros, loops, jumps and register
  commands included. The relation between the states before and after a command is interpreted in
  the locale \<open>macros\<close>.
\<close>

section \<open>States before a token runs\<close>

text \<open>
  What tokens do not restore: the frames of macros and the tables of their local registers, the
  program counter and two variables that are set before they are read. A macro that returns from within its loops leaves
  no contexts for the tokens of these loops, so loops above some height \<open>j\<close> are left open. The nesting of a string
  argument is 0 only while its command runs and is then set without a token.
\<close>

definition erase :: "teco \<Rightarrow> teco" where
  "erase s = s\<lparr>teco_undo_heads := [], teco_loop_stack := [], frames := [], macro_locals := [],
     teco_error_return_args := 0, is_executing := False,
     cmdline_machine := (cmdline_machine s)\<lparr>macro_pc := 0, es_nesting := 0\<rparr>\<rparr>"

definition weak :: "nat \<Rightarrow> 'a list \<Rightarrow> 'a list \<Rightarrow> bool" where
  "weak j l l' \<longleftrightarrow> take j l = take j l' \<and> length l \<le> length l'"

definition behind :: "nat \<Rightarrow> teco \<Rightarrow> teco \<Rightarrow> bool" where
  "behind j x s \<longleftrightarrow> erase x = erase s \<and> weak j (teco_loop_stack x) (teco_loop_stack s) \<and>
     (es_nesting (cmdline_machine s) \<noteq> 0 \<longrightarrow> es_nesting (cmdline_machine x) = es_nesting (cmdline_machine s))"

definition rolls :: "nat \<Rightarrow> teco \<Rightarrow> teco \<Rightarrow> bool" where
  "rolls j s t \<longleftrightarrow> (undo_ok s \<and> teco_undo_enabled s \<longrightarrow>
     undo_ok t \<and> teco_undo_enabled t \<and> cmdline_pc t = cmdline_pc s \<and> settled t = settled s \<and>
     (\<exists>ts. pending t = ts @ pending s \<and> (\<forall>x. behind j x t \<longrightarrow> behind j (run_tokens undo_action ts x) s)))"

lemma weak_refl: "weak j l l"
  by (simp add: weak_def)

lemma weak_all: "length l' \<le> j \<Longrightarrow> weak j l l' \<longleftrightarrow> l = l'"
  by (auto simp: weak_def)

lemma weak_snoc:
  assumes "weak j x (l @ [c])" shows "weak j (garray_remove_index (length l) x) l"
proof (cases "length x \<le> length l")
  case True
  then have "garray_remove_index (length l) x = x" by (simp add: garray_remove_index_def)
  moreover have "j \<le> length l"
  proof (rule ccontr)
    assume "\<not> j \<le> length l"
    then have "length (take j x) = Suc (length l)" using assms by (simp add: weak_def)
    then show False using True by simp
  qed
  ultimately show ?thesis using assms True by (simp add: weak_def)
next
  case False
  then have "length x = Suc (length l)" using assms by (simp add: weak_def)
  then obtain y d where x: "x = y @ [d]" "length y = length l" by (metis length_Suc_conv_rev)
  then have "garray_remove_index (length l) x = y" by (metis garray_remove_append)
  then show ?thesis using assms x by (auto simp: weak_def min_def split: if_splits)
qed

lemma weak_insert:
  assumes "weak j x l" shows "weak j (garray_insert_val (length l) c x) (l @ [c])"
proof (cases "length l \<le> j")
  case True
  then show ?thesis using assms by (simp add: weak_all weak_refl)
next
  case False
  have x: "take j x = take j l" "length x \<le> length l" using assms by (simp_all add: weak_def)
  then have "j \<le> length x" using False by (metis length_take min.absorb2 min.cobounded1 nat_le_linear)
  then show ?thesis using x False by (simp add: weak_def garray_insert_val_def)
qed

lemma weak_update: "weak j x l \<Longrightarrow> j \<le> i \<Longrightarrow> weak j (x[i := c]) l" "weak j x l \<Longrightarrow> j \<le> i \<Longrightarrow> weak j x (l[i := c])"
  by (simp_all add: weak_def)

lemma weak_take: "weak j x (take k l) \<Longrightarrow> j \<le> k \<Longrightarrow> weak j x l"
  by (auto simp: weak_def min_def split: if_splits)

lemma erase_heads [simp]: "erase (s\<lparr>teco_undo_heads := h\<rparr>) = erase s" "erase (core s) = erase s"
  by (simp_all add: erase_def core_def)

lemma behind_refl: "behind j s s"
  by (simp add: behind_def weak_refl)

lemma behind_heads [simp]:
  "behind j x (s\<lparr>teco_undo_heads := h\<rparr>) = behind j x s" "behind j (x\<lparr>teco_undo_heads := h\<rparr>) s = behind j x s"
  by (simp_all add: behind_def)

lemma behind_heads_loops [simp]:
  "behind j x (s\<lparr>teco_undo_heads := h, teco_loop_stack := l\<rparr>) = behind j x (s\<lparr>teco_loop_stack := l\<rparr>)"
  by (simp add: behind_def erase_def)

lemma behind_core: "core s = core t \<Longrightarrow> behind j x s = behind j x t"
  by (metis behind_heads(1) core_def)

lemma erase_undo: "plain_token t \<Longrightarrow> erase (undo_action t s) = erase (undo_action t (erase s))"
  by (cases t) (simp_all add: erase_def table_defs split: table_ref.split locals_ref.split)

lemma plain_loops: "plain_token t \<Longrightarrow> teco_loop_stack (undo_action t s) = teco_loop_stack s"
  by (cases t) (simp_all add: table_defs split: table_ref.split locals_ref.split)

lemma nesting_undo:
  "es_nesting (cmdline_machine (undo_action t s)) =
     (case t of Undo_es_nesting n \<Rightarrow> n | _ \<Rightarrow> es_nesting (cmdline_machine s))"
  by (cases t) (simp_all add: table_defs split: table_ref.split locals_ref.split)

lemma behind_undo:
  assumes "plain_token t" "behind j x s" shows "behind j (undo_action t x) (undo_action t s)"
proof -
  have "erase x = erase s" using assms(2) by (simp add: behind_def)
  then have "erase (undo_action t x) = erase (undo_action t s)"
    using erase_undo [OF assms(1)] by metis
  then show ?thesis using assms by (auto simp: behind_def plain_loops nesting_undo split: token.split)
qed

lemma behind_run: "list_all plain_token ts \<Longrightarrow> behind j x s \<Longrightarrow> behind j (run_tokens undo_action ts x) (run_tokens undo_action ts s)"
  by (induction ts arbitrary: x s) (auto intro: behind_undo)

section \<open>Rolling back\<close>

lemma rollsI:
  "(undo_ok s \<Longrightarrow> teco_undo_enabled s \<Longrightarrow>
     undo_ok t \<and> teco_undo_enabled t \<and> cmdline_pc t = cmdline_pc s \<and> settled t = settled s \<and>
     (\<exists>ts. pending t = ts @ pending s \<and> (\<forall>x. behind j x t \<longrightarrow> behind j (run_tokens undo_action ts x) s))) \<Longrightarrow> rolls j s t"
  by (simp add: rolls_def)

lemma rolls_refl: "rolls j s s"
  by (rule rollsI) (auto intro: exI [of _ "[]"])

lemma rolls_trans:
  assumes 1: "rolls j s t" and 2: "rolls j t u" shows "rolls j s u"
proof (rule rollsI)
  assume s: "undo_ok s" "teco_undo_enabled s"
  from 1 s obtain ts where t: "undo_ok t" "teco_undo_enabled t" "cmdline_pc t = cmdline_pc s" "settled t = settled s"
      "pending t = ts @ pending s" "\<And>x. behind j x t \<Longrightarrow> behind j (run_tokens undo_action ts x) s"
    by (auto simp: rolls_def)
  from 2 t obtain us where u: "undo_ok u" "teco_undo_enabled u" "cmdline_pc u = cmdline_pc t" "settled u = settled t"
      "pending u = us @ pending t" "\<And>x. behind j x u \<Longrightarrow> behind j (run_tokens undo_action us x) t"
    by (auto simp: rolls_def)
  have "pending u = (us @ ts) @ pending s" using t u by simp
  moreover have "behind j (run_tokens undo_action (us @ ts) x) s" if "behind j x u" for x
    using t(6) u(6) that by simp
  ultimately show "undo_ok u \<and> teco_undo_enabled u \<and> cmdline_pc u = cmdline_pc s \<and> settled u = settled s \<and>
      (\<exists>vs. pending u = vs @ pending s \<and> (\<forall>x. behind j x u \<longrightarrow> behind j (run_tokens undo_action vs x) s))"
    using t u by metis
qed

text \<open>Changes that need no token.\<close>

lemma undo_fields:
  assumes "teco_undo_heads t = teco_undo_heads s" "teco_undo_enabled t = teco_undo_enabled s" "cmdline_pc t = cmdline_pc s"
  shows "undo_ok t = undo_ok s" "pending t = pending s" "settled t = settled s"
  using assms by (simp_all add: undo_ok_def pending_def settled_def)

lemma rolls_silent:
  assumes "teco_undo_heads t = teco_undo_heads s" "teco_undo_enabled t = teco_undo_enabled s" "cmdline_pc t = cmdline_pc s"
    and "\<And>x. behind j x t \<Longrightarrow> behind j x s"
  shows "rolls j s t"
  using undo_fields [OF assms(1-3)] assms by (intro rollsI) (auto intro: exI [of _ "[]"])

text \<open>The elementary step with one token.\<close>

lemma rolls_token:
  assumes "undo_ok s \<Longrightarrow> teco_undo_enabled s \<Longrightarrow> teco_undo_heads t = settled s @ [tok # pending s]"
    and "teco_undo_enabled t = teco_undo_enabled s" "cmdline_pc t = cmdline_pc s"
    and "\<And>x. behind j x t \<Longrightarrow> behind j (undo_action tok x) s"
  shows "rolls j s t"
proof (rule rollsI)
  assume s: "undo_ok s" "teco_undo_enabled s"
  let ?u = "s\<lparr>teco_undo_heads := settled s @ [tok # pending s]\<rparr>"
  have "teco_undo_heads t = teco_undo_heads ?u" "teco_undo_enabled t = teco_undo_enabled ?u" "cmdline_pc t = cmdline_pc ?u"
    using assms(1-3) s by simp_all
  from undo_fields [OF this] have "undo_ok t" "pending t = [tok] @ pending s" "settled t = settled s"
    using pushed_stack [OF s(1)] by simp_all
  then show "undo_ok t \<and> teco_undo_enabled t \<and> cmdline_pc t = cmdline_pc s \<and> settled t = settled s \<and>
      (\<exists>vs. pending t = vs @ pending s \<and> (\<forall>x. behind j x t \<longrightarrow> behind j (run_tokens undo_action vs x) s))"
    using s assms(2-4) by (metis run_tokens.simps)
qed

lemma rolls_change:
  assumes "\<And>h x. behind j x (f (s\<lparr>teco_undo_heads := h\<rparr>)) \<Longrightarrow> behind j (undo_action (tok s) x) s"
    and "\<And>s. teco_undo_heads (f s) = teco_undo_heads s" "\<And>s. teco_undo_enabled (f s) = teco_undo_enabled s"
      "\<And>s. cmdline_pc (f s) = cmdline_pc s"
  shows "rolls j s (snd (thenM (push_token (tok s)) (modify f) s))"
proof (rule rollsI)
  assume s: "undo_ok s" "teco_undo_enabled s"
  then have "push_token (tok s) s = (Inr (), s\<lparr>teco_undo_heads := settled s @ [tok s # pending s]\<rparr>)"
    by (simp add: push_token_def teco_undo_push_ok)
  then have "rolls j s (snd (thenM (push_token (tok s)) (modify f) s))"
    using assms by (intro rolls_token [where tok = "tok s"]) (simp_all add: run_simps)
  with s show "undo_ok (snd (thenM (push_token (tok s)) (modify f) s)) \<and>
     teco_undo_enabled (snd (thenM (push_token (tok s)) (modify f) s)) \<and>
     cmdline_pc (snd (thenM (push_token (tok s)) (modify f) s)) = cmdline_pc s \<and>
     settled (snd (thenM (push_token (tok s)) (modify f) s)) = settled s \<and>
     (\<exists>ts. pending (snd (thenM (push_token (tok s)) (modify f) s)) = ts @ pending s \<and>
       (\<forall>x. behind j x (snd (thenM (push_token (tok s)) (modify f) s)) \<longrightarrow> behind j (run_tokens undo_action ts x) s))"
    by (simp add: rolls_def)
qed

text \<open>
  A rollback in the sense of theory \<open>Undo\<close> whose tokens do not work on the loop stack. The tokens of the
  expression stacks have a kind of their own.
\<close>

fun stack_token :: "token \<Rightarrow> bool" where
  "stack_token (Undo_remove_number i) = True"
| "stack_token (Undo_insert_number i n) = True"
| "stack_token (Undo_remove_operator i) = True"
| "stack_token (Undo_insert_operator i op) = True"
| "stack_token (Undo_num_sign n) = True"
| "stack_token (Undo_brace_level n) = True"
| "stack_token _ = False"

definition pushes :: "(token \<Rightarrow> bool) \<Rightarrow> teco \<Rightarrow> teco \<Rightarrow> bool" where
  "pushes T s t \<longleftrightarrow> (undo_ok s \<and> teco_undo_enabled s \<longrightarrow>
     undo_ok t \<and> teco_undo_enabled t \<and> cmdline_pc t = cmdline_pc s \<and> settled t = settled s \<and>
     (\<exists>ts. pending t = ts @ pending s \<and> list_all T ts))"

interpretation pu: step_preorder "pushes T" for T
proof (unfold_locales, goal_cases)
  case (1 s)
  show ?case by (auto simp: pushes_def intro: exI [of _ "[]"])
next
  case (2 s t u)
  then show ?case by (auto simp: pushes_def)
qed

lemma pushes_push: "T tok \<Longrightarrow> pushes T s (snd (push_token tok s))"
  by (auto simp: pushes_def push_token_def teco_undo_push_ok)

lemma pushes_modify:
  "teco_undo_heads t = teco_undo_heads s \<Longrightarrow> teco_undo_enabled t = teco_undo_enabled s \<Longrightarrow> cmdline_pc t = cmdline_pc s \<Longrightarrow> pushes T s t"
  using undo_fields [of t s] by (auto simp: pushes_def intro: exI [of _ "[]"])

lemma pushes_change:
  assumes "\<And>s. T (t s)" "\<And>s. teco_undo_heads (f s) = teco_undo_heads s"
    "\<And>s. teco_undo_enabled (f s) = teco_undo_enabled s" "\<And>s. cmdline_pc (f s) = cmdline_pc s"
  shows "obeys (pushes T) (change t f)"
  unfolding change_def using assms
  by (intro pu.get_then pu.then_at) (auto simp: modify_run intro: pushes_push pushes_modify)

lemma pushes_after:
  assumes "\<And>s. T (t s)" "\<And>s. teco_undo_heads (f s) = teco_undo_heads s"
    "\<And>s. teco_undo_enabled (f s) = teco_undo_enabled s" "\<And>s. cmdline_pc (f s) = cmdline_pc s"
  shows "obeys (pushes T) (thenM (modify f) (bindM (gets t) push_token))"
  using assms by (intro pu.thenM pu.modify pushes_modify pu.get_then pushes_push) simp_all

lemma rolls_plain:
  assumes "reverts s t" "pushes plain_token s t" shows "rolls j s t"
proof (rule rollsI)
  assume s: "undo_ok s" "teco_undo_enabled s"
  from assms s obtain ts where t: "undo_ok t" "teco_undo_enabled t" "cmdline_pc t = cmdline_pc s" "settled t = settled s"
    "pending t = ts @ pending s" "run_tokens undo_action ts (core t) = core s" "list_all plain_token ts"
    by (auto simp: pushes_def rollback_def)
  have "behind j (run_tokens undo_action ts x) s" if "behind j x t" for x
  proof -
    have "behind j x (core t)" using that by (simp add: core_def)
    then have "behind j (run_tokens undo_action ts x) (core s)" using behind_run [OF t(7)] t(6) by metis
    then show ?thesis by (simp add: core_def)
  qed
  then show "undo_ok t \<and> teco_undo_enabled t \<and> cmdline_pc t = cmdline_pc s \<and> settled t = settled s \<and>
     (\<exists>ts. pending t = ts @ pending s \<and> (\<forall>x. behind j x t \<longrightarrow> behind j (run_tokens undo_action ts x) s))"
    using t by blast
qed

text \<open>The expression stacks.\<close>

interpretation pst: stack_relation "pushes stack_token"
proof (unfold_locales, goal_cases)
  case (1 op)
  then show ?case unfolding teco_expressions_push_op_def
    by (rule pushes_after) simp_all
next
  case (2 i s)
  show ?case unfolding teco_expressions_pop_op_def
    by (rule obeysD) (intro pu.intros pushes_change; simp)
next
  case (3 n)
  then show ?case unfolding append_number_def
    by (rule pushes_after) simp_all
next
  case 4
  then show ?case unfolding teco_expressions_pop_num_def teco_expressions_pop_op_def
    by (intro pu.intros pushes_change) simp_all
next
  case (5 sign)
  show ?case unfolding teco_set_num_sign_def by (rule pushes_change) simp_all
qed

lemma pushes_command: "obeys (pushes stack_token) (run_command c)"
proof -
  have l: "obeys (pushes stack_token) (set_brace_level f)" for f
    unfolding set_brace_level_def by (rule pushes_change) simp_all
  have "obeys (pushes stack_token) (teco_expressions_brace_return keep n)" for keep n
    unfolding teco_expressions_brace_return_def
    by (intro pst.stack_intros pst.brace_loop pushes_modify pu.get_then pushes_push) simp_all
  moreover have "obeys (pushes stack_token) teco_expressions_brace_open" "obeys (pushes stack_token) teco_expressions_brace_close"
    unfolding teco_expressions_brace_open_def teco_expressions_brace_close_def by (intro pst.stack_intros l)+
  ultimately show ?thesis by (cases c) (auto intro: pst.stack_intros)
qed

text \<open>A change that the tokens of the stacks do not notice can be made before or after the operations.\<close>

lemma pushes_mono: "pushes T s t \<Longrightarrow> (\<And>tok. T tok \<Longrightarrow> T' tok) \<Longrightarrow> pushes T' s t"
  by (auto simp: pushes_def list_all_iff)

lemma stack_plain: "stack_token tok \<Longrightarrow> plain_token tok"
  by (cases tok) simp_all

lemma rolls_around:
  assumes r: "reverts s t" "pushes stack_token s t"
    and c: "\<And>tok s. stack_token tok \<Longrightarrow> undo_action tok (g s) = g (undo_action tok s)"
    and g: "\<And>s. teco_undo_heads (g s) = teco_undo_heads s" "\<And>s. teco_undo_enabled (g s) = teco_undo_enabled s"
      "\<And>s. cmdline_pc (g s) = cmdline_pc s" "\<And>s. core (g s) = g (core s)"
  shows "rolls j (g s) (g t)"
proof (rule rolls_plain)
  have run: "run_tokens undo_action ts (g u) = g (run_tokens undo_action ts u)" if "list_all stack_token ts" for ts u
    using that by (induction ts arbitrary: u) (simp_all add: c)
  have f: "undo_ok (g u) = undo_ok u" "pending (g u) = pending u" "settled (g u) = settled u" for u
    using undo_fields [OF g(1-3)] by blast+
  show "pushes plain_token (g s) (g t)"
    using pushes_mono [OF r(2) stack_plain] by (simp add: pushes_def f g)
  show "reverts (g s) (g t)"
    using r run by (auto simp: rollback_def pushes_def f g)
qed

section \<open>The relations of the interpreter\<close>

text \<open>
  A command only changes the machine that executes it, the innermost one, and nothing of what
  identifies that machine. If the machines are set up as the interpreter does it (\<open>ready\<close>), the loops around a macro stay, and its tokens
  restore the state up to loops of its own.
\<close>

definition ident :: "machine \<Rightarrow> bool \<times> bool \<times> nat \<times> locals_ref" where
  "ident m = (must_undo m, goto_must_undo m, loop_stack_fp m, qreg_table_locals m)"

definition same_place :: "teco \<Rightarrow> teco \<Rightarrow> bool" where
  "same_place s t \<longleftrightarrow>
     (case frames s of
        [] \<Rightarrow> frames t = [] \<and> ident (cmdline_machine t) = ident (cmdline_machine s)
      | m # ms \<Rightarrow> (\<exists>m'. frames t = m' # ms \<and> ident m' = ident m) \<and> cmdline_machine t = cmdline_machine s)"

definition ready :: "teco \<Rightarrow> bool" where
  "ready s \<longleftrightarrow> must_undo (cmdline_machine s) \<and> goto_must_undo (cmdline_machine s) \<and>
     (\<forall>m \<in> set (frames s). \<not> must_undo m \<and> \<not> goto_must_undo m) \<and>
     loop_stack_fp (ctx s) \<le> length (teco_loop_stack s)"

definition inner :: "teco \<Rightarrow> teco \<Rightarrow> bool" where
  "inner s t \<longleftrightarrow> same_place s t \<and>
     (ready s \<longrightarrow> loop_stack_fp (ctx s) \<le> length (teco_loop_stack t) \<and>
        take (loop_stack_fp (ctx s)) (teco_loop_stack t) = take (loop_stack_fp (ctx s)) (teco_loop_stack s) \<and>
        (\<forall>j. frames s = [] \<or> j \<le> loop_stack_fp (ctx s) \<longrightarrow> rolls j s t))"

definition outer :: "teco \<Rightarrow> teco \<Rightarrow> bool" where
  "outer s t \<longleftrightarrow> inner s t \<and> es_nesting (ctx t) = es_nesting (ctx s)"

definition caught :: "teco_error \<Rightarrow> teco \<Rightarrow> bool" where
  "caught e s \<longleftrightarrow> e = TECO_ERROR_RETURN \<and> frames s \<noteq> []"

lemma same_place_refl: "same_place s s"
  by (simp add: same_place_def split: list.split)

lemma same_place_trans: "same_place s t \<Longrightarrow> same_place t u \<Longrightarrow> same_place s u"
  by (auto simp: same_place_def split: list.splits)

lemma same_place_frames: "same_place s t \<Longrightarrow> frames t = [] \<longleftrightarrow> frames s = []"
  by (auto simp: same_place_def split: list.splits)

lemma same_place_ctx: "same_place s t \<Longrightarrow> ident (ctx t) = ident (ctx s)"
  by (auto simp: same_place_def ctx_def split: list.splits)

lemma same_place_fp: "same_place s t \<Longrightarrow> loop_stack_fp (ctx t) = loop_stack_fp (ctx s)"
  by (auto dest: same_place_ctx simp: ident_def)

lemma ready_ctx: "ready s \<Longrightarrow> must_undo (ctx s) = (frames s = []) \<and> goto_must_undo (ctx s) = (frames s = [])"
  by (auto simp: ready_def ctx_def split: list.splits)

lemma ready_kept: "same_place s t \<Longrightarrow> loop_stack_fp (ctx s) \<le> length (teco_loop_stack t) \<Longrightarrow> ready s \<Longrightarrow> ready t"
  by (auto simp: ready_def same_place_fp) (auto simp: same_place_def ident_def split: list.splits)

lemma inner_trans:
  assumes "inner s t" "inner t u" shows "inner s u"
proof -
  have p: "same_place s t" "same_place t u" using assms by (simp_all add: inner_def)
  have "ready t" if "ready s" using that assms(1) p ready_kept by (auto simp: inner_def)
  then show ?thesis using assms p same_place_trans [OF p] same_place_fp [OF p(1)] same_place_frames [OF p(1)]
    by (auto simp: inner_def intro: rolls_trans)
qed

interpretation inr: error_steps inner caught
proof (unfold_locales, goal_cases)
  case (1 s)
  show ?case by (simp add: inner_def same_place_refl rolls_refl ready_def)
next
  case (2 s t u)
  then show ?case by (rule inner_trans)
next
  case (3 s t e)
  then show ?case by (auto simp: inner_def caught_def dest: same_place_frames)
next
  case (4 e s)
  then show ?case by (simp add: caught_def)
qed

interpretation out: error_steps outer caught
proof (unfold_locales, goal_cases)
  case (1 s)
  show ?case by (simp add: outer_def inr.R_refl)
next
  case (2 s t u)
  then show ?case by (auto simp: outer_def intro: inner_trans)
next
  case (3 s t e)
  then show ?case by (auto simp: outer_def intro: inr.tol_mono)
next
  case (4 e s)
  then show ?case by (simp add: caught_def)
qed

lemma steps_success:
  "(\<And>x t. m s = (Inr x, t) \<Longrightarrow> R s t) \<Longrightarrow> noret m s \<Longrightarrow> steps R caught m s"
  by (auto simp: steps_def noret_def caught_def split: prod.split sum.split)

text \<open>Commands that leave the machines and the loops alone.\<close>

definition calm :: "teco \<Rightarrow> teco \<Rightarrow> bool" where
  "calm s t \<longleftrightarrow> frames t = frames s \<and> cmdline_machine t = cmdline_machine s \<and> teco_loop_stack t = teco_loop_stack s"

interpretation ca: step_preorder calm
  by unfold_locales (simp_all add: calm_def)

lemma calm_push: "calm s (snd (push_token t s))"
  using push_token_state [of t s] by (auto simp: calm_def)

lemma calm_stacks: "obeys stacks_only m \<Longrightarrow> obeys calm m"
proof (unfold obeys_def, rule allI)
  fix s
  assume "\<forall>s. stacks_only s (snd (m s))"
  then have "stacks_only s (snd (m s))" by blast
  from stacks_onlyD [OF this] show "calm s (snd (m s))" by (simp add: calm_def)
qed

lemma calm_change: "(\<And>s. calm s (f s)) \<Longrightarrow> obeys calm (change t f)"
  unfolding change_def by (intro ca.get_then ca.then_at calm_push) (simp add: modify_run)

lemma calm_place: "calm s t \<Longrightarrow> same_place s t \<and> ctx t = ctx s"
  by (auto simp: calm_def same_place_def ctx_def split: list.split)

lemma outer_calm:
  assumes "calm s t" "\<And>j. rolls j s t" shows "outer s t"
  using assms calm_place [OF assms(1)] by (auto simp: outer_def inner_def ready_def calm_def)

lemma outer_plain: "calm s t \<Longrightarrow> reverts s t \<Longrightarrow> pushes plain_token s t \<Longrightarrow> outer s t"
  by (intro outer_calm rolls_plain)

lemma outer_program:
  assumes "obeys calm m" "obeys reverts m" "obeys (pushes plain_token) m" shows "obeys outer m"
  unfolding obeys_def using assms by (auto intro!: outer_plain dest: obeysD)

lemma outer_stacks:
  assumes "obeys stacks_only m" "obeys reverts m" "obeys (pushes stack_token) m" shows "obeys outer m"
proof (rule outer_program)
  show "obeys (pushes plain_token) m"
    using assms(3) by (auto simp: obeys_def intro: pushes_mono stack_plain)
qed (use assms calm_stacks in auto)

text \<open>Changes that no token has to revert.\<close>

lemma outer_silent:
  assumes "teco_undo_heads t = teco_undo_heads s" "teco_undo_enabled t = teco_undo_enabled s" "cmdline_pc t = cmdline_pc s"
    and "erase t = erase s" "teco_loop_stack t = teco_loop_stack s" "same_place s t"
    and "es_nesting (ctx t) = es_nesting (ctx s)" "es_nesting (cmdline_machine t) = es_nesting (cmdline_machine s)"
  shows "outer s t"
proof -
  have "rolls j s t" for j
    using assms by (intro rolls_silent) (simp_all add: behind_def)
  then show ?thesis using assms by (simp add: outer_def inner_def ready_def)
qed

text \<open>One token for one change.\<close>

lemma outer_token:
  assumes "plain_token tok" "\<And>h. undo_action tok (core (f (s\<lparr>teco_undo_heads := h\<rparr>))) = core s"
    and "\<And>s. teco_undo_heads (f s) = teco_undo_heads s" "\<And>s. teco_undo_enabled (f s) = teco_undo_enabled s"
      "\<And>s. cmdline_pc (f s) = cmdline_pc s" "\<And>s. calm s (f s)"
  shows "outer s (snd (thenM (push_token tok) (modify f) s))"
proof (rule outer_plain)
  show "reverts s (snd (thenM (push_token tok) (modify f) s))"
    unfolding push_token_def using assms by (intro ulog.rollback_step)
  show "pushes plain_token s (snd (thenM (push_token tok) (modify f) s))"
    using assms by (intro pu.then_at pushes_push) (auto simp: modify_run intro: pushes_modify)
  show "calm s (snd (thenM (push_token tok) (modify f) s))"
    using assms(6) by (intro ca.then_at calm_push) (simp add: modify_run)
qed

lemma outer_push:
  assumes "plain_token tok" "undo_action tok (core s) = core s"
  shows "outer s (snd (push_token tok s))"
proof -
  have "snd (thenM (push_token tok) (modify (\<lambda>s. s)) s) = snd (push_token tok s)"
    by (auto simp: run_simps split: prod.split sum.split)
  then show ?thesis using outer_token [of tok "\<lambda>s. s" s] assms by (simp add: ca.R_refl)
qed

section \<open>Stack commands\<close>

interpretation cst: stack_relation calm
proof (unfold_locales, goal_cases)
  case (2 i s)
  show ?case by (rule obeysD [OF calm_stacks]) (rule so_pop_op)
qed (intro calm_stacks so.stack_intros)+

lemma calm_command: "obeys calm (run_command c)"
proof -
  have l: "obeys calm (set_brace_level f)" for f
    unfolding set_brace_level_def by (rule calm_change) (simp add: calm_def)
  have "obeys calm (teco_expressions_brace_return keep n)" for keep n
    unfolding teco_expressions_brace_return_def
    by (intro cst.stack_intros cst.brace_loop ca.get_then calm_push) (simp add: calm_def)
  moreover have "obeys calm teco_expressions_brace_open" "obeys calm teco_expressions_brace_close"
    unfolding teco_expressions_brace_open_def teco_expressions_brace_close_def by (intro cst.stack_intros l)+
  ultimately show ?thesis by (cases c) (auto intro: cst.stack_intros)
qed

lemma outer_command: "obeys outer (run_command c)"
proof (rule outer_program)
  show "obeys (pushes plain_token) (run_command c)"
    using pushes_command by (auto simp: obeys_def intro: pushes_mono stack_plain)
qed (rule calm_command reverts_command)+

lemma outer_pops:
  "obeys outer (teco_expressions_pop_num 0)" "obeys outer (pop_args n acc)"
  "obeys outer (teco_expressions_push_op op)" "obeys outer (teco_expressions_pop_num_calc v)"
  by (intro outer_stacks so.stack_intros rv.stack_intros pst.stack_intros)+

section \<open>Changes of the executing machine\<close>

text \<open>A field is restored by its token on the command line, and goes with its frame in a macro.\<close>

lemma inner_machine:
  assumes "ident (f (ctx s)) = ident (ctx s)" "plain_token tok"
    and "\<And>u. cmdline_machine s = ctx s \<Longrightarrow> undo_action tok (u\<lparr>cmdline_machine := f (ctx s)\<rparr>) = u\<lparr>cmdline_machine := ctx s\<rparr>"
    and "thenM (whenM (must_undo (ctx s)) (push_token tok)) (modify (ctx_update f)) s = (Inr x, t)"
  shows "inner s t"
proof -
  have "\<exists>h. t = ctx_update f (s\<lparr>teco_undo_heads := h\<rparr>)"
  proof (cases "must_undo (ctx s)")
    case True
    then show ?thesis using assms(4) push_token_state [of tok s]
      by (auto simp: run_simps split: prod.splits sum.splits)
  next
    case False
    then have "t = ctx_update f (s\<lparr>teco_undo_heads := teco_undo_heads s\<rparr>)" using assms(4) by (simp add: run_simps)
    then show ?thesis by blast
  qed
  then obtain h where t: "t = ctx_update f (s\<lparr>teco_undo_heads := h\<rparr>)" by blast
  have place: "same_place s t"
    using assms(1) by (auto simp: t same_place_def ctx_update_def ctx_def split: list.split)
  have "inner s t" if r: "ready s"
  proof (cases "frames s")
    case Nil
    have c: "ctx s = cmdline_machine s" "must_undo (ctx s)"
      using Nil ready_ctx [OF r] by (simp_all add: ctx_def)
    let ?g = "\<lambda>u. u\<lparr>cmdline_machine := f (ctx s)\<rparr>"
    from assms(4) c(2) have "snd (thenM (push_token tok) (modify ?g) s) = t"
      using push_token_state [of tok s] Nil
      by (auto simp: run_simps ctx_update_def c(1) split: prod.splits sum.splits)
    moreover have "reverts s (snd (thenM (push_token tok) (modify ?g) s))"
      unfolding push_token_def using assms(3) c(1) by (intro ulog.rollback_step) (simp_all add: core_def)
    moreover have "pushes plain_token s (snd (thenM (push_token tok) (modify ?g) s))"
      using assms(2) by (intro pu.then_at pushes_push) (auto simp: modify_run intro: pushes_modify)
    ultimately have "rolls j s t" for j by (simp add: rolls_plain)
    then show ?thesis using place r by (simp add: inner_def ready_def t)
  next
    case (Cons m ms)
    then have "t = ctx_update f s" using assms(4) ready_ctx [OF r] by (simp add: run_simps)
    moreover have "rolls j s (ctx_update f s)" for j
      using Cons by (intro rolls_silent) (simp_all add: ctx_update_def behind_def erase_def)
    ultimately show ?thesis using place r by (simp add: inner_def ready_def)
  qed
  then show ?thesis using place by (auto simp: inner_def)
qed

lemma inner_ctx_change:
  assumes "\<And>m. ident (f m) = ident m" "\<And>m. plain_token (tok m)"
    and "\<And>m u. undo_action (tok m) (u\<lparr>cmdline_machine := f m\<rparr>) = u\<lparr>cmdline_machine := m\<rparr>"
  shows "steps inner caught (ctx_change tok f) s"
proof (rule steps_success [OF _ noret_ctx_change])
  fix x t
  assume "ctx_change tok f s = (Inr x, t)"
  then have "thenM (whenM (must_undo (ctx s)) (push_token (tok (ctx s)))) (modify (ctx_update f)) s = (Inr x, t)"
    by (simp add: ctx_change_def bindM_run gets_run)
  then show "inner s t" by (rule inner_machine [rotated 3]) (rule assms)+
qed

lemma outer_field:
  assumes "machine_field tok f" shows "steps outer caught (ctx_change tok f) s"
proof -
  have i: "steps inner caught (ctx_change tok f) s"
    using assms by (intro inner_ctx_change) (auto simp: machine_field_def machine_frame_def ident_def)
  have n: "es_nesting (ctx t) = es_nesting (ctx s)" if "ctx_change tok f s = (Inr x, t)" for x t
  proof -
    have "es_nesting (f m) = es_nesting m" for m using assms by (simp add: machine_field_def machine_frame_def)
    then show ?thesis using that push_token_state [of "tok (ctx s)" s]
      by (auto simp: ctx_change_def run_simps split: prod.splits sum.splits if_splits)
  qed
  show ?thesis
    by (rule steps_success [OF _ noret_ctx_change]) (use i n in \<open>auto simp: outer_def steps_def\<close>)
qed

lemma outer_string:
  assumes "str = es_string (ctx s) @ new"
  shows "steps outer caught (thenM (push_if (must_undo (ctx s)) (Undo_es_truncate (length (es_string (ctx s)))))
    (modify (ctx_update (\<lambda>m. m\<lparr>es_string := str\<rparr>)))) s"
proof (rule steps_success)
  let ?tok = "Undo_es_truncate (length (es_string (ctx s)))"
  show "noret (thenM (push_if (must_undo (ctx s)) ?tok) (modify (ctx_update (\<lambda>m. m\<lparr>es_string := str\<rparr>)))) s"
    unfolding push_if_def by (intro noret_intros)
  fix x t
  assume t: "thenM (push_if (must_undo (ctx s)) ?tok) (modify (ctx_update (\<lambda>m. m\<lparr>es_string := str\<rparr>))) s = (Inr x, t)"
  have "inner s t"
    by (rule inner_machine [OF _ _ _ t [unfolded push_if_def]])
      (simp_all add: ident_def assms truncated_take)
  moreover have "es_nesting (ctx t) = es_nesting (ctx s)"
    using t push_token_state [of ?tok s] by (auto simp: push_if_def run_simps split: prod.splits sum.splits if_splits)
  ultimately show "outer s t" by (simp add: outer_def)
qed

lemma outer_pc: "outer s (ctx_update (\<lambda>m. m\<lparr>macro_pc := n\<rparr>) s)"
  by (rule outer_silent) (auto simp: ctx_update_def ctx_def erase_def same_place_def ident_def split: list.split)

lemma outer_frame:
  assumes "frames s \<noteq> []" "\<And>m. machine_frame (f m) = machine_frame m"
  shows "outer s (ctx_update f s)"
  using assms
  by (intro outer_silent)
    (auto simp: ctx_update_def ctx_def erase_def same_place_def ident_def machine_frame_def split: list.split)

lemma reset_nesting:
  assumes "es_nesting (ctx s) = 0" shows "inner s (ctx_update (\<lambda>m. m\<lparr>es_nesting := 1\<rparr>) s)"
proof -
  let ?t = "ctx_update (\<lambda>m. m\<lparr>es_nesting := 1\<rparr>) s"
  have "rolls j s ?t" for j
    using assms by (intro rolls_silent) (auto simp: ctx_update_def ctx_def behind_def erase_def split: list.splits)
  moreover have "same_place s ?t" by (auto simp: same_place_def ctx_update_def ident_def split: list.split)
  ultimately show ?thesis by (simp add: inner_def ready_def)
qed

lemma outer_return: "steps outer caught (return_error :: unit tm) s"
proof (cases "frames s = []")
  case True
  have "return_error s = (Inl e, t) \<or> (\<exists>e t. return_error s = (Inl e, t))" for e :: teco_error and t and x :: unit
    by (auto simp: return_error_def run_simps split: prod.splits sum.splits)
  then obtain e t where "return_error s = (Inl e :: teco_error + unit, t)" by blast
  then show ?thesis using True by (simp add: steps_def caught_def)
next
  case False
  have m: "outer s (ctx_update (\<lambda>m. m\<lparr>current := teco_state_start\<rparr>) s)"
    using False by (intro outer_frame) (simp_all add: machine_frame_def)
  have e: "steps outer caught (teco_expressions_eval False) u" for u
    using outer_command [of Eval] by (intro steps_obeys) simp
  have a: "outer u (u\<lparr>teco_error_return_args := n\<rparr>)" for u n
    by (rule outer_silent) (auto simp: ctx_def erase_def same_place_def split: list.split)
  show ?thesis unfolding return_error_def
    by (intro out.st_then out.st_modify m e a out.st_throw)
qed

section \<open>Registers\<close>

text \<open>Registers of macros go with their tables; the tokens of the others restore them.\<close>

lemma update_fields [simp]:
  "teco_undo_heads (update_table r f s) = teco_undo_heads s" "teco_undo_enabled (update_table r f s) = teco_undo_enabled s"
  "cmdline_pc (update_table r f s) = cmdline_pc s" "frames (update_table r f s) = frames s"
  "cmdline_machine (update_table r f s) = cmdline_machine s" "teco_loop_stack (update_table r f s) = teco_loop_stack s"
  "ctx (update_table r f s) = ctx s" "teco_qreg_stack (update_table r f s) = teco_qreg_stack s"
  "(update_table r f s)\<lparr>teco_undo_heads := h\<rparr> = update_table r f (s\<lparr>teco_undo_heads := h\<rparr>)"
  by (cases "frames s"; simp add: update_table_def ctx_def split: table_ref.split locals_ref.split)+

lemma update_table_restore:
  "table_must_undo r \<Longrightarrow> f (g (get_table r s)) = get_table r s \<Longrightarrow> update_table r f (update_table r g s) = s"
  by (cases r rule: table_must_undo.cases) (simp_all add: table_defs)

lemma outer_macro_table: "\<not> table_must_undo r \<Longrightarrow> outer s (update_table r f s)"
  by (cases r rule: table_must_undo.cases)
    (auto simp: erase_def same_place_def update_table_def ctx_def intro!: outer_silent split: list.split)

lemma calm_update: "calm s (update_table r f s)"
  by (simp add: calm_def)

lemma get_table_core [simp]: "get_table r (core s) = get_table r s"
  by (simp add: core_def)

lemma outer_table_token:
  assumes "plain_token tok" "\<And>u. undo_action tok u = update_table r f u" "f (g (get_table r s)) = get_table r s"
  shows "outer s (snd (thenM (push_if (table_must_undo r) tok) (modify (update_table r g)) s))"
proof (cases "table_must_undo r")
  case False
  then show ?thesis by (simp add: push_if_def run_simps outer_macro_table)
next
  case True
  then have "outer s (snd (thenM (push_token tok) (modify (update_table r g)) s))"
    using assms by (intro outer_token) (simp_all add: calm_update core_def update_table_restore)
  then show ?thesis using True by (simp add: push_if_def whenM_def)
qed

lemma restore_qreg:
  "t n = Some q \<Longrightarrow> f (g q) = q \<Longrightarrow> (t(n := map_option g (t n)))(n := map_option f ((t(n := map_option g (t n))) n)) = t"
  by (auto simp: fun_eq_iff)

lemma outer_push_if:
  assumes "plain_token tok" "undo_action tok (core s) = core s"
  shows "outer s (snd (push_if b tok s))"
  using outer_push [OF assms] by (simp add: push_if_def whenM_run out.R_refl)

text \<open>The token of a register's integer or string, with the change or without.\<close>

lemma qreg_integer_same: "get_table (fst r) s (snd r) = Some q \<Longrightarrow> table_must_undo (fst r) \<Longrightarrow>
    undo_action (Undo_qreg_integer r (qreg_integer q)) (core s) = core s"
  by (cases "fst r" rule: table_must_undo.cases)
    (simp_all add: table_defs core_def fun_upd_idem)

lemma qreg_string_same: "get_table (fst r) s (snd r) = Some q \<Longrightarrow> table_must_undo (fst r) \<Longrightarrow>
    undo_action (Undo_qreg_string r (qreg_string q)) (core s) = core s"
  by (cases "fst r" rule: table_must_undo.cases)
    (simp_all add: table_defs core_def fun_upd_idem)

lemma outer_undo_integer: "obeys outer (qreg_undo_set_integer r)"
  unfolding obeys_def
proof
  fix s
  show "outer s (snd (qreg_undo_set_integer r s))"
  proof (cases "get_table (fst r) s (snd r)")
    case None
    then show ?thesis by (simp add: qreg_undo_set_integer_def deref_def run_simps out.R_refl)
  next
    case (Some q)
    then have "outer s (snd (push_if (table_must_undo (fst r)) (Undo_qreg_integer r (qreg_integer q)) s))"
      using qreg_integer_same [OF Some] outer_push_if [of "Undo_qreg_integer r (qreg_integer q)" s True]
      by (cases "table_must_undo (fst r)") (simp_all add: push_if_def whenM_def ret_run out.R_refl)
    then show ?thesis using Some by (simp add: qreg_undo_set_integer_def deref_def run_simps)
  qed
qed

lemma integer_run:
  assumes "get_table (fst r) s (snd r) = Some q"
  shows "thenM (qreg_undo_set_integer r) (qreg_set_integer r v) s =
    (if qreg_is_radix q \<and> sint v < 2
     then thenM (push_if (table_must_undo (fst r)) (Undo_qreg_integer r (qreg_integer q))) (throw (TECO_ERROR_FAILED ''Invalid radix'')) s
     else thenM (push_if (table_must_undo (fst r)) (Undo_qreg_integer r (qreg_integer q)))
       (modify (update_qreg r (\<lambda>q. q\<lparr>qreg_integer := v\<rparr>))) s)"
  using push_token_state [of "Undo_qreg_integer r (qreg_integer q)" s] assms
  by (auto simp: qreg_undo_set_integer_def qreg_set_integer_def deref_def push_if_def run_simps
      split: prod.split sum.split)

lemma outer_integer: "obeys outer (thenM (qreg_undo_set_integer r) (qreg_set_integer r v))"
  unfolding obeys_def
proof
  fix s
  show "outer s (snd (thenM (qreg_undo_set_integer r) (qreg_set_integer r v) s))"
  proof (cases "get_table (fst r) s (snd r)")
    case None
    then show ?thesis by (simp add: qreg_undo_set_integer_def deref_def run_simps out.R_refl)
  next
    case (Some q)
    let ?p = "push_if (table_must_undo (fst r)) (Undo_qreg_integer r (qreg_integer q))"
    have "outer s (snd (thenM ?p (modify (update_qreg r (\<lambda>q. q\<lparr>qreg_integer := v\<rparr>))) s))"
      unfolding update_qreg_def
      by (rule outer_table_token [where f = "\<lambda>tab. tab(snd r := map_option (\<lambda>p. p\<lparr>qreg_integer := qreg_integer q\<rparr>) (tab (snd r)))"])
        (simp_all add: update_qreg_def restore_qreg Some fun_upd_idem)
    moreover have "snd (thenM ?p (throw e :: unit tm) s) = snd (?p s)" for e
      by (simp add: run_simps split: prod.split sum.split)
    moreover have "outer s (snd (?p s))"
      using obeysD [OF outer_undo_integer [of r], of s] Some by (simp add: qreg_undo_set_integer_def deref_def run_simps)
    ultimately show ?thesis by (simp add: integer_run [OF Some])
  qed
qed

text \<open>An argument taken between the token and the change.\<close>

lemma update_commute:
  "stack_token tok \<Longrightarrow> undo_action tok (update_table r f s) = update_table r f (undo_action tok s)"
  by (cases tok) (simp_all add: update_table_def split: table_ref.split locals_ref.split)

lemma number_arg_stacks:
  assumes "number_arg a"
  shows "obeys stacks_only a" "obeys reverts a" "obeys (pushes stack_token) a" "noret a s"
  using assms unfolding number_arg_def
  by (auto intro: so.stack_intros rv.stack_intros pst.stack_intros noret_pop_num noret_pop_num_calc)

lemma outer_integer_arg:
  assumes a: "number_arg a"
  shows "steps outer caught (thenM (qreg_undo_set_integer r) (bindM a (\<lambda>n. thenM (qreg_set_integer r (k + n)) (ret n)))) s"
proof (rule steps_success)
  have "noret (qreg_undo_set_integer r) u" "noret (qreg_set_integer r v) u" for u v
    unfolding qreg_undo_set_integer_def qreg_set_integer_def deref_def push_if_def by (intro noret_intros; simp)+
  then show "noret (thenM (qreg_undo_set_integer r) (bindM a (\<lambda>n. thenM (qreg_set_integer r (k + n)) (ret n)))) s"
    using number_arg_stacks(4) [OF a] by (intro noret_intros)
  fix n t
  assume run: "thenM (qreg_undo_set_integer r) (bindM a (\<lambda>n. thenM (qreg_set_integer r (k + n)) (ret n))) s = (Inr n, t)"
  then obtain q u w where q: "get_table (fst r) s (snd r) = Some q"
    and u: "push_if (table_must_undo (fst r)) (Undo_qreg_integer r (qreg_integer q)) s = (Inr (), u)"
    and w: "a u = (Inr n, w)" and t: "t = update_qreg r (\<lambda>p. p\<lparr>qreg_integer := k + n\<rparr>) w"
    by (auto simp: qreg_undo_set_integer_def qreg_set_integer_def deref_def run_simps
        split: prod.splits sum.splits option.splits if_splits)
  let ?g = "update_table (fst r) (\<lambda>tab. tab(snd r := map_option (\<lambda>p. p\<lparr>qreg_integer := k + n\<rparr>) (tab (snd r))))"
  have "outer s (snd (thenM (push_if (table_must_undo (fst r)) (Undo_qreg_integer r (qreg_integer q))) (modify ?g) s))"
    by (rule outer_table_token [where f = "\<lambda>tab. tab(snd r := map_option (\<lambda>p. p\<lparr>qreg_integer := qreg_integer q\<rparr>) (tab (snd r)))"])
      (simp_all add: update_qreg_def restore_qreg q fun_upd_idem)
  then have 1: "outer s (?g u)" using u by (simp add: run_simps)
  have r: "reverts u w" "pushes stack_token u w" "stacks_only u w"
    using number_arg_stacks(1-3) [OF a] w by (auto dest: obeys_okD)
  have "rolls j (?g u) (?g w)" for j
    by (rule rolls_around [OF r(1,2) update_commute]) (simp_all add: core_def)
  moreover have "calm (?g u) (?g w)" using stacks_onlyD [OF r(3)] by (simp add: calm_def)
  ultimately have 2: "outer (?g u) (?g w)" by (simp add: outer_calm)
  show "outer s t" using out.R_trans [OF 1 2] by (simp add: t update_qreg_def)
qed

text \<open>Strings.\<close>

lemma string_run:
  assumes "get_table (fst r) s (snd r) = Some q"
  shows "thenM (qreg_undo_set_string r) (bindM (deref r) (\<lambda>p. modify (update_qreg r (f p)))) s =
      thenM (push_if (table_must_undo (fst r)) (Undo_qreg_string r (qreg_string q))) (modify (update_qreg r (f q))) s"
  using push_token_state [of "Undo_qreg_string r (qreg_string q)" s] assms
  by (auto simp: qreg_undo_set_string_def deref_def push_if_def run_simps split: prod.split sum.split)

lemma outer_replace:
  assumes "\<And>p. f p q = q\<lparr>qreg_string := h p q\<rparr>" "get_table (fst r) s (snd r) = Some q"
  shows "outer s (snd (thenM (push_if (table_must_undo (fst r)) (Undo_qreg_string r (qreg_string q)))
    (modify (update_qreg r (f p))) s))"
  unfolding update_qreg_def
  by (rule outer_table_token [where f = "\<lambda>tab. tab(snd r := map_option (\<lambda>p. p\<lparr>qreg_string := qreg_string q\<rparr>) (tab (snd r)))"])
    (simp_all add: update_qreg_def restore_qreg assms fun_upd_idem)

lemma outer_strings: "obeys outer (replace_string r str)" "obeys outer (qreg_append_string r str)"
proof -
  have n: "outer s (snd (thenM (qreg_undo_set_string r) m s))" if "get_table (fst r) s (snd r) = None" for m :: "unit tm" and s
    using that by (simp add: qreg_undo_set_string_def deref_def run_simps out.R_refl)
  show "obeys outer (replace_string r str)" unfolding obeys_def
  proof
    fix s
    show "outer s (snd (replace_string r str s))"
    proof (cases "get_table (fst r) s (snd r)")
      case None
      then show ?thesis unfolding replace_string_def by (rule n)
    next
      case (Some q)
      show ?thesis unfolding replace_string_def qreg_set_string_def string_run [OF Some]
        by (rule outer_replace [OF _ Some]) simp
    qed
  qed
  show "obeys outer (qreg_append_string r str)" unfolding obeys_def
  proof
    fix s
    show "outer s (snd (qreg_append_string r str s))"
    proof (cases "get_table (fst r) s (snd r)")
      case None
      then show ?thesis unfolding qreg_append_string_def using n by (auto simp: ret_run out.R_refl)
    next
      case (Some q)
      have "outer s (snd (thenM (push_if (table_must_undo (fst r)) (Undo_qreg_string r (qreg_string q)))
          (modify (update_qreg r (\<lambda>x. x\<lparr>qreg_string := qreg_string x @ str\<rparr>))) s))"
        by (rule outer_replace [OF _ Some, where f = "\<lambda>_ x. x\<lparr>qreg_string := qreg_string x @ str\<rparr>"]) simp
      then show ?thesis unfolding qreg_append_string_def
        by (cases "str = []") (simp_all add: string_run [OF Some] ret_run out.R_refl)
    qed
  qed
qed

lemma push_update_table:
  "push_token t (update_table r f s) = (fst (push_token t s), update_table r f (snd (push_token t s)))"
  by (simp add: push_token_def teco_undo_push_def Let_def)

lemma outer_create:
  assumes "get_table (fst r) s (snd r) = None"
  shows "steps outer caught (create_qreg r) s"
proof (rule steps_success)
  show "noret (create_qreg r) s" unfolding create_qreg_def push_if_def by (intro noret_intros)
  fix x t
  assume t: "create_qreg r s = (Inr x, t)"
  have "outer s (snd (thenM (push_if (table_must_undo (fst r)) (Undo_qreg_remove r))
      (modify (update_table (fst r) (\<lambda>tab. tab(snd r \<mapsto> teco_qreg_plain_new)))) s))"
    by (rule outer_table_token [where f = "\<lambda>tab. tab(snd r := None)"]) (simp_all add: assms fun_upd_idem)
  then show "outer s t" using t
    by (auto simp: create_qreg_def push_if_def run_simps push_update_table split: prod.splits sum.splits if_splits)
qed

text \<open>The register stack.\<close>

lemma outer_stack_push: "steps outer caught (teco_qreg_stack_push r) s"
proof -
  have "obeys outer (thenM (modify (\<lambda>s. s\<lparr>teco_qreg_stack := teco_qreg_stack s @ [e]\<rparr>)) (push_token Undo_qreg_stack_remove_last))"
    for e
  proof (rule outer_program)
    let ?m = "thenM (modify (\<lambda>s. s\<lparr>teco_qreg_stack := teco_qreg_stack s @ [e]\<rparr>)) (push_token Undo_qreg_stack_remove_last)"
    have eq: "?m = thenM (modify (\<lambda>s. s\<lparr>teco_qreg_stack := teco_qreg_stack s @ [e]\<rparr>))
        (bindM (gets (\<lambda>_. Undo_qreg_stack_remove_last)) push_token)"
      by (rule ext) (simp add: run_simps)
    show "obeys reverts ?m" unfolding eq by (rule reverts_after) (simp_all add: core_def)
    show "obeys (pushes plain_token) ?m" unfolding eq by (rule pushes_after) simp_all
    show "obeys calm ?m" by (intro ca.thenM ca.modify ca.run calm_push) (simp add: calm_def)
  qed
  then show ?thesis
    unfolding teco_qreg_stack_push_def qreg_get_integer_def qreg_get_string_def deref_def
    by (intro out.st_intros steps_obeys)
qed

lemma push_fails: "push_token tok s = (Inl e, t) \<Longrightarrow> outer s t"
proof -
  assume f: "push_token tok s = (Inl e, t)"
  then have "\<not> (undo_ok s \<and> teco_undo_enabled s)" by (auto simp: push_token_def teco_undo_push_ok)
  then have "rolls j s t" for j unfolding rolls_def by blast
  then show ?thesis using calm_push [of s tok] f by (simp add: outer_calm)
qed

text \<open>The exchange of the strings of the register and of the entry, with both tokens first.\<close>

lemma outer_exchange:
  assumes q: "get_table (fst r) s (snd r) = Some q" and i: "i < length (teco_qreg_stack s)"
  shows "outer s (snd (thenM (push_if (table_must_undo (fst r)) (Undo_qreg_string r (qreg_string q)))
    (thenM (push_token (Undo_qreg_stack_string i (snd (teco_qreg_stack s ! i))))
    (thenM (modify (update_qreg r (\<lambda>x. x\<lparr>qreg_string := str\<rparr>)))
       (modify (\<lambda>u. u\<lparr>teco_qreg_stack := (teco_qreg_stack s)[i := (fst (teco_qreg_stack s ! i), str')]\<rparr>)))) s))"
proof -
  let ?p = "push_if (table_must_undo (fst r)) (Undo_qreg_string r (qreg_string q))"
  let ?tok = "Undo_qreg_stack_string i (snd (teco_qreg_stack s ! i))"
  let ?g = "update_qreg r (\<lambda>x. x\<lparr>qreg_string := str\<rparr>)"
  let ?h = "\<lambda>u. u\<lparr>teco_qreg_stack := (teco_qreg_stack s)[i := (fst (teco_qreg_stack s ! i), str')]\<rparr>"
  have a: "outer s (snd (thenM ?p (modify ?g) s))"
    by (rule outer_replace [where f = "\<lambda>_ x. x\<lparr>qreg_string := str\<rparr>", OF _ q]) simp
  have b: "outer u (snd (thenM (push_token ?tok) (modify ?h) u))" if "teco_qreg_stack u = teco_qreg_stack s" for u
    using i that by (intro outer_token) (simp_all add: core_def calm_def list_update_same_conv)
  obtain y u where u: "?p s = (y, u)" by (cases "?p s")
  have keep: "teco_qreg_stack u = teco_qreg_stack s"
    using u push_token_state [of "Undo_qreg_string r (qreg_string q)" s] by (auto simp: push_if_def run_simps split: if_splits)
  obtain z v where v: "push_token ?tok u = (z, v)" by (cases "push_token ?tok u")
  show ?thesis
  proof (cases y)
    case (Inl e)
    then have "table_must_undo (fst r)" "push_token (Undo_qreg_string r (qreg_string q)) s = (Inl e, u)"
      using u by (auto simp: push_if_def run_simps split: if_splits)
    then show ?thesis using u Inl push_fails by (simp add: run_simps)
  next
    case (Inr x)
    have ou: "outer s u"
      using u qreg_string_same [OF q] outer_push [of "Undo_qreg_string r (qreg_string q)" s]
      by (auto simp: push_if_def run_simps out.R_refl split: if_splits)
    show ?thesis
    proof (cases z)
      case (Inl e)
      then show ?thesis using u v Inr ou push_fails [of ?tok u e v] out.R_trans [of s u v] by (simp add: run_simps)
    next
      case (Inr x')
      have "outer s (?g u)" using a u \<open>y = Inr x\<close> by (simp add: run_simps)
      moreover have "push_token ?tok (?g u) = (Inr x', ?g v)"
        using push_update_table [of ?tok "fst r"] v Inr by (simp add: update_qreg_def)
      then have "outer (?g u) (?h (?g v))" using b [of "?g u"] keep by (simp add: run_simps update_qreg_def)
      ultimately show ?thesis using u v Inr \<open>y = Inr x\<close> out.R_trans by (simp add: run_simps)
    qed
  qed
qed

lemma exchange_run:
  assumes "get_table (fst r) s (snd r) = Some q"
  shows "thenM (qreg_undo_set_string r) (thenM (push_token tok) (thenM (qreg_set_string r str) (thenM (modify h) m))) s =
    thenM (thenM (push_if (table_must_undo (fst r)) (Undo_qreg_string r (qreg_string q)))
      (thenM (push_token tok) (thenM (modify (update_qreg r (\<lambda>x. x\<lparr>qreg_string := str\<rparr>))) (modify h)))) m s"
proof -
  have g: "get_table (fst r) (snd (push_token t u)) = get_table (fst r) u" for t u
    using push_token_state [of t u] by auto
  show ?thesis
    using assms g [of "Undo_qreg_string r (qreg_string q)" s] g [of tok s] g [of tok "snd (push_token (Undo_qreg_string r (qreg_string q)) s)"]
    by (auto simp: qreg_undo_set_string_def qreg_set_string_def deref_def push_if_def run_simps split: prod.split sum.split)
qed

lemma butlast_update_last: "xs \<noteq> [] \<Longrightarrow> butlast (xs[length xs - Suc 0 := y]) @ [y] = xs[length xs - Suc 0 := y]"
  by (cases xs rule: rev_cases) simp_all

lemma integer_stack: "thenM (qreg_undo_set_integer r) (qreg_set_integer r v) s = (Inr x, u) \<Longrightarrow> teco_qreg_stack u = teco_qreg_stack s"
  using undo_set_integer_state [of r s]
  by (auto simp: run_simps qreg_set_integer_def deref_def update_qreg_def split: prod.splits sum.splits option.splits if_splits)

lemma outer_stack_pop: "obeys outer (teco_qreg_stack_pop r)"
  unfolding obeys_def
proof
  fix s
  show "outer s (snd (teco_qreg_stack_pop r s))"
  proof (cases "teco_qreg_stack s = []")
    case True
    then show ?thesis by (simp add: teco_qreg_stack_pop_def run_simps out.R_refl)
  next
    case False
    let ?i = "length (teco_qreg_stack s) - 1"
    let ?e = "last (teco_qreg_stack s)"
    have rest: "outer u (snd (bindM (qreg_get_string r) (\<lambda>str.
         thenM (qreg_undo_set_string r)
        (thenM (push_token (Undo_qreg_stack_string ?i (snd ?e)))
        (thenM (qreg_set_string r (snd ?e))
        (thenM (modify (\<lambda>u. u\<lparr>teco_qreg_stack := (teco_qreg_stack s)[?i := (fst ?e, str)]\<rparr>))
        (thenM (push_token (Undo_qreg_stack_push (fst ?e, str)))
           (modify (\<lambda>u. u\<lparr>teco_qreg_stack := butlast (teco_qreg_stack u)\<rparr>))))))) u))"
      if k: "teco_qreg_stack u = teco_qreg_stack s" for u
    proof (cases "get_table (fst r) u (snd r)")
      case None
      then show ?thesis by (simp add: qreg_get_string_def deref_def run_simps out.R_refl)
    next
      case (Some q)
      let ?str = "qreg_string q"
      let ?A = "thenM (push_if (table_must_undo (fst r)) (Undo_qreg_string r (qreg_string q)))
        (thenM (push_token (Undo_qreg_stack_string ?i (snd ?e)))
        (thenM (modify (update_qreg r (\<lambda>x. x\<lparr>qreg_string := snd ?e\<rparr>)))
          (modify (\<lambda>u. u\<lparr>teco_qreg_stack := (teco_qreg_stack s)[?i := (fst ?e, ?str)]\<rparr>))))"
      let ?B = "thenM (push_token (Undo_qreg_stack_push (fst ?e, ?str)))
           (modify (\<lambda>u. u\<lparr>teco_qreg_stack := butlast (teco_qreg_stack u)\<rparr>))"
      have a: "outer u (snd (?A u))"
        using outer_exchange [OF Some, of ?i "snd ?e" ?str] False k by (simp add: last_conv_nth)
      have b: "outer v (snd (?B v))" if v: "?A u = (Inr x, v)" for x v
      proof -
        have "teco_qreg_stack v = (teco_qreg_stack s)[?i := (fst ?e, ?str)]"
          using v by (auto simp: run_simps split: prod.splits sum.splits if_splits)
        then have "butlast (teco_qreg_stack v) @ [(fst ?e, ?str)] = teco_qreg_stack v"
          using butlast_update_last [OF False] by simp
        then show ?thesis by (intro outer_token) (simp_all add: core_def calm_def)
      qed
      have "outer u (snd (thenM ?A ?B u))" using a b by (rule out.then_at)
      moreover have "bindM (qreg_get_string r) m u = m ?str u" for m :: "string \<Rightarrow> unit tm"
        by (simp add: qreg_get_string_def deref_def run_simps Some)
      ultimately show ?thesis by (simp only: exchange_run [OF Some])
    qed
    have "outer s (snd (thenM (thenM (qreg_undo_set_integer r) (qreg_set_integer r (fst ?e))) (bindM (qreg_get_string r) (\<lambda>str.
         thenM (qreg_undo_set_string r)
        (thenM (push_token (Undo_qreg_stack_string ?i (snd ?e)))
        (thenM (qreg_set_string r (snd ?e))
        (thenM (modify (\<lambda>u. u\<lparr>teco_qreg_stack := (teco_qreg_stack s)[?i := (fst ?e, str)]\<rparr>))
        (thenM (push_token (Undo_qreg_stack_push (fst ?e, str)))
           (modify (\<lambda>u. u\<lparr>teco_qreg_stack := butlast (teco_qreg_stack u)\<rparr>)))))))) s))"
      by (rule out.then_at [OF obeysD [OF outer_integer]]) (rule rest, rule integer_stack)
    then show ?thesis using False by (simp only: teco_qreg_stack_pop_def bind_assoc(2) bindM_run gets_run prod.case sum.case if_False)
  qed
qed

section \<open>Loops\<close>

text \<open>Changes of the loop stack above the loops of the caller.\<close>

lemma outer_loops:
  assumes "frames t = frames s" "cmdline_machine t = cmdline_machine s"
    and "ready s \<Longrightarrow> loop_stack_fp (ctx s) \<le> length (teco_loop_stack t) \<and>
      take (loop_stack_fp (ctx s)) (teco_loop_stack t) = take (loop_stack_fp (ctx s)) (teco_loop_stack s)"
    and "\<And>j. ready s \<Longrightarrow> frames s = [] \<or> j \<le> loop_stack_fp (ctx s) \<Longrightarrow> rolls j s t"
  shows "outer s t"
  using assms by (auto simp: outer_def inner_def same_place_def ctx_def split: list.split)

lemma behind_loops:
  assumes "behind j x (s\<lparr>teco_loop_stack := l\<rparr>)" "weak j l' (teco_loop_stack s)"
  shows "behind j (x\<lparr>teco_loop_stack := l'\<rparr>) s"
  using assms by (auto simp: behind_def erase_def)

lemma outer_append_loop: "steps outer caught (append_loop lctx) s"
proof (rule steps_success)
  show "noret (append_loop lctx) s" unfolding append_loop_def by (intro noret_intros)
  fix x t
  assume t: "append_loop lctx s = (Inr x, t)"
  let ?s = "s\<lparr>teco_loop_stack := teco_loop_stack s @ [lctx]\<rparr>"
  have p: "push_token (Undo_remove_loop (length (teco_loop_stack s))) ?s = (Inr (), t)"
    using t by (simp add: append_loop_def run_simps)
  obtain h where h: "t = ?s\<lparr>teco_undo_heads := h\<rparr>" using push_token_state p by (metis snd_conv)
  have "rolls j s t" for j
  proof (rule rolls_token [where tok = "Undo_remove_loop (length (teco_loop_stack s))"])
    fix x
    assume "behind j x t"
    then have b: "behind j x ?s" by (simp add: h)
    then have "weak j (garray_remove_index (length (teco_loop_stack s)) (teco_loop_stack x)) (teco_loop_stack s)"
      by (intro weak_snoc [where c = lctx]) (simp add: behind_def)
    then show "behind j (undo_action (Undo_remove_loop (length (teco_loop_stack s))) x) s"
      using b by (simp add: behind_loops)
  next
    assume "undo_ok s" "teco_undo_enabled s"
    moreover have "undo_ok ?s = undo_ok s" "pending ?s = pending s" "settled ?s = settled s"
      by (rule undo_fields; simp)+
    ultimately show "teco_undo_heads t = settled s @ [Undo_remove_loop (length (teco_loop_stack s)) # pending s]"
      using p by (auto simp: push_token_def teco_undo_push_ok)
  qed (simp_all add: h)
  then show "outer s t" by (intro outer_loops) (simp_all add: h ready_def)
qed

lemma no_loop_stack: "\<not> no_loop s \<Longrightarrow> teco_loop_stack s \<noteq> [] \<and> loop_stack_fp (ctx s) \<le> length (teco_loop_stack s) - 1"
  by (auto simp: no_loop_def)

text \<open>The token that puts the innermost loop back.\<close>

lemma rolls_loop:
  assumes "teco_loop_stack s = l @ [c]"
  shows "rolls j s (snd (thenM (push_token (Undo_insert_loop (length l) c)) (modify (\<lambda>u. u\<lparr>teco_loop_stack := l\<rparr>)) s))"
proof (rule rolls_change [where tok = "\<lambda>_. Undo_insert_loop (length l) c"])
  fix h x
  assume "behind j x (s\<lparr>teco_undo_heads := h, teco_loop_stack := l\<rparr>)"
  then have b: "behind j x (s\<lparr>teco_loop_stack := l\<rparr>)" by (simp add: behind_def erase_def)
  then have "weak j (garray_insert_val (length l) c (teco_loop_stack x)) (l @ [c])"
    by (intro weak_insert) (simp add: behind_def)
  then show "behind j (undo_action (Undo_insert_loop (length l) c) x) s"
    using b assms by (simp add: behind_loops)
qed simp_all

lemma outer_remove_loop:
  assumes "\<not> no_loop s" shows "steps outer caught remove_loop s"
proof (rule steps_success)
  show "noret remove_loop s" unfolding remove_loop_def by (intro noret_intros)
  fix x t
  assume t: "remove_loop s = (Inr x, t)"
  obtain l c where l: "teco_loop_stack s = l @ [c]" using no_loop_stack [OF assms] by (metis rev_exhaust)
  have "remove_loop s = thenM (push_token (Undo_insert_loop (length l) c)) (modify (\<lambda>u. u\<lparr>teco_loop_stack := l\<rparr>)) s"
    using push_token_state [of "Undo_insert_loop (length l) c" s]
    by (auto simp: remove_loop_def change_def l run_simps split: prod.split sum.split)
  then have "rolls j s t" for j using rolls_loop [OF l, of j] t by (metis snd_conv)
  moreover obtain h where "t = s\<lparr>teco_undo_heads := h, teco_loop_stack := l\<rparr>"
    using t push_token_state [of "Undo_insert_loop (length l) c" s] l
    by (auto simp: remove_loop_def change_def run_simps split: prod.splits sum.splits)
  ultimately show "outer s t" using no_loop_stack [OF assms] l by (intro outer_loops) auto
qed

lemma outer_decrement:
  assumes "\<not> no_loop s" shows "steps outer caught decrement_counter s"
proof (rule steps_success)
  show "noret decrement_counter s" unfolding decrement_counter_def push_if_def by (intro noret_intros)
  fix x t
  assume t: "decrement_counter s = (Inr x, t)"
  obtain l c where l: "teco_loop_stack s = l @ [c]" using no_loop_stack [OF assms] by (metis rev_exhaust)
  let ?c = "c\<lparr>lc_counter := lc_counter c - 1\<rparr>"
  let ?tok = "Undo_loop_counter (length l) (lc_counter c)"
  have run: "thenM (push_if (must_undo (ctx s)) ?tok) (modify (\<lambda>u. u\<lparr>teco_loop_stack := l @ [?c]\<rparr>)) s = (Inr x, t)"
    using t push_token_state [of ?tok s]
    by (auto simp: decrement_counter_def l run_simps push_if_def split: prod.splits sum.splits if_splits)
  have "\<exists>h. t = s\<lparr>teco_undo_heads := h, teco_loop_stack := l @ [?c]\<rparr>"
  proof (cases "must_undo (ctx s)")
    case True
    then show ?thesis using run push_token_state [of ?tok s]
      by (auto simp: push_if_def run_simps split: prod.splits sum.splits)
  next
    case False
    then have "t = s\<lparr>teco_undo_heads := teco_undo_heads s, teco_loop_stack := l @ [?c]\<rparr>"
      using run by (simp add: push_if_def run_simps)
    then show ?thesis by blast
  qed
  then obtain h where h: "t = s\<lparr>teco_undo_heads := h, teco_loop_stack := l @ [?c]\<rparr>" by blast
  have fp: "loop_stack_fp (ctx s) \<le> length l" using no_loop_stack [OF assms] l by simp
  have "rolls j s t" if r: "ready s" and j: "frames s = [] \<or> j \<le> loop_stack_fp (ctx s)" for j
  proof (cases "frames s = []")
    case True
    then have eq: "t = snd (thenM (push_token ?tok) (modify (\<lambda>u. u\<lparr>teco_loop_stack := l @ [?c]\<rparr>)) s)"
      using ready_ctx [OF r] run by (simp add: push_if_def whenM_def)
    show ?thesis unfolding eq
    proof (rule rolls_change [where tok = "\<lambda>_. ?tok"])
      fix h x
      assume "behind j x (s\<lparr>teco_undo_heads := h, teco_loop_stack := l @ [?c]\<rparr>)"
      then have b: "behind j x (s\<lparr>teco_loop_stack := l @ [?c]\<rparr>)" by (simp add: behind_def erase_def)
      then have w: "weak j (teco_loop_stack x) (l @ [?c])" by (simp add: behind_def)
      have "weak j ((teco_loop_stack x)[length l := (teco_loop_stack x ! length l)\<lparr>lc_counter := lc_counter c\<rparr>]) (l @ [c])"
      proof (cases "j \<le> length l")
        case True
        then show ?thesis using w by (simp add: weak_def)
      next
        case False
        then have "teco_loop_stack x = l @ [?c]" using w by (simp add: weak_all)
        then show ?thesis by (simp add: weak_refl)
      qed
      then show "behind j (undo_action ?tok x) s" using b l by (simp add: behind_loops)
    qed simp_all
  next
    case False
    then have eq: "t = s\<lparr>teco_loop_stack := l @ [?c]\<rparr>" "j \<le> length l"
      using ready_ctx [OF r] run fp j by (auto simp: push_if_def run_simps)
    show ?thesis unfolding eq(1)
    proof (rule rolls_silent)
      fix x
      assume "behind j x (s\<lparr>teco_loop_stack := l @ [?c]\<rparr>)"
      then show "behind j x s" using eq(2) l by (auto simp: behind_def erase_def weak_def)
    qed simp_all
  qed
  then show "outer s t" using fp l by (intro outer_loops) (auto simp: h)
qed

lemma outer_leave_loop:
  assumes "\<not> no_loop s" shows "steps outer caught leave_loop s"
proof (rule steps_success)
  show "noret leave_loop s" unfolding leave_loop_def by (intro noret_intros noret_discard_args noret_brace_return)
  fix x t
  assume t: "leave_loop s = (Inr x, t)"
  obtain l c where l: "teco_loop_stack s = l @ [c]" using no_loop_stack [OF assms] by (metis rev_exhaust)
  let ?m = "thenM teco_expressions_discard_args
    (whenM (\<not> lc_pass_through c) (teco_expressions_brace_return (lc_brace_level c) 0))"
  let ?s = "s\<lparr>teco_loop_stack := l\<rparr>"
  have m: "obeys calm ?m" "obeys reverts ?m" "obeys (pushes stack_token) ?m"
    using obeysD [OF calm_command] calm_command [of Discard_args] calm_command [of "Brace_return (lc_brace_level c) 0"]
      reverts_command [of Discard_args] reverts_command [of "Brace_return (lc_brace_level c) 0"]
      pushes_command [of Discard_args] pushes_command [of "Brace_return (lc_brace_level c) 0"]
    by (auto intro!: ca.thenM ca.whenM ulog.rb.thenM ulog.rb.whenM pu.thenM pu.whenM)
  from t obtain u where u: "?m ?s = (Inr (), u)"
    and p: "push_token (Undo_insert_loop (length (teco_loop_stack u)) c) u = (Inr (), t)"
    by (auto simp: leave_loop_def l run_simps split: prod.splits sum.splits if_splits)
  have cu: "calm ?s u" "reverts ?s u" "pushes stack_token ?s u" using m u by (auto dest: obeys_okD)
  then have lu: "teco_loop_stack u = l" "frames u = frames s" "cmdline_machine u = cmdline_machine s" by (simp_all add: calm_def)
  let ?g = "\<lambda>v. v\<lparr>teco_loop_stack := l @ [c]\<rparr>"
  obtain h where h: "t = u\<lparr>teco_undo_heads := h\<rparr>" using push_token_state p by (metis snd_conv)
  have "rolls j s t" for j
  proof -
    have "undo_action tok (?g v) = ?g (undo_action tok v)" if "stack_token tok" for tok v
      using that by (cases tok) simp_all
    then have "rolls j (?g ?s) (?g u)" by (intro rolls_around [OF cu(2,3)]) (simp_all add: core_def)
    moreover have "?g ?s = s" using l by simp
    ultimately have 1: "rolls j s (?g u)" by simp
    have "snd (thenM (push_token (Undo_insert_loop (length l) c)) (modify (\<lambda>v. v\<lparr>teco_loop_stack := l\<rparr>)) (?g u)) = t"
      using p lu(1) by (auto simp: push_token_def teco_undo_push_def run_simps Let_def split: if_splits)
    then have 2: "rolls j (?g u) t" using rolls_loop [of "?g u" l c j] by simp
    from 1 2 show ?thesis by (rule rolls_trans)
  qed
  then show "outer s t" using no_loop_stack [OF assms] l lu by (intro outer_loops) (auto simp: h)
qed

section \<open>Labels, macros and the interpretation\<close>

lemma outer_clear: "obeys outer clear_goto"
  unfolding clear_goto_def
  by (intro out.thenM outer_program reverts_change pushes_change calm_change)
    (simp_all add: calm_def core_def)

lemma outer_ed: "obeys outer (set_ed h)"
  unfolding set_ed_def
  by (intro outer_program reverts_change pushes_change calm_change) (simp_all add: calm_def core_def)

lemma outer_goto:
  assumes "teco_goto_skip_label s = []"
  shows "steps outer caught (start_goto label pc) s"
proof -
  have "outer s (snd (thenM (push_token (Undo_skip_label [])) (modify (\<lambda>s. s\<lparr>teco_goto_skip_label := label\<rparr>)) s))"
    using assms by (intro outer_token) (simp_all add: calm_def core_def)
  then have 1: "steps outer caught (change (\<lambda>s. Undo_skip_label []) (\<lambda>s. s\<lparr>teco_goto_skip_label := label\<rparr>)) s"
    by (auto simp: steps_def change_def run_simps split: prod.split sum.split)
  have 2: "steps outer caught (change (\<lambda>s. Undo_backup_pc (teco_goto_backup_pc s)) (\<lambda>s. s\<lparr>teco_goto_backup_pc := pc\<rparr>)) u" for u
    by (intro steps_obeys outer_program reverts_change pushes_change calm_change) (simp_all add: calm_def core_def)
  show ?thesis unfolding start_goto_def by (rule out.st_then [OF 1 2])
qed

lemma outer_label: "steps outer caught (define_label name pc) s"
proof (rule steps_success)
  show "noret (define_label name pc) s"
    unfolding define_label_def teco_goto_table_set_def teco_goto_table_undo_remove_def push_if_def by (intro noret_intros)
  fix x t
  assume t: "define_label name pc s = (Inr x, t)"
  show "outer s t"
  proof (cases "goto_table (ctx s) name")
    case (Some n)
    then show ?thesis using t
      by (simp add: define_label_def teco_goto_table_set_def teco_goto_table_find_def run_simps out.R_refl)
  next
    case None
    let ?f = "\<lambda>m. m\<lparr>goto_table := (goto_table m)(name \<mapsto> pc)\<rparr>"
    have run: "thenM (whenM (must_undo (ctx s)) (push_if (goto_must_undo (ctx s)) (Undo_goto_remove name)))
        (modify (ctx_update ?f)) s = (Inr (), t)"
      using t None
      by (auto simp: define_label_def teco_goto_table_set_def teco_goto_table_find_def teco_goto_table_undo_remove_def
          push_if_def run_simps push_token_ctx_update split: prod.splits sum.splits if_splits)
    have n: "es_nesting (ctx t) = es_nesting (ctx s)"
      using run push_token_state [of "Undo_goto_remove name" s]
      by (auto simp: push_if_def run_simps split: prod.splits sum.splits if_splits)
    show ?thesis
    proof (cases "goto_must_undo (ctx s)")
      case True
      have "inner s t"
        using run True None by (intro inner_machine [where tok = "Undo_goto_remove name" and f = ?f])
          (auto simp: ident_def push_if_def whenM_def fun_upd_idem)
      then show ?thesis using n by (simp add: outer_def)
    next
      case False
      then have eq: "t = ctx_update ?f s" using run by (auto simp: push_if_def run_simps split: if_splits)
      show ?thesis
      proof (cases "frames s = []")
        case True
        then have "\<not> ready s" using False by (auto simp: ready_def ctx_def)
        moreover have "same_place s t" unfolding eq
          by (auto simp: same_place_def ctx_update_def ident_def split: list.split)
        ultimately show ?thesis using n by (simp add: outer_def inner_def)
      next
        case False
        then show ?thesis unfolding eq by (intro outer_frame) (simp_all add: machine_frame_def)
      qed
    qed
  qed
qed

lemma outer_locals:
  assumes m: "\<And>l s. steps outer caught (m l :: unit tm) s"
  shows "steps outer caught (with_macro_locals m) s"
proof -
  let ?n = "length (macro_locals s)"
  let ?s = "s\<lparr>macro_locals := macro_locals s @ [teco_qreg_table_init_locals]\<rparr>"
  have l: "outer u (u\<lparr>macro_locals := tabs\<rparr>)" for u tabs
    by (rule outer_silent) (auto simp: erase_def same_place_def ctx_def split: list.split)
  obtain r t where t: "m (Macro_locals ?n) ?s = (r, t)" by (cases "m (Macro_locals ?n) ?s")
  have "frames ?s = frames s" by simp
  then have "outer s (t\<lparr>macro_locals := take ?n (macro_locals t)\<rparr>)" if "outer ?s t"
    using that out.R_trans l by meson
  then show ?thesis using m [of "Macro_locals ?n" ?s] t
    by (auto simp: steps_def with_macro_locals_def caught_def Let_def split: sum.splits)
qed

lemma inner_truncate:
  assumes "frames s \<noteq> []" "inner s t"
  shows "inner s (t\<lparr>teco_loop_stack := take (loop_stack_fp (ctx t)) (teco_loop_stack t)\<rparr>)"
proof -
  let ?fp = "loop_stack_fp (ctx s)"
  have fp: "loop_stack_fp (ctx t) = ?fp" using assms(2) same_place_fp by (auto simp: inner_def)
  have "rolls j s (t\<lparr>teco_loop_stack := take ?fp (teco_loop_stack t)\<rparr>)" if "rolls j s t" "j \<le> ?fp" for j
  proof (rule rolls_trans [OF that(1) rolls_silent])
    fix x
    assume "behind j x (t\<lparr>teco_loop_stack := take ?fp (teco_loop_stack t)\<rparr>)"
    then show "behind j x t" using weak_take [OF _ that(2)] by (auto simp: behind_def erase_def)
  qed simp_all
  then show ?thesis using assms by (auto simp: fp inner_def same_place_def ready_def split: list.splits)
qed

lemma outer_leave:
  assumes m: "m = teco_machine_main_init (length (teco_loop_stack s)) cp l False"
    and t: "inner (s\<lparr>frames := m # frames s\<rparr>) t" "length (teco_loop_stack t) \<le> loop_stack_fp (ctx t)"
  shows "outer s (t\<lparr>frames := tl (frames t)\<rparr>)"
proof -
  let ?s = "s\<lparr>frames := m # frames s\<rparr>" and ?t = "t\<lparr>frames := tl (frames t)\<rparr>"
  let ?n = "length (teco_loop_stack s)"
  have fp: "loop_stack_fp (ctx ?s) = ?n" by (simp add: m ctx_def teco_machine_main_init_def)
  have place: "same_place ?s t" using t(1) by (simp add: inner_def)
  then have f: "frames ?t = frames s" "cmdline_machine ?t = cmdline_machine s" by (auto simp: same_place_def)
  have le: "length (teco_loop_stack t) \<le> ?n" using t(2) fp same_place_fp [OF place] by simp
  have rs: "ready ?s" if "ready s" using that fp by (auto simp: ready_def m teco_machine_main_init_def)
  have loops: "teco_loop_stack t = teco_loop_stack s" if r: "ready s"
  proof -
    have "take ?n (teco_loop_stack t) = take ?n (teco_loop_stack ?s)"
      using t(1) rs [OF r] unfolding inner_def fp by blast
    then show ?thesis using le by simp
  qed
  have roll: "rolls i ?s t" if "ready s" "i \<le> ?n" for i
    using t(1) rs [OF that(1)] that(2) unfolding inner_def fp by blast
  show ?thesis
  proof (rule outer_loops)
    fix j
    assume r: "ready s" "frames s = [] \<or> j \<le> loop_stack_fp (ctx s)"
    have "rolls j ?s t"
    proof (cases "j \<le> ?n")
      case True
      with r(1) show ?thesis by (rule roll)
    next
      case False
      have b: "behind j x u = behind ?n x u" if "length (teco_loop_stack u) = ?n" for x u
        using that False by (simp add: behind_def weak_all)
      have "behind j x t = behind ?n x t" "behind j x ?s = behind ?n x ?s" for x
        using b [of t] b [of ?s] loops [OF r(1)] by simp_all
      then show ?thesis using roll [OF r(1), of ?n] unfolding rolls_def by simp
    qed
    moreover have "rolls j s ?s" "rolls j t ?t"
      by (intro rolls_silent; simp add: behind_def erase_def)+
    ultimately show "rolls j s ?t" by (meson rolls_trans)
  next
    assume r: "ready s"
    then show "loop_stack_fp (ctx s) \<le> length (teco_loop_stack ?t) \<and>
        take (loop_stack_fp (ctx s)) (teco_loop_stack ?t) = take (loop_stack_fp (ctx s)) (teco_loop_stack s)"
      using loops by (simp add: ready_def)
  qed (fact f)+
qed

lemma outer_flag: "outer s (s\<lparr>is_executing := b\<rparr>)"
  by (rule outer_silent) (auto simp: erase_def same_place_def ctx_def split: list.split)

lemma inner_nesting: "steps inner caught (set_es_nesting g) s"
  unfolding set_es_nesting_def by (rule inner_ctx_change) (simp_all add: ident_def)

interpretation rub: macros inner outer caught
proof (unfold_locales, goal_cases)
  case (1 s t) then show ?case by (simp add: outer_def)
next
  case (2 s t) then show ?case by (simp add: outer_def)
next
  case (12 s b) show ?case by (rule outer_flag)
next
  case (29 str s new) then show ?case by (rule outer_string)
next
  case (30 m s) then show ?case by (rule outer_locals)
next
  case (31 s t) then show ?case by (auto simp: inner_def dest: same_place_frames)
next
  case (32 s) then show ?case by (simp add: caught_def)
next
  case (33 s t) then show ?case by (intro inner_truncate)
next
  case (34 m s cp l t) then show ?case by (intro outer_leave)
qed (intro steps_obeys outer_command outer_pops outer_field inner_nesting reset_nesting outer_pc outer_frame outer_return
  outer_integer outer_integer_arg outer_strings outer_create outer_stack_push outer_stack_pop outer_append_loop
  outer_remove_loop outer_decrement outer_leave_loop outer_label outer_goto outer_clear outer_ed outer_locals; assumption)+

section \<open>Properties\<close>

text \<open>
  The state after the rubout: everything but what no token restores (\<open>erase\<close>), the loop stack and the frames included.
\<close>

definition restored :: "teco \<Rightarrow> teco \<Rightarrow> bool" where
  "restored s u \<longleftrightarrow> erase u = erase s \<and> teco_loop_stack u = teco_loop_stack s \<and> frames u = frames s \<and>
     (es_nesting (cmdline_machine s) \<noteq> 0 \<longrightarrow> es_nesting (cmdline_machine u) = es_nesting (cmdline_machine s))"

lemma frames_undo: "frames (run_tokens undo_action ts s) = frames s"
proof (induction ts arbitrary: s)
  case (Cons t ts)
  have "frames (undo_action t s) = frames s"
    by (cases t) (simp_all add: table_defs split: table_ref.split locals_ref.split)
  with Cons show ?case by simp
qed simp

lemma restored_pop:
  assumes r: "\<And>j. rolls j s t" and s: "teco_undo_enabled s" "length (teco_undo_heads s) \<le> cmdline_pc s"
    and f: "frames t = frames s"
  shows "restored s (teco_undo_pop undo_action (cmdline_pc s) t)"
proof -
  let ?j = "length (teco_loop_stack s)" and ?u = "teco_undo_pop undo_action (cmdline_pc s) t"
  have ok: "undo_ok s" and ps: "pending s = []" using s by (simp_all add: undo_ok_def pending_def pad_fresh)
  obtain ts where t: "undo_ok t" "cmdline_pc t = cmdline_pc s" "pending t = ts" "settled t = settled s"
    and b: "\<And>x. behind ?j x t \<Longrightarrow> behind ?j (run_tokens undo_action ts x) s"
    using r [of ?j] ok s(1) by (auto simp: rolls_def ps)
  have "behind ?j ?u s \<and> frames ?u = frames t"
  proof (cases "length (teco_undo_heads t) \<le> cmdline_pc s")
    case True
    then have "ts = []" using t(2,3) by (simp add: pending_def pad_fresh)
    then show ?thesis using True b [OF behind_refl] by (simp add: teco_undo_pop_def)
  next
    case False
    then have l: "length (teco_undo_heads t) = Suc (cmdline_pc t)" using t(1,2) by (simp add: undo_ok_def)
    then have hs: "teco_undo_heads t = settled t @ [ts]" using undo_stack_conv [OF t(1)] t(3) by (simp add: pad_full)
    have "?u = run_tokens undo_action ts (t\<lparr>teco_undo_heads := butlast (teco_undo_heads t)\<rparr>)"
      using length_settled [OF t(1)] t(2) by (simp add: teco_undo_pop_def hs)
    then show ?thesis using b [of "t\<lparr>teco_undo_heads := butlast (teco_undo_heads t)\<rparr>"]
      by (simp add: behind_refl frames_undo)
  qed
  then show ?thesis using f by (simp add: restored_def behind_def weak_all)
qed

text \<open>
  C1: Rubbing out command-line characters. In interactive mode, whatever the characters executed on
  the command line do, macros, loops, jumps, string arguments and register commands included, if they
  succeed then popping the undo tokens of their program counter restores the state: the expression stacks, the
  loop stack, the registers and their stack, the flags and the parser with its arguments are those of before. The
  commands that are parameters of the model are assumed to be revertible the same way.
\<close>

theorem rubout:
  assumes "env_respects outer caught E" and "cmdline_step E n macro stop s = (Inr x, t)"
    and "frames s = []" "ready s" "teco_undo_enabled s" "length (teco_undo_heads s) \<le> cmdline_pc s"
  shows "restored s (teco_undo_pop undo_action (cmdline_pc s) t)"
proof (rule restored_pop)
  have "inner s t" using rub.command_line [OF assms(1)] assms(2) by (rule steps_okD)
  then show "rolls j s t" "frames t = frames s" for j
    using assms(3,4) by (auto simp: inner_def dest: same_place_frames)
qed (fact assms)+

lemma plain_respects: "env_respects outer caught plain_env"
  by (simp add: env_respects_def out.st_ret)

theorem rubout_witness:
  "\<exists>t. cmdline_step plain_env (Suc (Suc (Suc 0))) ''2<('' 3 (teco_initial True) = (Inr (), t) \<and>
     restored (teco_initial True) (teco_undo_pop undo_action 0 t)"
proof -
  have "fst (cmdline_step plain_env (Suc (Suc (Suc 0))) ''2<('' 3 (teco_initial True)) = Inr ()"
    by (simp add: command_eval stack_eval)
  then obtain t where t: "cmdline_step plain_env (Suc (Suc (Suc 0))) ''2<('' 3 (teco_initial True) = (Inr (), t)"
    by (metis prod.collapse)
  moreover have "restored (teco_initial True) (teco_undo_pop undo_action (cmdline_pc (teco_initial True)) t)"
    by (rule rubout [OF plain_respects t]) (simp_all add: teco_initial_def ready_def teco_machine_main_init_def)
  ultimately show ?thesis by (auto simp: teco_initial_def)
qed

text \<open>
  C3: Macros do not disturb their caller. However a macro ends, at its end or by returning from
  within loops and braces, the machine that called it, all outer ones and the loops of the caller are as before.
\<close>

theorem macro_isolated:
  assumes "env_respects outer caught E" and "teco_execute_macro E n macro l s = (Inr x, t)" "ready s"
  shows "frames t = frames s \<and> cmdline_machine t = cmdline_machine s \<and> teco_loop_stack t = teco_loop_stack s"
proof (cases n)
  case 0
  then show ?thesis using assms(2) by (simp add: throw_run)
next
  case (Suc k)
  let ?m = "teco_machine_main_init (length (teco_loop_stack s)) (teco_default_codepage (teco_ed s)) l False"
  let ?s = "s\<lparr>frames := ?m # frames s\<rparr>"
  have m: "ctx ?s = ?m" "loop_stack_fp ?m = length (teco_loop_stack s)" by (simp_all add: teco_machine_main_init_def)
  from assms(2) Suc obtain u where
    u: "thenM (macro_loop E (teco_execute_macro E k) k k (teco_brace_level s) macro) macro_end ?s = (Inr x, u)"
    and t: "t = u\<lparr>frames := tl (frames u)\<rparr>"
    by (auto simp: run_simps with_frame_def error_cleanup_def split: if_splits prod.splits sum.splits)
  have i: "inner ?s u \<and> length (teco_loop_stack u) \<le> loop_stack_fp (ctx u)"
    by (rule rub.running [OF rub.all_respect [OF assms(1)] u]) (simp_all add: m)
  then have p: "same_place ?s u" by (simp add: inner_def)
  have "ready ?s" using assms(3) m by (auto simp: ready_def teco_machine_main_init_def)
  then have "take (length (teco_loop_stack s)) (teco_loop_stack u) = teco_loop_stack s"
    using i m unfolding inner_def by simp
  moreover have "length (teco_loop_stack u) \<le> length (teco_loop_stack s)"
    using i same_place_fp [OF p] m by simp
  ultimately show ?thesis using p by (auto simp: t same_place_def)
qed

theorem macro_isolated_witness:
  "\<exists>t. teco_execute_macro plain_env (Suc (Suc 0)) ''('' Cmdline_locals (teco_initial True) = (Inr (), t) \<and>
     frames t = [] \<and> cmdline_machine t = cmdline_machine (teco_initial True) \<and> teco_loop_stack t = []"
proof -
  have "fst (teco_execute_macro plain_env (Suc (Suc 0)) ''('' Cmdline_locals (teco_initial True)) = Inr ()"
    by (simp add: command_eval stack_eval macro_eval)
  then obtain t where t: "teco_execute_macro plain_env (Suc (Suc 0)) ''('' Cmdline_locals (teco_initial True) = (Inr (), t)"
    by (metis prod.collapse)
  have "frames t = frames (teco_initial True) \<and> cmdline_machine t = cmdline_machine (teco_initial True) \<and>
      teco_loop_stack t = teco_loop_stack (teco_initial True)"
    by (rule macro_isolated [OF plain_respects t]) (simp add: teco_initial_def ready_def teco_machine_main_init_def)
  with t show ?thesis by (auto simp: teco_initial_def)
qed

end
