(* ===== verification/Consistency.thy ===== *)
theory Consistency
  imports Rubout
begin

text \<open>
  The expression stacks stay consistent whatever is executed: the invariant of theory \<open>Stack_Laws\<close>,
  there for sequences of stack operations, is extended to all commands, to macros and to the
  interpreter's loop by interpreting the locale \<open>macros\<close> on it.
\<close>

section \<open>The relations\<close>

text \<open>The nesting counters of the string arguments of all machines, the innermost first.\<close>

definition nestings :: "teco \<Rightarrow> int list" where
  "nestings s = map es_nesting (frames s @ [cmdline_machine s])"

definition kept :: "teco \<Rightarrow> teco \<Rightarrow> bool" where
  "kept s t \<longleftrightarrow> (consistent s \<longrightarrow> consistent t) \<and> nestings t = nestings s"

definition kept_inner :: "teco \<Rightarrow> teco \<Rightarrow> bool" where
  "kept_inner s t \<longleftrightarrow> (consistent s \<longrightarrow> consistent t) \<and> tl (nestings t) = tl (nestings s)"

definition is_return :: "teco_error \<Rightarrow> teco \<Rightarrow> bool" where
  "is_return e s \<longleftrightarrow> e = TECO_ERROR_RETURN"

text \<open>What does not touch the stacks at all.\<close>

definition quiet :: "teco \<Rightarrow> teco \<Rightarrow> bool" where
  "quiet s t \<longleftrightarrow> teco_numbers t = teco_numbers s \<and> teco_operators t = teco_operators s \<and>
     teco_brace_level t = teco_brace_level s \<and> nestings t = nestings s"

lemma consistent_fields:
  "teco_numbers t = teco_numbers s \<Longrightarrow> teco_operators t = teco_operators s \<Longrightarrow> teco_brace_level t = teco_brace_level s \<Longrightarrow>
   consistent t = consistent s"
  by (simp add: consistent_def expr_ok_def stacks_ok_def)

lemma quiet_kept: "quiet s t \<Longrightarrow> kept s t"
  by (auto simp: quiet_def kept_def dest: consistent_fields)

lemma nestings_simps [simp]:
  "nestings (s\<lparr>teco_undo_heads := h\<rparr>) = nestings s" "nestings (s\<lparr>teco_loop_stack := l\<rparr>) = nestings s"
  "nestings (s\<lparr>is_executing := b\<rparr>) = nestings s" "nestings (s\<lparr>teco_ed := e\<rparr>) = nestings s"
  "nestings (s\<lparr>teco_goto_skip_label := n\<rparr>) = nestings s" "nestings (s\<lparr>teco_goto_backup_pc := pc\<rparr>) = nestings s"
  "nestings (s\<lparr>teco_qreg_stack := q\<rparr>) = nestings s" "nestings (s\<lparr>macro_locals := ml\<rparr>) = nestings s"
  "nestings (s\<lparr>teco_error_return_args := a\<rparr>) = nestings s" "nestings (update_table r g s) = nestings s"
  by (simp_all add: nestings_def table_defs split: table_ref.split locals_ref.split)

lemma nestings_ctx: "es_nesting (f (ctx s)) = es_nesting (ctx s) \<Longrightarrow> nestings (ctx_update f s) = nestings s"
  by (cases "frames s") (simp_all add: nestings_def ctx_update_def ctx_def)

lemma nestings_inner: "tl (nestings (ctx_update f s)) = tl (nestings s)"
  by (simp add: nestings_def ctx_update_def split: list.split)

lemma nestings_hd: "hd (nestings s) = es_nesting (ctx s)"
  by (simp add: nestings_def ctx_def split: list.split)

lemma stack_fields [simp]:
  "teco_numbers (ctx_update f s) = teco_numbers s" "teco_operators (ctx_update f s) = teco_operators s"
  "teco_brace_level (ctx_update f s) = teco_brace_level s" "teco_numbers (update_table r g s) = teco_numbers s"
  "teco_operators (update_table r g s) = teco_operators s" "teco_brace_level (update_table r g s) = teco_brace_level s"
  by (simp_all add: ctx_update_def table_defs split: list.split table_ref.split locals_ref.split)

interpretation qu: step_preorder quiet
  by unfold_locales (auto simp: quiet_def)

interpretation kin: error_steps kept_inner is_return
  by unfold_locales (auto simp: kept_inner_def is_return_def)

interpretation kout: error_steps kept is_return
  by unfold_locales (auto simp: kept_def is_return_def)

lemma steps_quiet: "obeys quiet m \<Longrightarrow> steps kept is_return m s"
  by (auto simp: obeys_def intro!: steps_obeys quiet_kept)

lemma steps_keeps:
  assumes "keeps consistent m s" "nestings (snd (m s)) = nestings s"
  shows "steps kept is_return m s"
  using assms by (auto simp: steps_def kept_def is_return_def triple_def wp_def split: prod.splits sum.splits)

lemma calm_nestings: "calm s t \<Longrightarrow> nestings t = nestings s"
  by (simp add: calm_def nestings_def)

lemma steps_stack: "keeps consistent m s \<Longrightarrow> obeys calm m \<Longrightarrow> steps kept is_return m s"
  by (intro steps_keeps calm_nestings) (auto dest: obeysD)

section \<open>The commands\<close>

lemma quiet_push: "obeys quiet (push_token t)"
proof (rule qu.run)
  show "quiet s (snd (push_token t s))" for s using push_token_state [of t s] by (auto simp: quiet_def)
qed

lemma quiet_push_if: "obeys quiet (push_if b t)"
  unfolding push_if_def by (intro qu.intros quiet_push)

lemma quiet_change: "(\<And>s. quiet s (f s)) \<Longrightarrow> obeys quiet (change t f)"
  unfolding change_def by (intro qu.intros qu.modify quiet_push)

lemma quiet_ctx_change: "(\<And>m. es_nesting (f m) = es_nesting m) \<Longrightarrow> obeys quiet (ctx_change t f)"
  unfolding ctx_change_def by (intro qu.intros qu.modify quiet_push) (simp add: quiet_def nestings_ctx)

lemma quiet_table: "quiet s (update_table r g s)" "quiet s (update_qreg q h s)"
  by (simp_all add: quiet_def update_qreg_def)

lemma quiet_option: "obeys quiet m \<Longrightarrow> (\<And>x. obeys quiet (f x)) \<Longrightarrow> obeys quiet (case y of None \<Rightarrow> m | Some x \<Rightarrow> f x)"
  by (cases y) simp_all

lemmas quiet_intros = qu.intros qu.modify quiet_push quiet_push_if quiet_table quiet_option

lemma quiet_registers:
  "obeys quiet (deref r)" "obeys quiet (qreg_undo_set_integer r)" "obeys quiet (qreg_set_integer r v)"
  "obeys quiet (qreg_undo_set_string r)" "obeys quiet (qreg_set_string r str)" "obeys quiet (qreg_append_string r str)"
  "obeys quiet (create_qreg r)" "obeys quiet (qreg_get_integer r)" "obeys quiet (qreg_get_string r)"
  unfolding qreg_undo_set_integer_def qreg_set_integer_def qreg_undo_set_string_def qreg_set_string_def
    qreg_append_string_def create_qreg_def qreg_get_integer_def qreg_get_string_def deref_def
  by (intro quiet_intros)+

lemma quiet_qreg_stack: "obeys quiet (teco_qreg_stack_push r)" "obeys quiet (teco_qreg_stack_pop r)"
  unfolding teco_qreg_stack_push_def teco_qreg_stack_pop_def
  by (intro quiet_intros quiet_registers; simp add: quiet_def)+

lemma quiet_loops: "obeys quiet (append_loop lctx)" "obeys quiet remove_loop" "obeys quiet decrement_counter"
  unfolding append_loop_def remove_loop_def decrement_counter_def
  by (intro quiet_intros quiet_change; simp add: quiet_def)+

lemma quiet_goto: "obeys quiet (define_label name pc)" "obeys quiet (start_goto name bpc)" "obeys quiet clear_goto" "obeys quiet (set_ed h)"
  unfolding define_label_def start_goto_def clear_goto_def set_ed_def teco_goto_table_set_def teco_goto_table_undo_remove_def
  by (intro quiet_intros quiet_change; simp add: quiet_def nestings_ctx)+

lemma kept_integer_arg:
  assumes "number_arg a"
  shows "steps kept is_return (thenM (qreg_undo_set_integer r) (bindM a (\<lambda>n. thenM (qreg_set_integer r (k + n)) (ret n)))) s"
proof -
  have a: "steps kept is_return a s" for s
    using assms unfolding number_arg_def
    by (auto intro!: steps_stack consistent_stack cst.stack_intros)
  show ?thesis by (intro kout.st_bind kout.st_then kout.st_ret a steps_quiet quiet_registers)
qed

lemma kept_leave_loop: "steps kept is_return leave_loop s"
  unfolding leave_loop_def
  by (intro kout.st_intros steps_stack consistent_stack cst.stack_intros steps_quiet quiet_intros calm_command [of "Brace_return _ _", simplified])
    (simp add: quiet_def)

lemma kept_return: "steps kept is_return (return_error :: unit tm) s"
  unfolding return_error_def
  by (intro kout.st_intros steps_stack consistent_stack cst.stack_intros steps_quiet quiet_intros)
    (simp_all add: quiet_def nestings_ctx)

lemma kept_locals:
  assumes "\<And>l s. steps kept is_return (m l :: unit tm) s"
  shows "steps kept is_return (with_macro_locals m) s"
proof -
  have c: "consistent (u\<lparr>macro_locals := x\<rparr>) = consistent u" for u x by (rule consistent_fields) simp_all
  show ?thesis
    using assms [of "Macro_locals (length (macro_locals s))" "s\<lparr>macro_locals := macro_locals s @ [teco_qreg_table_init_locals]\<rparr>"]
    by (auto simp: steps_def with_macro_locals_def Let_def kept_def is_return_def c split: prod.splits sum.splits)
qed


section \<open>The interpretation\<close>

lemma kept_leave:
  assumes "kept_inner (s\<lparr>frames := m # frames s\<rparr>) t" shows "kept s (t\<lparr>frames := tl (frames t)\<rparr>)"
proof -
  have "consistent (u\<lparr>frames := x\<rparr>) = consistent u" for u x by (rule consistent_fields) simp_all
  moreover have "nestings (t\<lparr>frames := tl (frames t)\<rparr>) = nestings s"
    using assms by (cases "frames t") (auto simp: kept_inner_def nestings_def)
  ultimately show ?thesis using assms by (simp add: kept_def kept_inner_def)
qed

lemma kept_machine:
  "(\<And>m. es_nesting (f m) = es_nesting m) \<Longrightarrow> kept s (ctx_update f s)" "kept_inner s (ctx_update f s)"
  using consistent_fields [of "ctx_update f s" s] by (simp_all add: kept_def kept_inner_def nestings_ctx nestings_inner)

lemma kept_nesting: "steps kept_inner is_return (set_es_nesting g) s"
proof -
  have "steps kept_inner is_return (push_token t) s" for t s
    by (rule steps_sub [OF steps_quiet [OF quiet_push]]) (simp add: kept_def kept_inner_def)
  then show ?thesis unfolding set_es_nesting_def ctx_change_def
    by (intro kin.st_intros kin.st_modify kept_machine)
qed

interpretation con: macros kept_inner kept is_return
proof (unfold_locales, goal_cases)
  case (1 s t) then show ?case by (simp add: kept_def kept_inner_def)
next
  case (2 s t) then show ?case by (simp add: kept_def flip: nestings_hd)
next
  case (3 c s) then show ?case by (intro steps_stack keeps_command calm_command)
next
  case (4 s) show ?case by (intro steps_stack consistent_stack cst.stack_intros)
next
  case (5 n acc s) show ?case by (intro steps_stack keeps_consistent keeps_pop_args so.pop_args cst.stack_intros)
next
  case (6 s) show ?case by (intro steps_stack keeps_consistent keeps_push_op so.stack_intros cst.stack_intros) simp
next
  case (7 tok f s) then show ?case by (intro steps_quiet quiet_ctx_change) (simp add: machine_field_def machine_frame_def)
next
  case (8 g s) show ?case by (rule kept_nesting)
next
  case (9 s) show ?case by (rule kept_machine)
next
  case (10 s pc) show ?case by (rule kept_machine) simp
next
  case (11 s f) then show ?case by (intro kept_machine) (simp add: machine_frame_def)
next
  case (12 s b) show ?case by (rule quiet_kept) (simp add: quiet_def)
next
  case (13 s) show ?case by (rule kept_return)
next
  case (15 a r k s) then show ?case by (rule kept_integer_arg)
next
  case (16 r str s) show ?case unfolding replace_string_def by (intro steps_quiet quiet_intros quiet_registers)
next
  case (20 r) show ?case using quiet_qreg_stack(2) [of r] by (auto simp: obeys_def intro: quiet_kept)
next
  case (24 s) show ?case by (rule kept_leave_loop)
next
  case (29 str s new) show ?case by (intro steps_quiet quiet_intros) (simp add: quiet_def nestings_ctx)
next
  case (30 m s) then show ?case by (rule kept_locals)
next
  case (31 s t) then show ?case by (auto simp: kept_inner_def nestings_def dest: arg_cong [where f = length])
next
  case (32 s) show ?case by (simp add: is_return_def)
next
  case (33 s t) then show ?case by (simp add: kept_inner_def consistent_def expr_ok_def stacks_ok_def)
next
  case (34 m s cp l t) then show ?case by (intro kept_leave)
qed (intro steps_quiet quiet_intros quiet_registers quiet_qreg_stack quiet_loops quiet_goto; simp)+


text \<open>
  C4: Whatever characters the command line executes, macros, loops, conditionals, jumps and register
  commands included, if they succeed then every number on the stack has its \<open>TECO_OP_NUMBER\<close> and
  the operator stack has an open brace for every brace level: the assertions of the stack operations cannot fail for this
  reason in what follows. The commands that are parameters of the model are assumed to keep this.
\<close>

theorem commands_consistent:
  assumes "env_respects kept is_return E" and "cmdline_step E n macro stop s = (Inr x, t)" and "consistent s"
  shows "consistent t"
  using steps_okD [OF con.command_line [OF assms(1)] assms(2)] assms(3) by (simp add: kept_inner_def)

theorem commands_consistent_witness:
  "\<exists>t. cmdline_step plain_env (Suc (Suc (Suc 0))) ''2<('' 3 (teco_initial True) = (Inr (), t) \<and> consistent t"
proof -
  have "fst (cmdline_step plain_env (Suc (Suc (Suc 0))) ''2<('' 3 (teco_initial True)) = Inr ()"
    by (simp add: command_eval stack_eval)
  then obtain t where t: "cmdline_step plain_env (Suc (Suc (Suc 0))) ''2<('' 3 (teco_initial True) = (Inr (), t)"
    by (metis prod.collapse)
  moreover have "env_respects kept is_return plain_env"
    by (simp add: env_respects_def kout.st_ret)
  then have "consistent t" using t
    by (rule commands_consistent) (simp add: consistent_def expr_ok_def stacks_ok_def teco_initial_def)
  ultimately show ?thesis by blast
qed

end
