(* ===== verification/Fuel.thy ===== *)
theory Fuel
  imports Concrete
begin

text \<open>
  The steps a run may make are a bound, not a parameter of the semantics: a run that does not exhaust
  them gives the same result with more. Programs are compared by \<open>more m m'\<close>: wherever \<open>m\<close> does
  not run out of fuel, \<open>m'\<close> does the same.
\<close>

section \<open>Comparing programs\<close>

definition more :: "'a tm \<Rightarrow> 'a tm \<Rightarrow> bool" where
  "more m m' \<longleftrightarrow> (\<forall>s. fst (m s) \<noteq> Inl Out_of_fuel \<longrightarrow> m' s = m s)"

lemma moreD: "more m m' \<Longrightarrow> fst (m s) \<noteq> Inl Out_of_fuel \<Longrightarrow> m' s = m s"
  by (simp add: more_def)

lemma more_refl: "more m m"
  by (simp add: more_def)

lemma more_trans: "more l m \<Longrightarrow> more m n \<Longrightarrow> more l n"
  by (simp add: more_def)

lemma more_out: "more (throw Out_of_fuel) m"
  by (simp add: more_def throw_run)

lemma more_bind: "more m m' \<Longrightarrow> (\<And>x. more (f x) (f' x)) \<Longrightarrow> more (bindM m f) (bindM m' f')"
  unfolding more_def bindM_def by (fastforce split: prod.splits sum.splits)

lemma more_then: "more m m' \<Longrightarrow> more n n' \<Longrightarrow> more (thenM m n) (thenM m' n')"
  unfolding thenM_def by (rule more_bind)

lemma more_if: "more m m' \<Longrightarrow> more n n' \<Longrightarrow> more (if b then m else n) (if b then m' else n')"
  by simp

lemma more_when: "more m m' \<Longrightarrow> more (whenM b m) (whenM b m')"
  by (simp add: whenM_def more_refl)

lemma more_option:
  "more m m' \<Longrightarrow> (\<And>x. more (f x) (f' x)) \<Longrightarrow>
   more (case y of None \<Rightarrow> m | Some x \<Rightarrow> f x) (case y of None \<Rightarrow> m' | Some x \<Rightarrow> f' x)"
  by (cases y) simp_all

lemma more_sum:
  "(\<And>x. more (f x) (f' x)) \<Longrightarrow> (\<And>x. more (g x) (g' x)) \<Longrightarrow>
   more (case y of Inl x \<Rightarrow> f x | Inr x \<Rightarrow> g x) (case y of Inl x \<Rightarrow> f' x | Inr x \<Rightarrow> g' x)"
  by (cases y) simp_all

lemma more_pair: "(\<And>a b. more (f a b) (f' a b)) \<Longrightarrow> more (case y of (a, b) \<Rightarrow> f a b) (case y of (a, b) \<Rightarrow> f' a b)"
  by (cases y) simp

text \<open>Nothing inside the interpreter catches \<open>Out_of_fuel\<close>.\<close>

lemma more_attempt: "more m m' \<Longrightarrow> more (attempt m) (attempt m')"
  unfolding more_def attempt_def
  by (auto simp: is_gerror_def crash_def split: prod.splits sum.splits)

lemma more_locals: "(\<And>l. more (m l) (m' l)) \<Longrightarrow> more (with_macro_locals m) (with_macro_locals m')"
  unfolding more_def with_macro_locals_def Let_def by (auto split: prod.splits)

lemma more_frame: "more m m' \<Longrightarrow> more (with_frame f m) (with_frame f m')"
  unfolding more_def with_frame_def Let_def by (auto split: prod.splits)

lemma more_cleanup: "more m m' \<Longrightarrow> more (error_cleanup m) (error_cleanup m')"
proof -
  assume m: "more m m'"
  have "error_cleanup m' s = error_cleanup m s" if "fst (error_cleanup m s) \<noteq> Inl Out_of_fuel" for s
  proof -
    have "fst (m s) \<noteq> Inl Out_of_fuel"
      using that by (cases "m s") (auto simp: error_cleanup_def split: sum.splits)
    then show ?thesis using moreD [OF m, of s] by (simp add: error_cleanup_def)
  qed
  then show ?thesis by (simp add: more_def)
qed

lemmas more_intros = more_bind more_then more_if more_when more_option more_sum more_pair more_attempt more_locals
  more_refl

section \<open>Commands that run macros\<close>

definition more_exec :: "executor \<Rightarrow> executor \<Rightarrow> bool" where
  "more_exec exec exec' \<longleftrightarrow> (\<forall>macro l. more (exec macro l) (exec' macro l))"

lemma more_got_register: "more_exec exec exec' \<Longrightarrow> more (got_register E exec st reg) (got_register E exec' st reg)"
  by (cases st)
    (auto simp: got_register_def teco_state_macro_got_register_def when_executing_def with_qreg_def teco_qreg_execute_def
      more_exec_def intro!: more_intros)

lemma more_done: "more_exec exec exec' \<Longrightarrow> more (expectstring_done E exec st str) (expectstring_done E exec' st str)"
  by (cases st)
    (auto simp: expectstring_done_def teco_state_indirect_done_def when_executing_def teco_execute_file_def
      more_exec_def intro!: more_intros)

lemma more_state_input:
  assumes "more_exec exec exec'"
  shows "more (state_input E exec st chr) (state_input E exec' st chr)"
proof (cases st)
  case (Expect_qreg q)
  show ?thesis unfolding Expect_qreg state_input_def teco_state_expectqreg_input_def teco_state.case
    by (intro more_intros more_got_register [OF assms])
next
  case (Expect_string e)
  show ?thesis unfolding Expect_string state_input_def teco_state_expectstring_input_def expectstring_finish_def teco_state.case
    by (intro more_intros more_done [OF assms])
qed (simp_all add: state_input_def more_refl)

lemma more_input: "more_exec exec exec' \<Longrightarrow> more (teco_machine_input E exec chr) (teco_machine_input E exec' chr)"
  unfolding teco_machine_input_def by (intro more_intros more_state_input)

section \<open>The loops\<close>

lemma more_step_loop:
  "more_exec exec exec' \<Longrightarrow> n \<le> k \<Longrightarrow> more (step_loop E exec n macro stop) (step_loop E exec' k macro stop)"
proof (induction n arbitrary: k)
  case 0
  show ?case
  proof (cases k)
    case (Suc k')
    show ?thesis unfolding Suc step_loop.simps
      by (intro more_bind more_refl more_when more_out)
  qed (simp add: step_loop.simps more_refl)
next
  case (Suc n)
  then obtain k' where k: "k = Suc k'" "n \<le> k'" by (cases k) auto
  show ?case unfolding k step_loop.simps
    by (intro more_bind more_refl more_when more_then more_input Suc k)
qed

lemma more_main_step:
  "more_exec exec exec' \<Longrightarrow> n \<le> k \<Longrightarrow>
   more (teco_machine_main_step E exec n macro stop) (teco_machine_main_step E exec' k macro stop)"
  unfolding teco_machine_main_step_def by (intro more_then more_step_loop more_refl)

lemma more_macro_loop:
  "more_exec exec exec' \<Longrightarrow> n \<le> n' \<Longrightarrow> k \<le> k' \<Longrightarrow>
   more (macro_loop E exec n k b macro) (macro_loop E exec' n' k' b macro)"
proof (induction k arbitrary: k')
  case 0
  show ?case by (simp add: more_out)
next
  case (Suc k)
  then obtain j where j: "k' = Suc j" "k \<le> j" by (cases k') auto
  show ?case unfolding j macro_loop.simps catch_return_def
    by (intro more_bind more_refl more_when more_then more_sum more_if more_attempt more_main_step Suc j)
qed

lemma more_execute_macro: "n \<le> k \<Longrightarrow> more (teco_execute_macro E n macro l) (teco_execute_macro E k macro l)"
proof (induction n arbitrary: k macro l)
  case 0
  show ?case by (simp add: more_out)
next
  case (Suc n)
  then obtain j where j: "k = Suc j" "n \<le> j" by (cases k) auto
  have "more_exec (teco_execute_macro E n) (teco_execute_macro E j)"
    using Suc.IH j by (simp add: more_exec_def)
  then show ?case unfolding j teco_execute_macro.simps
    by (intro more_if more_refl more_bind more_frame more_cleanup more_then more_macro_loop j)
qed

section \<open>More steps\<close>

text \<open>
  A run of the command line that ends within some number of steps, with success or with an error,
  has the same result and the same effects with any larger number: whether a program
  ends does not depend on the bound once the bound is large enough.
\<close>

theorem fuel_monotone:
  assumes "fst (cmdline_step E n macro stop s) \<noteq> Inl Out_of_fuel" "n \<le> k"
  shows "cmdline_step E k macro stop s = cmdline_step E n macro stop s"
proof -
  have "more_exec (teco_execute_macro E n) (teco_execute_macro E k)"
    using more_execute_macro assms(2) by (simp add: more_exec_def)
  then have "more (cmdline_step E n macro stop) (cmdline_step E k macro stop)"
    unfolding cmdline_step_def using assms(2) by (rule more_main_step)
  then show ?thesis using assms(1) by (rule moreD)
qed

end
