(* ===== verification/Cmdline.thy ===== *)
theory Cmdline
  imports Rubout Eol
begin

text \<open>
  Editing the command line (\<open>src/cmdline.c\<close>): inserting text and executing it character by character,
  its replacement, rubbing out and reinserting, the immediate editing keys of the states outside
  of arguments, key presses and key macros.
\<close>

section \<open>Parameters\<close>

text \<open>
  GLib's functions on characters that are used here only, \<open>kb_next_char\<close> (the length of a string's first
  character, for \<open>g_utf8_find_next_char\<close>) and \<open>kb_prev_char\<close> (where its last character begins,
  for \<open>g_utf8_find_prev_char\<close>) among them; Scintilla's EOL mode; the key handlers of string and
  register arguments, which work on completions; and the key macro masks of the current states.
\<close>

record keyboard =
  kb_next_char :: "string \<Rightarrow> nat"
  kb_prev_char :: "string \<Rightarrow> nat option"
  kb_eol_mode :: "teco \<Rightarrow> int"
  kb_argument :: "teco_state \<Rightarrow> unichar \<Rightarrow> unit tm"
  kb_mask :: "teco \<Rightarrow> teco_int"

section \<open>Inserting\<close>

text \<open>The register with the new command line of a replacement.\<close>

definition esc_qreg :: qreg_ref where
  "esc_qreg = (Globals, [CHR 0x1B])"

definition set_cmdline_pc :: "nat \<Rightarrow> teco \<Rightarrow> teco" where
  "set_cmdline_pc pc s = s\<lparr>cmdline_pc := pc, cmdline_machine := (cmdline_machine s)\<lparr>macro_pc := pc\<rparr>\<rparr>"

text \<open>
  Text that was rubbed out and is typed again is taken from the command line; anything else replaces it and
  disables the immediate editing modifier.
\<close>

definition insert_text :: "string \<Rightarrow> teco \<Rightarrow> teco" where
  "insert_text data s0 =
     (let s = set_cmdline_pc (cmdline_effective_len s0) s0; eff = cmdline_effective_len s; str = cmdline_str s in
      if length data \<le> length str - eff \<and> teco_string_cmp data (take (length data) (drop eff str)) = 0
      then s\<lparr>cmdline_effective_len := eff + length data\<rparr>
      else s\<lparr>cmdline_modifier_enabled := (if eff < length str then False else cmdline_modifier_enabled s),
             cmdline_str := take eff str @ data, cmdline_effective_len := length (take eff str @ data)\<rparr>)"

text \<open>
  Errors that are displayed, i.e. whose code is less than \<open>TECO_ERROR_CMDLINE\<close>. That is checked after the
  replacement was handled.
\<close>

definition displayed_error :: "teco_error \<Rightarrow> bool" where
  "displayed_error e \<longleftrightarrow> e \<noteq> TECO_ERROR_CMDLINE \<and> e \<noteq> TECO_ERROR_RETURN \<and> e \<noteq> TECO_ERROR_QUIT"

text \<open>
  The loop of \<open>teco_cmdline_insert\<close>, which makes at most \<open>k\<close> rounds. \<open>old\<close> is the command line that was
  replaced, if any, and \<open>repl\<close> the position of its replacement. The new command line is executed from the first difference on.
\<close>

fun insert_loop :: "env \<Rightarrow> nat \<Rightarrow> nat \<Rightarrow> string \<Rightarrow> nat \<Rightarrow> unit tm" where
  "insert_loop E n 0 old repl =
     bindM (gets (\<lambda>s. cmdline_pc s < cmdline_effective_len s)) (\<lambda>b. whenM b (throw Out_of_fuel))"
| "insert_loop E n (Suc k) old repl =
     bindM (gets (\<lambda>s. s)) (\<lambda>s. whenM (cmdline_pc s < cmdline_effective_len s)
      (bindM (attempt (cmdline_step E n (cmdline_str s) (cmdline_pc s + 1))) (\<lambda>r.
         case r of
           Inr _ \<Rightarrow> thenM (modify (\<lambda>s. s\<lparr>cmdline_pc := cmdline_pc s + 1\<rparr>)) (insert_loop E n k old repl)
         | Inl e \<Rightarrow>
             if e = TECO_ERROR_CMDLINE then
               bindM (qreg_get_string esc_qreg) (\<lambda>new.
               bindM (gets (\<lambda>s. teco_string_diff (cmdline_str s) new)) (\<lambda>pc.
               thenM (modify (\<lambda>s. teco_undo_pop undo_action pc (s\<lparr>cmdline_pc := pc\<rparr>)))
                 (if old \<noteq> [] then throw G_assertion_failed
                  else bindM (gets cmdline_str) (\<lambda>str.
                    thenM (modify (\<lambda>s. set_cmdline_pc pc (s\<lparr>cmdline_str := new, cmdline_effective_len := length new\<rparr>)))
                      (insert_loop E n k str pc)))))
             else if displayed_error e \<and> old \<noteq> [] then
               thenM (modify (teco_undo_pop undo_action repl))
              (thenM (modify (\<lambda>s. set_cmdline_pc repl
                  (s\<lparr>cmdline_str := old, cmdline_effective_len := cmdline_effective_len s - 1\<rparr>)))
                 (insert_loop E n k [] repl))
             else throw e)))"

declare insert_loop.simps [simp del]

definition teco_cmdline_insert :: "env \<Rightarrow> nat \<Rightarrow> nat \<Rightarrow> string \<Rightarrow> unit tm" where
  "teco_cmdline_insert E n k data = thenM (modify (insert_text data)) (insert_loop E n k [] 0)"

section \<open>Rubbing out and reinserting\<close>

definition teco_cmdline_rubout :: "keyboard \<Rightarrow> teco \<Rightarrow> teco" where
  "teco_cmdline_rubout K s =
     (case kb_prev_char K (take (cmdline_effective_len s) (cmdline_str s)) of
        None \<Rightarrow> s
      | Some p \<Rightarrow> teco_undo_pop undo_action p (s\<lparr>cmdline_effective_len := p\<rparr>))"

definition teco_cmdline_rubin :: "env \<Rightarrow> keyboard \<Rightarrow> nat \<Rightarrow> nat \<Rightarrow> unit tm" where
  "teco_cmdline_rubin E K n k =
     bindM (gets (\<lambda>s. s)) (\<lambda>s. whenM (cmdline_str s \<noteq> [])
       (let rest = drop (cmdline_effective_len s) (cmdline_str s) in
        teco_cmdline_insert E n k (take (kb_next_char K rest) rest)))"

text \<open>The states defined with \<open>TECO_DEFINE_STATE_START\<close>.\<close>

definition is_start :: "teco_state \<Rightarrow> bool" where
  "is_start st \<longleftrightarrow> st \<in> {teco_state_start, teco_state_escape, teco_state_ctlc, teco_state_print_decimal, teco_state_print_octal}"

definition at_start :: "teco \<Rightarrow> bool" where
  "at_start s \<longleftrightarrow> is_start (current (cmdline_machine s))"

definition more_to_reinsert :: "teco \<Rightarrow> bool" where
  "more_to_reinsert s \<longleftrightarrow> cmdline_effective_len s < length (cmdline_str s)"

text \<open>
  The loops of the keys that rub out or reinsert several characters: \<open>do body while (cond)\<close> and \<open>while (cond) body\<close>,
  at most \<open>j\<close> times.
\<close>

fun do_while :: "nat \<Rightarrow> unit tm \<Rightarrow> (teco \<Rightarrow> bool) \<Rightarrow> unit tm" where
  "do_while 0 body cond = throw Out_of_fuel"
| "do_while (Suc j) body cond = thenM body (bindM (gets cond) (\<lambda>b. whenM b (do_while j body cond)))"

definition while_do :: "nat \<Rightarrow> (teco \<Rightarrow> bool) \<Rightarrow> unit tm \<Rightarrow> unit tm" where
  "while_do j cond body = bindM (gets cond) (\<lambda>b. whenM b (do_while j body cond))"

section \<open>Keys\<close>

text \<open>\<open>^Z\<close> and \<open>^L\<close> only concern the terminal.\<close>

definition teco_state_process_edit_cmd :: "env \<Rightarrow> keyboard \<Rightarrow> nat \<Rightarrow> nat \<Rightarrow> unichar \<Rightarrow> unit tm" where
  "teco_state_process_edit_cmd E K n k key =
     bindM (gets (\<lambda>s. s)) (\<lambda>s.
       let insert = teco_cmdline_insert E n k; rubin = teco_cmdline_rubin E K n k; rubout = modify (teco_cmdline_rubout K) in
       if key = uc LF then
         insert (if teco_ed s AND TECO_ED_AUTOEOL \<noteq> 0 then [LF] else teco_eol_get_seq (kb_eol_mode K s))
       else if key = teco_ctl_key (uc CHR ''G'') then
         modify (\<lambda>s. s\<lparr>cmdline_modifier_enabled := \<not> cmdline_modifier_enabled s\<rparr>)
       else if key = teco_ctl_key (uc CHR ''H'') then
         (if cmdline_modifier_enabled s then rubin else rubout)
       else if key = teco_ctl_key (uc CHR ''W'') then
         (if cmdline_modifier_enabled s
          then do_while k rubin (\<lambda>s. \<not> at_start s \<and> more_to_reinsert s)
          else do_while k rubout (\<lambda>s. \<not> at_start s))
       else if key = teco_ctl_key (uc CHR ''Z'') \<or> key = teco_ctl_key (uc CHR ''L'') then ret ()
       else insert (g_unichar_to_utf8 (env_glib E) key))"

definition teco_state_caseinsensitive_process_edit_cmd :: "env \<Rightarrow> keyboard \<Rightarrow> nat \<Rightarrow> nat \<Rightarrow> unichar \<Rightarrow> unit tm" where
  "teco_state_caseinsensitive_process_edit_cmd E K n k key =
     bindM (gets (\<lambda>s. teco_ed s AND TECO_ED_AUTOCASEFOLD \<noteq> 0)) (\<lambda>fold.
       teco_state_process_edit_cmd E K n k
         (if \<not> fold then key
          else if g_unichar_islower (env_glib E) key then g_unichar_toupper (env_glib E) key
          else g_unichar_tolower (env_glib E) key))"

text \<open>The byte of the command line at a position, tested only where there is one.\<close>

definition cmdline_byte :: "nat \<Rightarrow> teco \<Rightarrow> unichar" where
  "cmdline_byte i s = uc (cmdline_str s ! i)"

definition teco_state_command_process_edit_cmd :: "env \<Rightarrow> keyboard \<Rightarrow> nat \<Rightarrow> nat \<Rightarrow> unichar \<Rightarrow> unit tm" where
  "teco_state_command_process_edit_cmd E K n k key =
     (if key = teco_ctl_key (uc CHR ''W'') then
        bindM (gets cmdline_modifier_enabled) (\<lambda>reinsert.
          let rubin = teco_cmdline_rubin E K n k; rubout = modify (teco_cmdline_rubout K) in
          if reinsert then
            thenM (while_do k (\<lambda>s. at_start s \<and> more_to_reinsert s \<and>
                cmdline_byte (cmdline_effective_len s) s \<in> {uc CHR '':'', uc CHR ''@''}) rubin)
           (thenM (do_while k rubin (\<lambda>s. \<not> at_start s \<and> more_to_reinsert s))
              (while_do k (\<lambda>s. at_start s \<and> more_to_reinsert s \<and>
                teco_is_noop (cmdline_byte (cmdline_effective_len s) s)) rubin))
          else
            thenM (while_do k (\<lambda>s. at_start s \<and> 0 < cmdline_effective_len s \<and>
                teco_is_noop (cmdline_byte (cmdline_effective_len s - 1) s)) rubout)
           (thenM (do_while k rubout (\<lambda>s. \<not> at_start s))
              (while_do k (\<lambda>s. at_start s \<and>
                (modifier_at (flags (cmdline_machine s)) \<or> 0 < modifier_colon (flags (cmdline_machine s))) \<and>
                0 < cmdline_effective_len s) rubout)))
      else teco_state_caseinsensitive_process_edit_cmd E K n k key)"

text \<open>\<open>process_edit_cmd_cb\<close> of the states.\<close>

definition process_edit_cmd :: "env \<Rightarrow> keyboard \<Rightarrow> nat \<Rightarrow> nat \<Rightarrow> unichar \<Rightarrow> unit tm" where
  "process_edit_cmd E K n k key =
     bindM (gets (\<lambda>s. current (cmdline_machine s))) (\<lambda>st.
       case st of
         Expect_qreg q \<Rightarrow> kb_argument K st key
       | Expect_string e \<Rightarrow> kb_argument K st key
       | teco_state_ascii \<Rightarrow> teco_state_process_edit_cmd E K n k key
       | teco_state_label \<Rightarrow> teco_state_process_edit_cmd E K n k key
       | teco_state_blockcomment \<Rightarrow> teco_state_process_edit_cmd E K n k key
       | teco_state_blockcomment_star \<Rightarrow> teco_state_process_edit_cmd E K n k key
       | teco_state_eolcomment \<Rightarrow> teco_state_process_edit_cmd E K n k key
       | _ \<Rightarrow> teco_state_command_process_edit_cmd E K n k key)"

section \<open>Key presses\<close>

text \<open>The end of the command line by \<open>$$\<close>: nothing can be undone any more.\<close>

definition terminate_cmdline :: "teco \<Rightarrow> teco" where
  "terminate_cmdline s =
     (teco_expressions_clear ((teco_undo_clear s)\<lparr>cmdline_machine := (cmdline_machine s)\<lparr>goto_table := Map.empty\<rparr>\<rparr>))
       \<lparr>teco_loop_stack := [], cmdline_str := [], cmdline_effective_len := 0\<rparr>"

text \<open>
  The keys of one key press. \<open>prev\<close> is the last terminated command line, which is also what the register
  command for it sees; the result is its new value.
\<close>

fun keypress_loop :: "env \<Rightarrow> keyboard \<Rightarrow> nat \<Rightarrow> nat \<Rightarrow> unichar list \<Rightarrow> nat \<Rightarrow> string \<Rightarrow> string tm" where
  "keypress_loop E K n k [] start_pc prev = ret prev"
| "keypress_loop E K n k (chr # chrs) start_pc prev =
     bindM (attempt (process_edit_cmd (E\<lparr>env_last_cmdline := (\<lambda>_. prev)\<rparr>) K n k chr)) (\<lambda>r.
       case r of
         Inr _ \<Rightarrow> keypress_loop E K n k chrs start_pc prev
       | Inl e \<Rightarrow>
           if e \<noteq> TECO_ERROR_RETURN then
             thenM (modify (\<lambda>s.
                 (teco_undo_pop undo_action start_pc s)\<lparr>cmdline_effective_len := start_pc\<rparr>))
            (thenM (modify (\<lambda>s. s\<lparr>cmdline_machine := (cmdline_machine s)\<lparr>macro_pc := cmdline_effective_len s\<rparr>\<rparr>))
               (ret prev))
           else bindM (gets (\<lambda>s. s)) (\<lambda>s.
             if current (cmdline_machine s) \<noteq> teco_state_start then throw G_assertion_failed
             else if teco_ed s AND TECO_ED_EXIT \<noteq> 0 then throw TECO_ERROR_QUIT
             else thenM (modify terminate_cmdline) (keypress_loop E K n k chrs 0 (cmdline_str s))))"

text \<open>The characters of a string, as the loop of the source decodes them.\<close>

function utf8_chars :: "glib \<Rightarrow> string \<Rightarrow> unichar list" where
  "utf8_chars G data =
     (if data = [] then [] else g_utf8_get_char G data # utf8_chars G (drop (Suc (g_utf8_cont G (hd data))) data))"
  by pat_completeness auto
termination by (relation "measure (\<lambda>(_, data). length data)") auto

declare utf8_chars.simps [simp del]

definition teco_cmdline_keypress :: "env \<Rightarrow> keyboard \<Rightarrow> nat \<Rightarrow> nat \<Rightarrow> string \<Rightarrow> string \<Rightarrow> string tm" where
  "teco_cmdline_keypress E K n k data prev =
     (if \<not> teco_string_validate_utf8 (env_glib E) data then throw (TECO_ERROR_CODEPOINT ''Invalid UTF-8 sequence'')
      else bindM (gets cmdline_effective_len) (\<lambda>start_pc.
        keypress_loop E K n k (utf8_chars (env_glib E) data) start_pc prev))"

datatype teco_keymacro_status = TECO_KEYMACRO_SUCCESS | TECO_KEYMACRO_UNDEFINED

text \<open>\<open>TECO_KEYMACRO_ERROR\<close> is an error here.\<close>

definition teco_cmdline_keymacro :: "env \<Rightarrow> keyboard \<Rightarrow> nat \<Rightarrow> nat \<Rightarrow> string \<Rightarrow> string \<Rightarrow> (teco_keymacro_status \<times> string) tm" where
  "teco_cmdline_keymacro E K n k name prev =
     bindM (gets (teco_qreg_table_find Globals (CHR 0x0B # name))) (\<lambda>reg.
       case reg of
         Some r \<Rightarrow>
           bindM (qreg_get_integer r) (\<lambda>macro_mask.
           bindM (gets (kb_mask K)) (\<lambda>mask.
             if mask AND NOT macro_mask = 0 then ret (TECO_KEYMACRO_UNDEFINED, prev)
             else bindM (qreg_get_string r) (\<lambda>str.
               bindM (teco_cmdline_keypress E K n k str prev) (\<lambda>prev'. ret (TECO_KEYMACRO_SUCCESS, prev')))))
       | None \<Rightarrow> if name = ''CLOSE'' then throw TECO_ERROR_QUIT else ret (TECO_KEYMACRO_UNDEFINED, prev))"

section \<open>Rubbing out what was inserted\<close>

text \<open>Executing the inserted text one character at a time, without the handling of errors.\<close>

fun type_chars :: "env \<Rightarrow> nat \<Rightarrow> nat \<Rightarrow> unit tm" where
  "type_chars E n 0 = bindM (gets (\<lambda>s. cmdline_pc s < cmdline_effective_len s)) (\<lambda>b. whenM b (throw Out_of_fuel))"
| "type_chars E n (Suc k) =
     bindM (gets (\<lambda>s. s)) (\<lambda>s. whenM (cmdline_pc s < cmdline_effective_len s)
      (thenM (cmdline_step E n (cmdline_str s) (cmdline_pc s + 1))
      (thenM (modify (\<lambda>s. s\<lparr>cmdline_pc := cmdline_pc s + 1\<rparr>)) (type_chars E n k))))"

declare type_chars.simps [simp del]

lemma insert_typed: "type_chars E n k s = (Inr u, t) \<Longrightarrow> insert_loop E n k old repl s = (Inr u, t)"
proof (induction k arbitrary: s)
  case 0
  then show ?case by (simp add: type_chars.simps insert_loop.simps)
next
  case (Suc k)
  then show ?case
    by (auto simp: type_chars.simps insert_loop.simps run_simps attempt_def split: if_splits prod.splits sum.splits)
qed

text \<open>The tokens of the characters from a position on, in the order in which they run.\<close>

definition tokens_from :: "nat \<Rightarrow> teco \<Rightarrow> token list" where
  "tokens_from pc s = concat (rev (drop pc (teco_undo_heads s)))"

definition at_pc :: "nat \<Rightarrow> teco \<Rightarrow> teco" where
  "at_pc pc s = s\<lparr>cmdline_pc := pc\<rparr>"

text \<open>A state of the command line between two characters, and what characters executed from one on leave behind.\<close>

definition idle :: "teco \<Rightarrow> bool" where
  "idle s \<longleftrightarrow> frames s = [] \<and> ready s \<and> teco_undo_enabled s \<and> length (teco_undo_heads s) \<le> cmdline_pc s"

definition typed :: "teco \<Rightarrow> teco \<Rightarrow> bool" where
  "typed s t \<longleftrightarrow> idle t \<and> cmdline_pc s \<le> cmdline_pc t \<and>
     take (cmdline_pc s) (teco_undo_pad (cmdline_pc s) (teco_undo_heads t)) = teco_undo_pad (cmdline_pc s) (teco_undo_heads s) \<and>
     (\<forall>j x. behind j x (at_pc (cmdline_pc s) t) \<longrightarrow> behind j (run_tokens undo_action (tokens_from (cmdline_pc s) t) x) s)"

lemma undo_action_at: "undo_action tok (at_pc pc s) = at_pc pc (undo_action tok s)"
  by (cases tok) (simp_all add: at_pc_def table_defs split: table_ref.split locals_ref.split)

lemma run_at: "run_tokens undo_action ts (at_pc pc s) = at_pc pc (run_tokens undo_action ts s)"
  by (induction ts arbitrary: s) (simp_all add: undo_action_at)

lemma erase_at: "erase (at_pc pc s) = at_pc pc (erase s)"
  by (simp add: erase_def at_pc_def)

lemma at_at [simp]: "at_pc pc (at_pc qc s) = at_pc pc s"
  by (simp add: at_pc_def)

lemma at_fields [simp]:
  "teco_loop_stack (at_pc pc s) = teco_loop_stack s" "cmdline_machine (at_pc pc s) = cmdline_machine s"
  "teco_undo_heads (at_pc pc s) = teco_undo_heads s" "cmdline_pc (at_pc pc s) = pc" "frames (at_pc pc s) = frames s"
  "teco_undo_enabled (at_pc pc s) = teco_undo_enabled s" "tokens_from qc (at_pc pc s) = tokens_from qc s"
  by (simp_all add: at_pc_def tokens_from_def)

lemma at_same [simp]: "at_pc (cmdline_pc s) s = s"
  by (simp add: at_pc_def)

lemma behind_at: "behind j x s \<Longrightarrow> behind j (at_pc pc x) (at_pc pc s)"
  by (simp add: behind_def erase_at)

lemma ready_at [simp]: "ready (at_pc pc s) = ready s"
  by (simp add: ready_def ctx_def split: list.split)

lemma typed_refl: "idle s \<Longrightarrow> typed s s"
  by (simp add: typed_def idle_def teco_undo_pad_def tokens_from_def)

lemma concat_pad: "concat (rev (drop k (teco_undo_pad n hs))) = concat (rev (drop k hs))"
  by (simp add: teco_undo_pad_def)

lemma tokens_split:
  assumes "p \<le> q" "take q (teco_undo_pad q hs) = teco_undo_pad q hs'"
  shows "concat (rev (drop p hs)) = concat (rev (drop q hs)) @ concat (rev (drop p hs'))"
proof -
  have "drop p hs = drop p (take q hs) @ drop q hs"
    using assms(1) by (metis append_take_drop_id drop_append drop_drop drop_take le_add_diff_inverse2 length_take min_def drop_all append_Nil nat_le_linear take_all)
  moreover have "concat (rev (drop p (take q hs))) = concat (rev (drop p (take q (teco_undo_pad q hs))))"
    by (simp add: teco_undo_pad_def)
  ultimately show ?thesis using assms(2) by (simp add: concat_pad)
qed

lemma take_pad_mono:
  assumes "p \<le> q" "take q (teco_undo_pad q hs) = teco_undo_pad q hs'"
  shows "take p (teco_undo_pad p hs) = take p (teco_undo_pad p hs')"
proof -
  have "take p (teco_undo_pad p xs) = take p (teco_undo_pad q xs)" for xs :: "'a list list"
    using assms(1) by (simp add: teco_undo_pad_def min_def)
  then show ?thesis using assms by (metis min.absorb1 take_take)
qed

lemma typed_trans:
  assumes su: "typed s u" and ut: "typed u t"
  shows "typed s t"
proof -
  let ?p = "cmdline_pc s" and ?q = "cmdline_pc u"
  have pq: "?p \<le> ?q" "?q \<le> cmdline_pc t" using su ut by (simp_all add: typed_def)
  have h: "take ?q (teco_undo_pad ?q (teco_undo_heads t)) = teco_undo_pad ?q (teco_undo_heads u)"
    using ut by (simp add: typed_def)
  have "take ?p (teco_undo_pad ?p (teco_undo_heads t)) = teco_undo_pad ?p (teco_undo_heads s)"
    using take_pad_mono [OF pq(1) h] su by (simp add: typed_def)
  moreover have "behind j (run_tokens undo_action (tokens_from ?p t) x) s" if x: "behind j x (at_pc ?p t)" for j x
  proof -
    have "behind j (at_pc ?q x) (at_pc ?q t)" using behind_at [OF x, of ?q] by simp
    then have "behind j (run_tokens undo_action (tokens_from ?q t) (at_pc ?q x)) u" using ut by (simp add: typed_def)
    then have "behind j (at_pc ?p (run_tokens undo_action (tokens_from ?q t) (at_pc ?q x))) (at_pc ?p u)"
      by (rule behind_at)
    then have "behind j (run_tokens undo_action (tokens_from ?q t) (at_pc ?p x)) (at_pc ?p u)" by (simp add: run_at)
    then have "behind j (run_tokens undo_action (tokens_from ?p u)
        (run_tokens undo_action (tokens_from ?q t) (at_pc ?p x))) s"
      using su by (simp add: typed_def)
    moreover have "tokens_from ?p t = tokens_from ?q t @ tokens_from ?p u"
      unfolding tokens_from_def by (rule tokens_split [OF pq(1) h])
    moreover have "at_pc ?p x = x"
    proof -
      have "cmdline_pc (erase x) = ?p" using x by (simp add: behind_def erase_def)
      then show ?thesis by (simp add: erase_def at_pc_def)
    qed
    ultimately show ?thesis by simp
  qed
  ultimately show ?thesis using pq su ut by (simp add: typed_def)
qed

text \<open>One character.\<close>

lemma typed_char:
  assumes s: "idle s" and i: "inner s u"
  shows "typed s (at_pc (Suc (cmdline_pc s)) u)"
proof -
  let ?p = "cmdline_pc s" and ?u = "at_pc (Suc (cmdline_pc s)) u"
  have ok: "undo_ok s" "teco_undo_enabled s" "pending s = []" and f: "frames s = []" "ready s"
    using s by (simp_all add: idle_def undo_ok_def pending_def pad_fresh)
  have r: "rolls j s u" for j using i f by (simp add: inner_def)
  from r [of 0] ok have u: "undo_ok u" "teco_undo_enabled u" "cmdline_pc u = ?p" "settled u = settled s"
    by (simp_all add: rolls_def)
  have bk: "behind j (run_tokens undo_action (pending u) x) s" if "behind j x u" for j x
    using r [of j] ok that by (auto simp: rolls_def)
  have len: "length (teco_undo_heads u) \<le> Suc ?p" using u(1,3) by (simp add: undo_ok_def)
  have heads: "take ?p (teco_undo_pad ?p (teco_undo_heads u)) = settled u"
  proof (cases "length (teco_undo_heads u) \<le> ?p")
    case True
    then show ?thesis using u(3) by (simp add: settled_def pad_fresh length_pad)
  next
    case False
    then have "length (teco_undo_heads u) = Suc ?p" using len by simp
    then show ?thesis using u(3) by (simp add: settled_def pad_full teco_undo_pad_def butlast_conv_take)
  qed
  have "settled s = teco_undo_pad ?p (teco_undo_heads s)"
    using s by (simp add: settled_def pad_fresh idle_def)
  then have "take ?p (teco_undo_pad ?p (teco_undo_heads u)) = teco_undo_pad ?p (teco_undo_heads s)"
    using heads u(4) by simp
  moreover have "tokens_from ?p u = pending u"
  proof (cases "length (teco_undo_heads u) \<le> ?p")
    case True
    then show ?thesis using u(3) by (simp add: tokens_from_def pending_def pad_fresh)
  next
    case False
    then have l: "length (teco_undo_heads u) = Suc ?p" using len by simp
    then have "drop ?p (teco_undo_heads u) = [last (teco_undo_heads u)]"
      by (metis append_butlast_last_id append_eq_conv_conj diff_Suc_1 length_butlast list.size(3) nat.distinct(1))
    then show ?thesis using u(3) l by (simp add: tokens_from_def pending_def pad_full)
  qed
  moreover have "at_pc ?p u = u" using u(3) by (simp add: at_pc_def)
  moreover have "idle ?u"
    using i f u len same_place_frames ready_kept by (auto simp: idle_def inner_def)
  ultimately show ?thesis using bk by (simp add: typed_def)
qed

lemma typed_chars:
  assumes E: "env_respects outer caught E"
  shows "idle s \<Longrightarrow> type_chars E n k s = (Inr (), t) \<Longrightarrow> typed s t"
proof (induction k arbitrary: s)
  case 0
  then show ?case by (auto simp: type_chars.simps run_simps typed_refl split: if_splits)
next
  case (Suc k)
  show ?case
  proof (cases "cmdline_pc s < cmdline_effective_len s")
    case False
    then show ?thesis using Suc.prems by (simp add: type_chars.simps run_simps typed_refl)
  next
    case True
    then obtain u where u: "cmdline_step E n (cmdline_str s) (cmdline_pc s + 1) s = (Inr (), u)"
      and t: "type_chars E n k (at_pc (cmdline_pc u + 1) u) = (Inr (), t)"
      using Suc.prems(2) by (auto simp: type_chars.simps run_simps at_pc_def split: prod.splits sum.splits)
    have i: "inner s u" using rub.command_line [OF E] u by (rule steps_okD)
    then have "cmdline_pc u = cmdline_pc s" using Suc.prems(1) by (auto simp: idle_def inner_def rolls_def undo_ok_def)
    then have su: "typed s (at_pc (cmdline_pc u + 1) u)" using typed_char [OF Suc.prems(1) i] by simp
    have "idle (at_pc (cmdline_pc u + 1) u)" using su by (simp only: typed_def)
    then have "typed (at_pc (cmdline_pc u + 1) u) t" using t by (rule Suc.IH)
    with su show ?thesis by (rule typed_trans)
  qed
qed

lemma run_lists: "\<exists>h. undo_run_heads undo_action hs s = (run_tokens undo_action (concat hs) s)\<lparr>teco_undo_heads := h\<rparr>"
proof (induction hs arbitrary: s)
  case Nil
  show ?case by (rule exI [of _ "teco_undo_heads s"]) simp
next
  case (Cons ts hs)
  obtain h where "undo_run_heads undo_action hs (run_tokens undo_action ts (s\<lparr>teco_undo_heads := butlast (teco_undo_heads s)\<rparr>)) =
      (run_tokens undo_action (concat hs) (run_tokens undo_action ts (s\<lparr>teco_undo_heads := butlast (teco_undo_heads s)\<rparr>)))
        \<lparr>teco_undo_heads := h\<rparr>"
    using Cons by blast
  then show ?case by (auto simp: ulog.run_heads)
qed

lemma pop_tokens: "\<exists>h. teco_undo_pop undo_action pc s = (run_tokens undo_action (tokens_from pc s) s)\<lparr>teco_undo_heads := h\<rparr>"
  unfolding teco_undo_pop_def tokens_from_def by (rule run_lists)

lemma run_effective_len:
  "run_tokens undo_action ts (s\<lparr>cmdline_effective_len := e\<rparr>) = (run_tokens undo_action ts s)\<lparr>cmdline_effective_len := e\<rparr>"
proof (induction ts arbitrary: s)
  case (Cons tok ts)
  have "undo_action tok (s\<lparr>cmdline_effective_len := e\<rparr>) = (undo_action tok s)\<lparr>cmdline_effective_len := e\<rparr>"
    by (cases tok) (simp_all add: table_defs split: table_ref.split locals_ref.split)
  with Cons show ?case by simp
qed simp

lemma heads_of_run: "length hs \<le> length (teco_undo_heads s) \<Longrightarrow>
  teco_undo_heads (undo_run_heads undo_action hs s) = take (length (teco_undo_heads s) - length hs) (teco_undo_heads s)"
proof (induction hs arbitrary: s)
  case (Cons ts hs)
  let ?u = "run_tokens undo_action ts (s\<lparr>teco_undo_heads := butlast (teco_undo_heads s)\<rparr>)"
  have u: "teco_undo_heads ?u = butlast (teco_undo_heads s)" by (simp add: ulog.heads_run)
  with Cons.prems have "teco_undo_heads (undo_run_heads undo_action hs ?u) =
      take (length (butlast (teco_undo_heads s)) - length hs) (butlast (teco_undo_heads s))"
    using Cons.IH [of ?u] by simp
  then show ?case by (simp add: butlast_conv_take min_def)
qed simp

lemma pop_form: "teco_undo_pop undo_action p t =
  (run_tokens undo_action (tokens_from p t) t)\<lparr>teco_undo_heads := take p (teco_undo_heads t)\<rparr>"
proof -
  obtain h where h: "teco_undo_pop undo_action p t = (run_tokens undo_action (tokens_from p t) t)\<lparr>teco_undo_heads := h\<rparr>"
    using pop_tokens by blast
  have "teco_undo_heads (teco_undo_pop undo_action p t) = take p (teco_undo_heads t)"
    unfolding teco_undo_pop_def
    using heads_of_run [of "rev (drop p (teco_undo_heads t))" t] by (cases "length (teco_undo_heads t) \<le> p") simp_all
  with h show ?thesis by simp
qed

lemma run_cmdline_str: "cmdline_str (run_tokens undo_action ts s) = cmdline_str s"
proof (induction ts arbitrary: s)
  case (Cons tok ts)
  have "cmdline_str (undo_action tok s) = cmdline_str s"
    by (cases tok) (simp_all add: table_defs split: table_ref.split locals_ref.split)
  with Cons show ?case by simp
qed simp

lemma run_effective_len_same: "cmdline_effective_len (run_tokens undo_action ts s) = cmdline_effective_len s"
proof (induction ts arbitrary: s)
  case (Cons tok ts)
  have "cmdline_effective_len (undo_action tok s) = cmdline_effective_len s"
    by (cases tok) (simp_all add: table_defs split: table_ref.split locals_ref.split)
  with Cons show ?case by simp
qed simp

lemma tokens_fields [simp]:
  "tokens_from p (t\<lparr>cmdline_effective_len := e\<rparr>) = tokens_from p t"
  by (simp add: tokens_from_def)

text \<open>Rubbing out in several steps is rubbing out at once.\<close>

lemma pop_pop:
  assumes "q \<le> p"
  shows "teco_undo_pop undo_action q ((teco_undo_pop undo_action p (t\<lparr>cmdline_effective_len := p\<rparr>))\<lparr>cmdline_effective_len := q\<rparr>) =
    teco_undo_pop undo_action q (t\<lparr>cmdline_effective_len := q\<rparr>)"
proof -
  have "drop q (teco_undo_heads t) = drop q (take p (teco_undo_heads t)) @ drop p (teco_undo_heads t)"
    using assms by (metis append_take_drop_id drop_append drop_drop drop_take le_add_diff_inverse2 length_take min_def drop_all append_Nil nat_le_linear take_all)
  then have "tokens_from q t = tokens_from p t @ concat (rev (drop q (take p (teco_undo_heads t))))"
    by (simp add: tokens_from_def)
  moreover have "tokens_from q ((run_tokens undo_action (tokens_from p t) t)\<lparr>cmdline_effective_len := e, teco_undo_heads := hs\<rparr>) =
      concat (rev (drop q hs))" for e hs
    by (simp add: tokens_from_def)
  ultimately show ?thesis
    using assms by (simp add: pop_form run_effective_len ulog.run_heads min_def)
qed

text \<open>
  Characters of the command line in UTF-8: a byte that does not continue a character and the bytes that continue it.
  \<open>g_utf8_find_prev_char\<close> finds where the last one begins.
\<close>

definition continues_char :: "char \<Rightarrow> bool" where
  "continues_char c \<longleftrightarrow> (of_char c :: nat) div 64 = 2"

definition utf8_char :: "string \<Rightarrow> bool" where
  "utf8_char c \<longleftrightarrow> c \<noteq> [] \<and> \<not> continues_char (hd c) \<and> (\<forall>b \<in> set (tl c). continues_char b)"

definition finds_prev_char :: "keyboard \<Rightarrow> bool" where
  "finds_prev_char K \<longleftrightarrow> (\<forall>str c. utf8_char c \<longrightarrow> kb_prev_char K (str @ c) = Some (length str))"

lemma rubout_chars:
  assumes "finds_prev_char K" "cs \<noteq> []" "\<forall>c \<in> set cs. utf8_char c"
    and "take (cmdline_effective_len t) (cmdline_str t) = str @ concat cs" "cmdline_effective_len t \<le> length (cmdline_str t)"
  shows "(teco_cmdline_rubout K ^^ length cs) t = teco_undo_pop undo_action (length str) (t\<lparr>cmdline_effective_len := length str\<rparr>)"
  using assms(2-)
proof (induction cs arbitrary: t rule: rev_induct)
  case (snoc c cs)
  let ?p = "length (str @ concat cs)" let ?u = "teco_undo_pop undo_action ?p (t\<lparr>cmdline_effective_len := ?p\<rparr>)"
  have "kb_prev_char K ((str @ concat cs) @ c) = Some ?p"
    using assms(1) snoc.prems(2) unfolding finds_prev_char_def by (metis in_set_conv_decomp)
  then have r: "teco_cmdline_rubout K t = ?u" using snoc.prems(3) by (simp add: teco_cmdline_rubout_def)
  have eff: "cmdline_effective_len ?u = ?p" "cmdline_str ?u = cmdline_str t"
    by (simp_all add: pop_form run_effective_len run_cmdline_str)
  show ?case
  proof (cases "cs = []")
    case False
    have l: "?p \<le> cmdline_effective_len t" using arg_cong [OF snoc.prems(3), of length] snoc.prems(4) by simp
    have "take ?p (cmdline_str t) = take ?p (take (cmdline_effective_len t) (cmdline_str t))" using l by (simp add: min_def)
    then have "take (cmdline_effective_len ?u) (cmdline_str ?u) = str @ concat cs" using snoc.prems(3) by (simp add: eff [simplified])
    moreover have "cmdline_effective_len ?u \<le> length (cmdline_str ?u)" using l snoc.prems(4) by (simp add: eff [simplified])
    ultimately have "(teco_cmdline_rubout K ^^ length cs) ?u =
        teco_undo_pop undo_action (length str) (?u\<lparr>cmdline_effective_len := length str\<rparr>)"
      using snoc.IH [of ?u] snoc.prems(2) False by simp
    then show ?thesis using r pop_pop [of "length str" ?p t] by (simp add: funpow_swap1)
  qed (use r in simp)
qed simp

lemma typed_line:
  assumes "typed s t"
  shows "cmdline_str t = cmdline_str s" "cmdline_effective_len t = cmdline_effective_len s"
proof -
  have "behind 0 (run_tokens undo_action (tokens_from (cmdline_pc s) t) (at_pc (cmdline_pc s) t)) s"
    using assms behind_refl by (simp add: typed_def)
  then have e: "erase (run_tokens undo_action (tokens_from (cmdline_pc s) t) (at_pc (cmdline_pc s) t)) = erase s"
    by (simp add: behind_def)
  have "cmdline_str (erase u) = cmdline_str u" "cmdline_effective_len (erase u) = cmdline_effective_len u" for u
    by (simp_all add: erase_def)
  then show "cmdline_str t = cmdline_str s" "cmdline_effective_len t = cmdline_effective_len s"
    using arg_cong [OF e, of cmdline_str] arg_cong [OF e, of cmdline_effective_len]
    by (simp_all add: run_cmdline_str run_effective_len_same) (simp_all add: at_pc_def)
qed

lemma typed_pop:
  assumes st: "typed s t" and f: "frames s = []"
  shows "restored (s\<lparr>cmdline_effective_len := e\<rparr>)
    (at_pc (cmdline_pc s) (teco_undo_pop undo_action (cmdline_pc s) (t\<lparr>cmdline_effective_len := e\<rparr>)))"
proof -
  let ?p = "cmdline_pc s" and ?j = "length (teco_loop_stack s)"
  define T where "T = tokens_from ?p t"
  have u: "teco_undo_pop undo_action ?p (t\<lparr>cmdline_effective_len := e\<rparr>) =
      (run_tokens undo_action T t)\<lparr>cmdline_effective_len := e, teco_undo_heads := take ?p (teco_undo_heads t)\<rparr>"
    by (simp add: pop_form run_effective_len T_def)
  have "behind ?j (run_tokens undo_action T (at_pc ?p t)) s"
    using st behind_refl by (simp add: typed_def T_def)
  then have b: "behind ?j (at_pc ?p (run_tokens undo_action T t)) s" by (simp add: run_at)
  have er: "erase (v\<lparr>teco_undo_heads := hs, cmdline_effective_len := n, cmdline_pc := c\<rparr>) =
      (erase (v\<lparr>cmdline_pc := c\<rparr>))\<lparr>cmdline_effective_len := n\<rparr>" for v hs n c
    by (simp add: erase_def)
  have er': "erase (v\<lparr>cmdline_effective_len := n\<rparr>) = (erase v)\<lparr>cmdline_effective_len := n\<rparr>" for v n
    by (simp add: erase_def)
  have "frames (run_tokens undo_action T t) = []" using st by (simp add: frames_undo typed_def idle_def)
  then show ?thesis using b f unfolding u
    by (auto simp: restored_def behind_def weak_all er er' at_pc_def)
qed

lemma inserted_line:
  assumes "cmdline_effective_len s \<le> length (cmdline_str s)"
  shows "take (cmdline_effective_len (insert_text data s)) (cmdline_str (insert_text data s)) =
      take (cmdline_effective_len s) (cmdline_str s) @ data"
    and "cmdline_effective_len (insert_text data s) \<le> length (cmdline_str (insert_text data s))"
  using assms by (auto simp: insert_text_def set_cmdline_pc_def Let_def take_add)

text \<open>
  C2: Typing and rubbing out. If the bytes of a text of any number of UTF-8 characters, inserted into the command line,
  succeed one after the other, then inserting it succeeds with their effects, and as many rubouts as it has characters,
  each of which removes the last character before the end of the command line, restore
  the interpreter with everything the text did, and the end of the command line before the insertion; only the text stays
  for reinsertion. The commands that are parameters of the model are assumed to be revertible, and \<open>g_utf8_find_prev_char\<close> to
  find the beginning of the last character.
\<close>

theorem insert_rubout:
  assumes "env_respects outer caught E" "frames s = []" "ready s" "teco_undo_enabled s"
    and "length (teco_undo_heads s) \<le> cmdline_effective_len s" "cmdline_effective_len s \<le> length (cmdline_str s)"
    and "finds_prev_char K" "cs \<noteq> []" "\<forall>c \<in> set cs. utf8_char c"
    and "type_chars E n k (insert_text (concat cs) s) = (Inr (), t)"
  shows "teco_cmdline_insert E n k (concat cs) s = (Inr (), t) \<and>
    cmdline_effective_len ((teco_cmdline_rubout K ^^ length cs) t) = cmdline_effective_len s \<and>
    restored ((insert_text (concat cs) s)\<lparr>cmdline_effective_len := cmdline_effective_len s\<rparr>)
      (at_pc (cmdline_effective_len s) ((teco_cmdline_rubout K ^^ length cs) t))"
proof -
  let ?s = "insert_text (concat cs) s" let ?p = "cmdline_effective_len s"
  have s: "frames ?s = []" "cmdline_pc ?s = ?p" "idle ?s"
    using assms(2-5) by (auto simp: insert_text_def set_cmdline_pc_def Let_def idle_def ready_def)
  have st: "typed ?s t" using assms(1) s(3) assms(10) by (rule typed_chars)
  have "(teco_cmdline_rubout K ^^ length cs) t = teco_undo_pop undo_action ?p (t\<lparr>cmdline_effective_len := ?p\<rparr>)"
    using rubout_chars [of K cs t "take ?p (cmdline_str s)"] assms(6-9) inserted_line [OF assms(6), of "concat cs"]
    by (simp add: typed_line [OF st] min_def)
  then show ?thesis
    using typed_pop [OF st s(1), of ?p] insert_typed [OF assms(10)] s(2)
    by (simp add: teco_cmdline_insert_def run_simps pop_form run_effective_len_same)
qed

text \<open>A keyboard whose previous character begins at the last byte that does not continue one.\<close>

definition last_char_start :: "string \<Rightarrow> nat option" where
  "last_char_start str =
     (case dropWhile continues_char (rev str) of [] \<Rightarrow> None | _ # rest \<Rightarrow> Some (length rest))"

definition utf8_keyboard :: keyboard where
  "utf8_keyboard = \<lparr>kb_next_char = (\<lambda>s. 1), kb_prev_char = last_char_start,
     kb_eol_mode = (\<lambda>_. SC_EOL_LF), kb_argument = (\<lambda>_ _. ret ()), kb_mask = (\<lambda>_. 0)\<rparr>"

lemma utf8_keyboard_finds: "finds_prev_char utf8_keyboard"
proof (unfold finds_prev_char_def, intro allI impI)
  fix str c
  assume c: "utf8_char c"
  then obtain x xs where "c = x # xs" by (cases c) (auto simp: utf8_char_def)
  moreover have "dropWhile continues_char (rev ys @ zs) = dropWhile continues_char zs" if "\<forall>y \<in> set ys. continues_char y" for ys zs
    by (rule dropWhile_append2) (use that in auto)
  ultimately show "kb_prev_char utf8_keyboard (str @ c) = Some (length str)"
    using c by (simp add: utf8_char_def utf8_keyboard_def last_char_start_def)
qed

lemma type_round:
  "cmdline_pc s < cmdline_effective_len s \<Longrightarrow> type_chars E n (Suc k) s =
    (case cmdline_step E n (cmdline_str s) (Suc (cmdline_pc s)) s of
       (Inl e, t) \<Rightarrow> (Inl e, t)
     | (Inr _, t) \<Rightarrow> type_chars E n k (t\<lparr>cmdline_pc := Suc (cmdline_pc t)\<rparr>))"
  by (auto simp: type_chars.simps run_simps split: prod.split sum.split)

lemma type_end: "cmdline_effective_len s \<le> cmdline_pc s \<Longrightarrow> type_chars E n k s = (Inr (), s)"
  by (cases k) (simp_all add: type_chars.simps run_simps)

theorem insert_rubout_witness:
  "\<exists>t. teco_cmdline_insert plain_env (Suc (Suc (Suc 0))) (Suc (Suc 0)) ''(('' (teco_initial True) = (Inr (), t) \<and>
     restored ((insert_text ''(('' (teco_initial True))\<lparr>cmdline_effective_len := 0\<rparr>)
       (at_pc 0 ((teco_cmdline_rubout utf8_keyboard ^^ 2) t))"
proof -
  let ?T = "type_chars plain_env (Suc (Suc (Suc 0))) (Suc (Suc 0)) (insert_text (concat [''('', ''('']) (teco_initial True))"
  have "fst ?T = Inr ()"
    by (simp add: type_round type_end insert_text_def set_cmdline_pc_def teco_string_cmp_def command_eval stack_eval)
  then obtain t where t: "?T = (Inr (), t)" by (metis prod.collapse)
  show ?thesis
    using insert_rubout [OF plain_respects _ _ _ _ _ utf8_keyboard_finds _ _ t]
    by (simp add: teco_initial_def ready_def teco_machine_main_init_def utf8_char_def continues_char_def numeral_2_eq_2)
qed

end
