(* ===== verification/Escaping.thy ===== *)
theory Escaping
  imports Concrete
begin

text \<open>
  Escaping and string arguments: text escaped with \<open>teco_machine_stringbuilding_escape\<close> (theory \<open>StringBuilding\<close>), as
  completion inserts it, never ends the argument that \<open>teco_state_expectstring_input\<close> (theory \<open>Arguments\<close>) collects, and
  stands for itself in it.
\<close>

section \<open>Changes of the current machine\<close>

text \<open>A program that succeeds and changes the current machine only, but for undo tokens that it may add.\<close>

definition runs :: "'a tm \<Rightarrow> teco \<Rightarrow> 'a \<Rightarrow> (machine \<Rightarrow> machine) \<Rightarrow> bool" where
  "runs p s x f \<longleftrightarrow> (\<exists>h. p s = (Inr x, (ctx_update f s)\<lparr>teco_undo_heads := h\<rparr>) \<and> length h \<le> Suc (cmdline_pc s))"

lemma argument_ctx_fields [simp]:
  "ctx (s\<lparr>teco_undo_heads := h\<rparr>) = ctx s" "ctx (ctx_update f s) = f (ctx s)" "cmdline_pc (ctx_update f s) = cmdline_pc s"
  "teco_undo_heads (ctx_update f s) = teco_undo_heads s"
  "ctx_update f (s\<lparr>teco_undo_heads := h\<rparr>) = (ctx_update f s)\<lparr>teco_undo_heads := h\<rparr>"
  "ctx_update f (ctx_update g s) = ctx_update (\<lambda>m. f (g m)) s"
  by (simp_all add: ctx_def ctx_update_def split: list.split)

lemma ctx_update_unchanged: "f (ctx s) = ctx s \<Longrightarrow> ctx_update f s = s"
  by (auto simp: ctx_def ctx_update_def split: list.splits)

lemma ctx_update_at: "f (ctx s) = g (ctx s) \<Longrightarrow> ctx_update f s = ctx_update g s"
  by (auto simp: ctx_def ctx_update_def split: list.splits)

lemma heads_same: "s\<lparr>teco_undo_heads := teco_undo_heads s\<rparr> = s"
  by simp

lemma runs_at: "runs p s x f \<Longrightarrow> f (ctx s) = g (ctx s) \<Longrightarrow> runs p s x g"
  using ctx_update_at [of f s g] by (simp add: runs_def)

lemma runs_ret: "undo_ok s \<Longrightarrow> runs (ret x) s x (\<lambda>m. m)"
  using ctx_update_unchanged [of "\<lambda>m. m" s] by (auto simp: runs_def run_simps undo_ok_def intro: exI [of _ "teco_undo_heads s"])

lemma runs_bind:
  assumes "runs p s x f" "\<And>t. undo_ok t \<Longrightarrow> ctx t = f (ctx s) \<Longrightarrow> runs (q x) t y g"
  shows "runs (bindM p q) s y (\<lambda>m. g (f m))"
proof -
  obtain h where h: "p s = (Inr x, (ctx_update f s)\<lparr>teco_undo_heads := h\<rparr>)" "length h \<le> Suc (cmdline_pc s)"
    using assms(1) by (auto simp: runs_def)
  let ?t = "(ctx_update f s)\<lparr>teco_undo_heads := h\<rparr>"
  have "runs (q x) ?t y g" using h(2) by (intro assms(2)) (simp_all add: undo_ok_def)
  then show ?thesis using h by (auto simp: runs_def run_simps)
qed

lemma runs_then:
  "runs p s () f \<Longrightarrow> (\<And>t. undo_ok t \<Longrightarrow> ctx t = f (ctx s) \<Longrightarrow> runs q t y g) \<Longrightarrow> runs (thenM p q) s y (\<lambda>m. g (f m))"
  using runs_bind [of p s "()" f "\<lambda>_. q" y g] by (simp add: runs_def run_simps)

lemma runs_get: "runs (q (g s)) s y f \<Longrightarrow> runs (bindM (gets g) q) s y f"
  by (simp add: runs_def run_simps)

lemma runs_modify: "undo_ok s \<Longrightarrow> runs (modify (ctx_update f)) s () f"
  by (auto simp: runs_def run_simps undo_ok_def intro!: exI [of _ "teco_undo_heads s"])

lemma runs_push: "undo_ok s \<Longrightarrow> runs (push_token t) s () (\<lambda>m. m)"
proof (cases "teco_undo_enabled s")
  case True
  assume "undo_ok s"
  then show ?thesis using True ctx_update_unchanged [of "\<lambda>m. m" s]
    by (auto simp: runs_def push_token_def teco_undo_push_ok length_settled intro!: exI [of _ "settled s @ [t # pending s]"])
next
  case False
  assume "undo_ok s"
  then show ?thesis using runs_ret [of s "()"] False by (simp add: runs_def push_token_disabled run_simps)
qed

lemma runs_push_if: "undo_ok s \<Longrightarrow> runs (push_if b t) s () (\<lambda>m. m)"
  using runs_push [of s t] runs_ret [of s "()"] by (simp add: push_if_def whenM_def)

lemma runs_change: "undo_ok s \<Longrightarrow> runs (ctx_change t f) s () f"
  unfolding ctx_change_def
  by (rule runs_get, rule runs_then [where f = "\<lambda>m. m"]) (use runs_push_if [unfolded push_if_def] runs_modify in blast)+

section \<open>One character\<close>

lemma runs_append:
  assumes "undo_ok s" "executing s" "expectstring_building st"
    and "\<And>R :: qreg_ref registers. teco_machine_stringbuilding_input (env_glib E) R (es_machine (ctx s)) chr (Some (es_string (ctx s))) =
      Inr (sb, Some (es_string (ctx s) @ new))"
  shows "runs (expectstring_append E st chr) s () (\<lambda>m. m\<lparr>es_machine := sb, es_string := es_string m @ new,
    es_insert_len := es_insert_len m + length new\<rparr>)"
proof -
  let ?m = "ctx s"
  have ex: "executing s = (mode (flags ?m) = TECO_MODE_NORMAL)" by (simp add: executing_def ctx_flags_def)
  have body: "runs (thenM (push_if (executing s \<and> must_undo ?m) (Undo_es_truncate (length (es_string ?m))))
      (thenM (thenM (set_es_machine (\<lambda>_. sb)) (modify (ctx_update (\<lambda>m. m\<lparr>es_string := es_string ?m @ new\<rparr>))))
        (set_es_insert_len (\<lambda>m'. es_insert_len m' + (length (es_string m') - length (es_string ?m)))))) s ()
      (\<lambda>m. m\<lparr>es_machine := sb, es_string := es_string ?m @ new,
        es_insert_len := es_insert_len m + (length (es_string ?m @ new) - length (es_string ?m))\<rparr>)"
    (is "runs (thenM ?p (thenM (thenM ?a ?b) ?c)) s () _")
  proof (rule runs_at)
    show "runs (thenM ?p (thenM (thenM ?a ?b) ?c)) s ()
        (\<lambda>m. (\<lambda>m'. (\<lambda>m. m\<lparr>es_insert_len := es_insert_len m + (length (es_string m) - length (es_string ?m))\<rparr>)
          ((\<lambda>m. m\<lparr>es_string := es_string ?m @ new\<rparr>) ((\<lambda>m. m\<lparr>es_machine := sb\<rparr>) m'))) m)"
      unfolding set_es_machine_def set_es_insert_len_def
      by (rule runs_then [OF runs_push_if [OF assms(1)]], rule runs_then, rule runs_then, (rule runs_change runs_modify; assumption)+)
  qed simp
  show ?thesis
    unfolding expectstring_append_def
    by (rule runs_get)+ (use assms(2-4) body in \<open>simp add: runs_at\<close>)
qed

text \<open>A character that does not end the argument, nor opens a brace in it.\<close>

lemma runs_input:
  assumes "undo_ok s" "executing s" "expectstring_building st" "\<not> modifier_at (flags (ctx s))" "es_nesting (ctx s) = 1"
    and "sb_current (es_machine (ctx s)) = SB_start \<Longrightarrow> \<not> needs_escape (env_glib E) (sb_escape_char (es_machine (ctx s))) chr"
    and "g_unichar_toupper (env_glib E) (uc CHR ''{'') = uc CHR ''{''"
    and "\<And>R :: qreg_ref registers. teco_machine_stringbuilding_input (env_glib E) R (es_machine (ctx s)) chr (Some (es_string (ctx s))) =
      Inr (sb, Some (es_string (ctx s) @ new))"
  shows "runs (teco_state_expectstring_input E cb st chr) s (Expect_string st) (\<lambda>m. m\<lparr>es_machine := sb, es_string := es_string m @ new,
    es_insert_len := es_insert_len m + length new\<rparr>)"
proof -
  have at: "\<not> modifier_at (ctx_flags s)" using assms(4) by (simp add: ctx_flags_def)
  have "count_nesting E chr s = (Inr (), s)"
    using assms(6,7) unfolding count_nesting_def needs_escape_def by (auto simp: run_simps whenM_def)
  then have "teco_state_expectstring_input E cb st chr s = thenM (expectstring_append E st chr) (ret (Expect_string st)) s"
    using assms(5) at by (simp add: teco_state_expectstring_input_def teco_machine_main_eval_at_def run_simps)
  moreover have "runs (thenM (expectstring_append E st chr) (ret (Expect_string st))) s (Expect_string st)
      (\<lambda>m. m\<lparr>es_machine := sb, es_string := es_string m @ new, es_insert_len := es_insert_len m + length new\<rparr>)"
    using runs_then [OF runs_append [OF assms(1-3,8)], of "ret (Expect_string st)" "Expect_string st" "\<lambda>m. m"]
    by (simp add: runs_ret)
  ultimately show ?thesis by (simp add: runs_def)
qed

section \<open>The argument\<close>

text \<open>Characters that all belong to the argument: the state stays that of the argument.\<close>

fun argument_chars :: "env \<Rightarrow> (string \<Rightarrow> teco_state tm) \<Rightarrow> string_state \<Rightarrow> unichar list \<Rightarrow> unit tm" where
  "argument_chars E cb st [] = ret ()"
| "argument_chars E cb st (c # cs) =
     bindM (teco_state_expectstring_input E cb st c) (\<lambda>next.
       if next = Expect_string st then argument_chars E cb st cs else throw G_assertion_failed)"

text \<open>The state of an argument in which the next character may end it.\<close>

definition at_top :: "env \<Rightarrow> string_state \<Rightarrow> machine \<Rightarrow> bool" where
  "at_top E st m \<longleftrightarrow> mode (flags m) = TECO_MODE_NORMAL \<and> \<not> modifier_at (flags m) \<and> es_nesting m = 1 \<and> expectstring_building st \<and>
     sb_current (es_machine m) = SB_start \<and> sb_mode (es_machine m) = TECO_STRINGBUILDING_MODE_NORMAL"

text \<open>What collecting \<open>cs\<close> means.\<close>

definition collected :: "glib \<Rightarrow> unichar list \<Rightarrow> machine \<Rightarrow> machine" where
  "collected G cs m = m\<lparr>es_string := es_string m @ utf8 G cs, es_insert_len := es_insert_len m + length (utf8 G cs)\<rparr>"

lemma input_plain:
  assumes "sb_current m = SB_start" "sb_mode m = TECO_STRINGBUILDING_MODE_NORMAL" "plain_char c"
  shows "teco_machine_stringbuilding_input G R m c (Some r) = Inr (m, Some (r @ g_unichar_to_utf8 G c))"
  using build_plain [OF assms, of G R r]
  by (cases "teco_machine_stringbuilding_input G R m c (Some r)") (simp_all, metis build.simps(1) prod.collapse sum.inject(2))

lemma input_quote:
  assumes "sb_current m = SB_start" "sb_mode m = TECO_STRINGBUILDING_MODE_NORMAL"
  shows "teco_machine_stringbuilding_input G R m 0x11 (Some r) = Inr (sb_goto SB_escaped m, Some (r @ []))"
    and "teco_machine_stringbuilding_input G R (sb_goto SB_escaped m) c (Some r) = Inr (m, Some (r @ g_unichar_to_utf8 G c))"
proof -
  have "teco_ascii_toupper (teco_ctl_echo 0x11) = uc CHR ''Q''" by (simp add: teco_ascii_toupper_def teco_ctl_echo_def)
  moreover have "teco_is_ctl 0x11" by (simp add: teco_is_ctl_def)
  moreover have "teco_ctl_key (uc CHR ''^'') = 0x1E" by (simp add: teco_ctl_key_def)
  ultimately show "teco_machine_stringbuilding_input G R m 0x11 (Some r) = Inr (sb_goto SB_escaped m, Some (r @ []))"
    using assms by (cases m) (simp add: sb_with_qreg_def sb_simple_input_def sb_start_input_def sb_ctl_input_def)
  show "teco_machine_stringbuilding_input G R (sb_goto SB_escaped m) c (Some r) = Inr (m, Some (r @ g_unichar_to_utf8 G c))"
    using assms
    by (cases m) (simp add: sb_with_qreg_def sb_simple_input_def sb_escaped_input_def append_char_def teco_string_append_wc_def)
qed

lemma goto_fields [simp]: "sb_current (sb_goto st m) = st" "sb_escape_char (sb_goto st m) = sb_escape_char m"
  by (cases m; simp)+

lemma runs_escaped:
  assumes "undo_ok s" "at_top E st (ctx s)"
    and "g_unichar_toupper (env_glib E) (uc CHR ''{'') = uc CHR ''{''"
    and "g_unichar_toupper (env_glib E) 0x11 \<noteq> sb_escape_char (es_machine (ctx s))"
    and "plain_char c \<or> needs_escape (env_glib E) (sb_escape_char (es_machine (ctx s))) c"
  shows "runs (argument_chars E cb st (if needs_escape (env_glib E) (sb_escape_char (es_machine (ctx s))) c then [0x11, c] else [c])) s ()
    (collected (env_glib E) [c])"
proof -
  let ?G = "env_glib E" and ?esc = "sb_escape_char (es_machine (ctx s))" and ?m = "es_machine (ctx s)"
  have top: "executing s" "\<not> modifier_at (flags (ctx s))" "es_nesting (ctx s) = 1" "expectstring_building st"
      "sb_current ?m = SB_start" "sb_mode ?m = TECO_STRINGBUILDING_MODE_NORMAL"
    using assms(2) by (simp_all add: at_top_def executing_def ctx_flags_def)
  show ?thesis
  proof (cases "needs_escape ?G ?esc c")
    case False
    have "runs (teco_state_expectstring_input E cb st c) s (Expect_string st)
        (\<lambda>m. m\<lparr>es_machine := ?m, es_string := es_string m @ g_unichar_to_utf8 ?G c, es_insert_len := es_insert_len m + length (g_unichar_to_utf8 ?G c)\<rparr>)"
      by (rule runs_input) (use assms False top input_plain in auto)
    then have "runs (argument_chars E cb st [c]) s () (\<lambda>m. (\<lambda>m. m) ((\<lambda>m. m\<lparr>es_machine := ?m, es_string := es_string m @ g_unichar_to_utf8 ?G c,
        es_insert_len := es_insert_len m + length (g_unichar_to_utf8 ?G c)\<rparr>) m))"
      unfolding argument_chars.simps by (rule runs_bind) (simp add: runs_ret)
    then show ?thesis using False by (simp add: runs_at collected_def utf8_def)
  next
    case True
    have q: "\<not> needs_escape ?G ?esc 0x11" using assms(4) by (simp add: needs_escape_def)
    have one: "runs (teco_state_expectstring_input E cb st 0x11) s (Expect_string st)
        (\<lambda>m. m\<lparr>es_machine := sb_goto SB_escaped ?m, es_string := es_string m @ [], es_insert_len := es_insert_len m + length ([] :: string)\<rparr>)"
      by (rule runs_input) (use assms q top input_quote(1) in auto)
    have two: "runs (teco_state_expectstring_input E cb st c) t (Expect_string st)
        (\<lambda>m. m\<lparr>es_machine := ?m, es_string := es_string m @ g_unichar_to_utf8 ?G c, es_insert_len := es_insert_len m + length (g_unichar_to_utf8 ?G c)\<rparr>)"
      if t: "undo_ok t" "ctx t = (ctx s)\<lparr>es_machine := sb_goto SB_escaped ?m, es_string := es_string (ctx s) @ [],
          es_insert_len := es_insert_len (ctx s) + length ([] :: string)\<rparr>" for t
      by (rule runs_input) (use assms(3) t top input_quote(2) in \<open>simp_all add: executing_def ctx_flags_def\<close>)
    have "runs (argument_chars E cb st [0x11, c]) s () (\<lambda>m. (\<lambda>m. (\<lambda>m. m)
        ((\<lambda>m. m\<lparr>es_machine := ?m, es_string := es_string m @ g_unichar_to_utf8 ?G c,
          es_insert_len := es_insert_len m + length (g_unichar_to_utf8 ?G c)\<rparr>) m))
        ((\<lambda>m. m\<lparr>es_machine := sb_goto SB_escaped ?m, es_string := es_string m @ [], es_insert_len := es_insert_len m + length ([] :: string)\<rparr>) m))"
      unfolding argument_chars.simps
      by (rule runs_bind [OF one]) (simp only: simp_thms if_True, rule runs_bind [OF two], simp_all add: runs_ret)
    then show ?thesis using True by (simp add: runs_at collected_def utf8_def)
  qed
qed

lemma argument_append:
  "argument_chars E cb st (xs @ ys) s = thenM (argument_chars E cb st xs) (argument_chars E cb st ys) s"
  by (induction xs arbitrary: s) (auto simp: run_simps split: prod.split sum.split)

lemma runs_argument:
  assumes "g_unichar_toupper (env_glib E) (uc CHR ''{'') = uc CHR ''{''"
    and "g_unichar_toupper (env_glib E) 0x11 \<noteq> esc"
    and "\<forall>c \<in> set cs. plain_char c \<or> needs_escape (env_glib E) esc c"
  shows "undo_ok s \<Longrightarrow> at_top E st (ctx s) \<Longrightarrow> sb_escape_char (es_machine (ctx s)) = esc \<Longrightarrow>
    runs (argument_chars E cb st (escape_chars (env_glib E) esc cs)) s () (collected (env_glib E) cs)"
  using assms(3)
proof (induction cs arbitrary: s)
  case Nil
  have "collected (env_glib E) [] = (\<lambda>m. m)" by (simp add: collected_def utf8_def fun_eq_iff)
  then show ?case using Nil runs_ret by (simp add: escape_chars_def)
next
  case (Cons c cs)
  let ?G = "env_glib E" let ?one = "if needs_escape ?G esc c then [0x11, c] else [c]"
  have one: "runs (argument_chars E cb st ?one) s () (collected ?G [c])"
    using runs_escaped [OF Cons.prems(1,2) assms(1), of c cb] assms(2) Cons.prems(3,4) by simp
  have "runs (thenM (argument_chars E cb st ?one) (argument_chars E cb st (escape_chars ?G esc cs))) s ()
      (\<lambda>m. collected ?G cs (collected ?G [c] m))"
    by (rule runs_then [OF one], rule Cons.IH) (use Cons.prems in \<open>simp_all add: at_top_def collected_def\<close>)
  moreover have "collected ?G cs (collected ?G [c] m) = collected ?G (c # cs) m" for m
    by (simp add: collected_def utf8_def)
  ultimately show ?case using argument_append [of E cb st ?one "escape_chars ?G esc cs" s]
    by (simp add: runs_def escape_chars_def)
qed

text \<open>The character that ends the argument.\<close>

definition ends_argument :: "glib \<Rightarrow> unichar \<Rightarrow> unichar \<Rightarrow> bool" where
  "ends_argument G esc c \<longleftrightarrow> (if esc = uc CHR ''{'' then c = uc CHR ''}'' else g_unichar_toupper G c = esc)"

lemma input_end:
  assumes "undo_ok s" "at_top E st (ctx s)" "ends_argument (env_glib E) (sb_escape_char (es_machine (ctx s))) c"
  shows "\<exists>t. teco_state_expectstring_input E cb st c s = expectstring_finish E cb st t \<and> ctx t = (ctx s)\<lparr>es_nesting := 0\<rparr>"
proof -
  have "\<not> modifier_at (ctx_flags s)" using assms(2) by (simp add: at_top_def ctx_flags_def)
  moreover have "uc CHR ''}'' \<noteq> uc CHR ''{''" by simp
  then have "count_nesting E c s = set_es_nesting (\<lambda>n. n - 1) s"
    using assms(2,3) by (auto simp: count_nesting_def at_top_def ends_argument_def run_simps whenM_def)
  moreover have "runs (set_es_nesting (\<lambda>n. n - 1)) s () (\<lambda>m. m\<lparr>es_nesting := es_nesting m - 1\<rparr>)"
    unfolding set_es_nesting_def by (rule runs_change [OF assms(1)])
  ultimately show ?thesis using assms(2)
    by (auto simp: teco_state_expectstring_input_def teco_machine_main_eval_at_def run_simps runs_def at_top_def)
qed

text \<open>
  C14: Escaping. A string escaped with \<open>teco_machine_stringbuilding_escape\<close> and typed into a string argument, at its top level,
  never ends the argument nor opens a brace in it: all its characters are collected, \<open>^Q\<close> excepted, so that the
  argument grows by exactly the original string, and the character that ends the argument still ends it, its callbacks seeing that string. This
  holds for every escape character, braces included, but \<open>^Q\<close> itself, and for strings of valid characters without carets and control characters,
  which the function does not escape.
\<close>

theorem escape_build:
  assumes "undo_ok s" "at_top E st (ctx s)" "esc = sb_escape_char (es_machine (ctx s))"
    and "utf8_laws (env_glib E)" "g_unichar_validate (env_glib E) 0x11"
    and "g_unichar_toupper (env_glib E) (uc CHR ''{'') = uc CHR ''{''" "g_unichar_toupper (env_glib E) 0x11 \<noteq> esc"
    and "\<forall>c \<in> set cs. g_unichar_validate (env_glib E) c \<and> (plain_char c \<or> needs_escape (env_glib E) esc c)"
    and "ends_argument (env_glib E) esc terminator"
  shows "\<exists>ds t. teco_machine_stringbuilding_escape (env_glib E) (es_machine (ctx s)) (utf8 (env_glib E) cs) = utf8 (env_glib E) ds \<and>
     bindM (argument_chars E cb st ds) (\<lambda>_. teco_state_expectstring_input E cb st terminator) s = expectstring_finish E cb st t \<and>
     ctx t = (ctx s)\<lparr>es_string := es_string (ctx s) @ utf8 (env_glib E) cs,
       es_insert_len := es_insert_len (ctx s) + length (utf8 (env_glib E) cs), es_nesting := 0\<rparr>"
proof -
  let ?G = "env_glib E" let ?ds = "escape_chars ?G esc cs"
  have e: "teco_machine_stringbuilding_escape ?G (es_machine (ctx s)) (utf8 ?G cs) = utf8 ?G ?ds"
    unfolding teco_machine_stringbuilding_escape_def assms(3) [symmetric]
    using assms(8) by (intro escape_loop_utf8 assms(4,5)) blast
  have "runs (argument_chars E cb st ?ds) s () (collected ?G cs)"
    using assms(8) by (intro runs_argument assms(1,2,6,7) assms(3) [symmetric]) blast
  then obtain h where h: "argument_chars E cb st ?ds s = (Inr (), (ctx_update (collected ?G cs) s)\<lparr>teco_undo_heads := h\<rparr>)"
      "length h \<le> Suc (cmdline_pc s)" by (auto simp: runs_def)
  let ?u = "(ctx_update (collected ?G cs) s)\<lparr>teco_undo_heads := h\<rparr>"
  have "undo_ok ?u" "at_top E st (ctx ?u)" "sb_escape_char (es_machine (ctx ?u)) = esc"
    using h(2) assms(2,3) by (simp_all add: undo_ok_def at_top_def collected_def)
  then obtain t where "teco_state_expectstring_input E cb st terminator ?u = expectstring_finish E cb st t"
      "ctx t = (ctx ?u)\<lparr>es_nesting := 0\<rparr>"
    using input_end [of ?u E st terminator cb] assms(9) by auto
  then show ?thesis using e h(1) by (auto simp: run_simps collected_def intro!: exI [of _ ?ds] exI [of _ t])
qed

text \<open>An argument between braces on the command line.\<close>

definition brace_argument :: teco where
  "brace_argument = ctx_update (\<lambda>m. m\<lparr>es_machine := teco_machine_stringbuilding_init (uc CHR ''{'') SC_CP_UTF8\<rparr>) (teco_initial True)"

theorem escape_build_witness:
  "\<exists>ds t. teco_machine_stringbuilding_escape ascii_glib (teco_machine_stringbuilding_init (uc CHR ''{'') SC_CP_UTF8) ''a}'' = utf8 ascii_glib ds \<and>
     bindM (argument_chars plain_env (\<lambda>_. ret teco_state_start) E_insert_plain ds)
       (\<lambda>_. teco_state_expectstring_input plain_env (\<lambda>_. ret teco_state_start) E_insert_plain (uc CHR ''}'')) brace_argument =
       expectstring_finish plain_env (\<lambda>_. ret teco_state_start) E_insert_plain t \<and>
     es_string (ctx t) = ''a}''"
proof -
  let ?cs = "[uc CHR ''a'', uc CHR ''}'']"
  have u: "utf8 ascii_glib ?cs = ''a}''"
    by (simp add: utf8_def ascii_glib_def ascii_char_def char_of_def bit_0)
  have g: "env_glib plain_env = ascii_glib" by (simp add: plain_env_def)
  have m: "es_machine (ctx brace_argument) = teco_machine_stringbuilding_init (uc CHR ''{'') SC_CP_UTF8" "es_string (ctx brace_argument) = []"
    by (simp_all add: brace_argument_def ctx_def teco_initial_def teco_machine_main_init_def)
  have "\<exists>ds t. teco_machine_stringbuilding_escape (env_glib plain_env) (es_machine (ctx brace_argument)) (utf8 (env_glib plain_env) ?cs) =
       utf8 (env_glib plain_env) ds \<and>
     bindM (argument_chars plain_env (\<lambda>_. ret teco_state_start) E_insert_plain ds)
       (\<lambda>_. teco_state_expectstring_input plain_env (\<lambda>_. ret teco_state_start) E_insert_plain (uc CHR ''}'')) brace_argument =
       expectstring_finish plain_env (\<lambda>_. ret teco_state_start) E_insert_plain t \<and>
     ctx t = (ctx brace_argument)\<lparr>es_string := es_string (ctx brace_argument) @ utf8 (env_glib plain_env) ?cs,
       es_insert_len := es_insert_len (ctx brace_argument) + length (utf8 (env_glib plain_env) ?cs), es_nesting := 0\<rparr>"
  proof (rule escape_build [where esc = "uc CHR ''{''"])
    show "undo_ok brace_argument" "at_top plain_env E_insert_plain (ctx brace_argument)"
      by (simp_all add: undo_ok_def at_top_def brace_argument_def teco_initial_def ctx_def ctx_update_def
        teco_machine_main_init_def teco_machine_stringbuilding_init_def expectstring_building_def)
    show "utf8_laws (env_glib plain_env)" using utf8_laws_ascii by (simp add: plain_env_def)
  qed (simp_all add: m teco_machine_stringbuilding_init_def plain_env_def ascii_glib_def ascii_upcase_def ascii_between_def
      plain_char_def needs_escape_def teco_is_ctl_def ends_argument_def)
  then obtain ds t where "teco_machine_stringbuilding_escape ascii_glib (teco_machine_stringbuilding_init (uc CHR ''{'') SC_CP_UTF8) ''a}'' = utf8 ascii_glib ds"
    "bindM (argument_chars plain_env (\<lambda>_. ret teco_state_start) E_insert_plain ds)
       (\<lambda>_. teco_state_expectstring_input plain_env (\<lambda>_. ret teco_state_start) E_insert_plain (uc CHR ''}'')) brace_argument =
       expectstring_finish plain_env (\<lambda>_. ret teco_state_start) E_insert_plain t"
    "ctx t = (ctx brace_argument)\<lparr>es_string := [] @ ''a}'',
       es_insert_len := es_insert_len (ctx brace_argument) + length ''a}'', es_nesting := 0\<rparr>"
    unfolding g u m by blast
  then show ?thesis by (intro exI [of _ ds] exI [of _ t]) simp
qed

end
