(* ===== verification/Editor.thy ===== *)
theory Editor
  imports Registers
begin

text \<open>
  The editor around the interpreter as its commands on documents see it: views of the editing component, one per
  document; the current view; the ring of buffers (\<open>src/ring.c\<close>, \<open>src/ring.h\<close>); and the undo tokens for all this.
  Scintilla is a parameter, a record with a function for every message that is used. The conversions between
  glyph indices and byte positions are those of \<open>src/view.c\<close>.
\<close>

section \<open>Scintilla\<close>

text \<open>
  \<open>'v\<close> is a view with its document. Positions are in bytes. \<open>sci_utf32_index\<close> tells whether the index of
  characters in lines is there, which is the case for UTF-8 documents.
\<close>

record 'v scintilla =
  sci_length :: "'v \<Rightarrow> int"
  sci_current_pos :: "'v \<Rightarrow> int"
  sci_anchor :: "'v \<Rightarrow> int"
  sci_goto_pos :: "int \<Rightarrow> 'v \<Rightarrow> 'v"
  sci_goto_line :: "int \<Rightarrow> 'v \<Rightarrow> 'v"
  sci_set_sel :: "int \<Rightarrow> int \<Rightarrow> 'v \<Rightarrow> 'v"
  sci_line_count :: "'v \<Rightarrow> int"
  sci_line_from_position :: "'v \<Rightarrow> int \<Rightarrow> int"
  sci_position_from_line :: "'v \<Rightarrow> int \<Rightarrow> int"
  sci_range_pointer :: "'v \<Rightarrow> int \<Rightarrow> int \<Rightarrow> string"
  sci_gap_position :: "'v \<Rightarrow> int"
  sci_word_chars :: "'v \<Rightarrow> string"
  sci_codepage :: "'v \<Rightarrow> nat"
  sci_utf32_index :: "'v \<Rightarrow> bool"
  sci_line_from_index_position :: "'v \<Rightarrow> int \<Rightarrow> int"
  sci_index_position_from_line :: "'v \<Rightarrow> int \<Rightarrow> int"
  sci_position_relative :: "'v \<Rightarrow> int \<Rightarrow> int \<Rightarrow> int"
  sci_count_characters :: "'v \<Rightarrow> int \<Rightarrow> int \<Rightarrow> int"
  sci_char_at :: "'v \<Rightarrow> int \<Rightarrow> char"
  sci_add_text :: "string \<Rightarrow> 'v \<Rightarrow> 'v"
  sci_begin_undo_action :: "'v \<Rightarrow> 'v"
  sci_end_undo_action :: "'v \<Rightarrow> 'v"
  sci_delete_range :: "int \<Rightarrow> int \<Rightarrow> 'v \<Rightarrow> 'v"
  sci_undo :: "'v \<Rightarrow> 'v"
  sci_character_set :: "'v \<Rightarrow> nat"
  sci_use_tabs :: "'v \<Rightarrow> bool"
  sci_tab_width :: "'v \<Rightarrow> int"
  sci_column :: "'v \<Rightarrow> int \<Rightarrow> int"
  sci_set_anchor :: "int \<Rightarrow> 'v \<Rightarrow> 'v"
  sci_replace_sel :: "string \<Rightarrow> 'v \<Rightarrow> 'v"

section \<open>Glyphs and bytes\<close>

definition teco_view_glyphs2bytes :: "'v scintilla \<Rightarrow> 'v \<Rightarrow> teco_int \<Rightarrow> int" where
  "teco_view_glyphs2bytes S v pos =
     (if sint pos < 0 then - 1
      else if pos = 0 then 0
      else if \<not> sci_utf32_index S v then (if sint pos \<le> sci_length S v then sint pos else - 1)
      else
        let line = sci_line_from_index_position S v (sint pos);
            line_bytes = sci_position_from_line S v line;
            res = sci_position_relative S v line_bytes (sint pos - sci_index_position_from_line S v line)
        in if res \<noteq> 0 then res else - 1)"

definition teco_view_bytes2glyphs :: "'v scintilla \<Rightarrow> 'v \<Rightarrow> int \<Rightarrow> teco_int" where
  "teco_view_bytes2glyphs S v pos =
     (if pos = 0 then 0
      else if \<not> sci_utf32_index S v then word_of_int pos
      else
        let line = sci_line_from_position S v pos; line_bytes = sci_position_from_line S v line
        in word_of_int (sci_index_position_from_line S v line + sci_count_characters S v line_bytes pos))"

definition TECO_RELATIVE_LIMIT :: int where
  "TECO_RELATIVE_LIMIT = 1024"

definition teco_view_get_codepage :: "'v scintilla \<Rightarrow> 'v \<Rightarrow> nat" where
  "teco_view_get_codepage S v = (if sci_codepage S v \<noteq> 0 then sci_codepage S v else sci_character_set S v)"

text \<open>
  Arithmetic on \<open>teco_int_t\<close> wraps here. In C it is undefined when it overflows, and according to its comment the function
  does not work for the least integer, whose \<open>ABS\<close> has no value; what it returns then is arbitrary.
\<close>

definition teco_view_glyphs2bytes_relative :: "'v scintilla \<Rightarrow> 'v \<Rightarrow> int \<Rightarrow> teco_int \<Rightarrow> int" where
  "teco_view_glyphs2bytes_relative S v pos n =
     (if n = 0 then pos
      else if TECO_RELATIVE_LIMIT < sint (if sint n < 0 then - n else n)
      then teco_view_glyphs2bytes S v (teco_view_bytes2glyphs S v pos + n)
      else
        let res = sci_position_relative S v pos (sint n) in
        if res \<noteq> 0 then res
        else if 0 < sint n then - 1
        else if 0 \<le> sint (teco_view_bytes2glyphs S v pos + n) then 0 else - 1)"

section \<open>State\<close>

datatype document = Buffer nat | Register qreg_ref

record search_parameters =
  sp_dot :: int
  sp_from :: int
  sp_to :: int
  sp_count :: int
  sp_from_buffer :: "nat option"
  sp_to_buffer :: "nat option"

datatype editor_token =
    Undo_goto_pos document int
  | Undo_set_sel document int int
  | Undo_sci_undo document
  | Undo_set_anchor document int
  | Undo_show_view document
  | Undo_ring_current nat
  | Undo_dirty nat bool
  | Undo_search_parameters search_parameters
  | Undo_ranges "(teco_int \<times> teco_int) list"

text \<open>
  The buffers are numbered from 0 in the order of the ring. \<open>editor_log\<close> has the tokens pushed, newest first;
  the interpreter's own tokens do not touch this state.
\<close>

record 'v editor =
  views :: "document \<Rightarrow> 'v"
  teco_interface_current_view :: document
  ring_size :: nat
  teco_ring_current :: nat
  dirty :: "nat \<Rightarrow> bool"
  teco_search_parameters :: search_parameters
  teco_ranges :: "(teco_int \<times> teco_int) list"
  editor_log :: "editor_token list"

type_synonym ('v, 'a) em = "(teco \<times> 'v editor, teco_error, 'a) prog"

text \<open>What a token does when it is popped.\<close>

definition update_view :: "document \<Rightarrow> ('v \<Rightarrow> 'v) \<Rightarrow> 'v editor \<Rightarrow> 'v editor" where
  "update_view d f e = e\<lparr>views := (views e)(d := f (views e d))\<rparr>"

fun editor_undo :: "'v scintilla \<Rightarrow> editor_token \<Rightarrow> 'v editor \<Rightarrow> 'v editor" where
  "editor_undo S (Undo_goto_pos d pos) e = update_view d (sci_goto_pos S pos) e"
| "editor_undo S (Undo_set_sel d a p) e = update_view d (sci_set_sel S a p) e"
| "editor_undo S (Undo_sci_undo d) e = update_view d (sci_undo S) e"
| "editor_undo S (Undo_set_anchor d a) e = update_view d (sci_set_anchor S a) e"
| "editor_undo S (Undo_show_view d) e = e\<lparr>teco_interface_current_view := d\<rparr>"
| "editor_undo S (Undo_ring_current b) e = e\<lparr>teco_ring_current := b\<rparr>"
| "editor_undo S (Undo_dirty b d) e = e\<lparr>dirty := (dirty e)(b := d)\<rparr>"
| "editor_undo S (Undo_search_parameters p) e = e\<lparr>teco_search_parameters := p\<rparr>"
| "editor_undo S (Undo_ranges r) e = e\<lparr>teco_ranges := r\<rparr>"

section \<open>Elementary steps\<close>

text \<open>A step of the interpreter, and what is read from the current view.\<close>

definition interp :: "'a tm \<Rightarrow> ('v, 'a) em" where
  "interp m = (\<lambda>(s, e). case m s of (r, s') \<Rightarrow> (r, (s', e)))"

definition current_view :: "'v editor \<Rightarrow> 'v" where
  "current_view e = views e (teco_interface_current_view e)"

definition ssm_get :: "('v \<Rightarrow> 'a) \<Rightarrow> ('v, 'a) em" where
  "ssm_get f = gets (\<lambda>(s, e). f (current_view e))"

definition ssm :: "('v \<Rightarrow> 'v) \<Rightarrow> ('v, unit) em" where
  "ssm f = modify (\<lambda>(s, e). (s, update_view (teco_interface_current_view e) f e))"

definition editor_push :: "('v editor \<Rightarrow> editor_token) \<Rightarrow> ('v, unit) em" where
  "editor_push t = modify (\<lambda>(s, e). (s, if teco_undo_enabled s then e\<lparr>editor_log := t e # editor_log e\<rparr> else e))"

definition teco_current_doc_must_undo :: "teco \<Rightarrow> bool" where
  "teco_current_doc_must_undo s \<longleftrightarrow>
     (case teco_qreg_current s of None \<Rightarrow> True | Some r \<Rightarrow> table_must_undo (fst r))"

text \<open>\<open>undo__teco_interface_ssm\<close> under the condition \<open>teco_current_doc_must_undo\<close>; it is for the view that is current now.\<close>

definition undo_ssm :: "(document \<Rightarrow> editor_token) \<Rightarrow> ('v, unit) em" where
  "undo_ssm t = bindM (gets (\<lambda>(s, e). teco_current_doc_must_undo s)) (\<lambda>b.
     whenM b (editor_push (\<lambda>e. t (teco_interface_current_view e))))"

section \<open>The ring\<close>

text \<open>Switching the view, without changing \<open>teco_ring_current\<close>; information shown about the buffer is left out.\<close>

definition teco_buffer_edit :: "nat \<Rightarrow> ('v, unit) em" where
  "teco_buffer_edit b = modify (\<lambda>(s, e). (s, e\<lparr>teco_interface_current_view := Buffer b\<rparr>))"

text \<open>
  The token for \<open>teco_qreg_current\<close> is left out: no buffer is edited in the commands here while a register is
  current, and they do not change it.
\<close>

definition teco_ring_undo_edit :: "('v, unit) em" where
  "teco_ring_undo_edit =
     thenM (editor_push (\<lambda>e. Undo_ring_current (teco_ring_current e)))
       (editor_push (\<lambda>e. Undo_show_view (Buffer (teco_ring_current e))))"

definition teco_ring_dirtify :: "('v, unit) em" where
  "teco_ring_dirtify =
     bindM (gets (\<lambda>(s, e). teco_qreg_current s \<noteq> None \<or> dirty e (teco_ring_current e))) (\<lambda>b.
       whenM (\<not> b)
        (thenM (editor_push (\<lambda>e. Undo_dirty (teco_ring_current e) (dirty e (teco_ring_current e))))
          (modify (\<lambda>(s, e). (s, e\<lparr>dirty := (dirty e)(teco_ring_current e := True)\<rparr>)))))"

text \<open>\<open>teco_ring_find\<close> counts from 1 down the ring: numbers that are not positive are never reached.\<close>

fun find_by_id_loop :: "nat \<Rightarrow> nat \<Rightarrow> teco_int \<Rightarrow> nat option" where
  "find_by_id_loop 0 b i = None"
| "find_by_id_loop (Suc left) b i = (if i - 1 = 0 then Some b else find_by_id_loop left (Suc b) (i - 1))"

definition teco_ring_find_by_id :: "'v editor \<Rightarrow> teco_int \<Rightarrow> nat option" where
  "teco_ring_find_by_id e i = find_by_id_loop (ring_size e) 0 i"

definition teco_ring_get_id :: "nat \<Rightarrow> teco_int" where
  "teco_ring_get_id b = of_nat (Suc b)"

definition teco_buffer_next :: "'v editor \<Rightarrow> nat \<Rightarrow> nat option" where
  "teco_buffer_next e b = (if Suc b < ring_size e then Some (Suc b) else None)"

definition teco_buffer_prev :: "nat \<Rightarrow> nat option" where
  "teco_buffer_prev b = (if b = 0 then None else Some (b - 1))"

end
