(* ===== verification/Movement.thy ===== *)
theory Movement
  imports Editor Core_Commands
begin

text \<open>
  The commands that move in the document, delete from it or query it (\<open>src/move-commands.c\<close>, and from
  \<open>src/core-commands.c\<close> dot, \<open>Z\<close>, \<open>H\<close>, \<open>A\<close>, \<open>^E\<close>, \<open>^Y\<close>, \<open>^S\<close> and the backslash): the callbacks that are parameters
  of the interpreter's model, as programs on the interpreter and the editor.
\<close>

section \<open>Words\<close>

text \<open>
  The scan of \<open>teco_find_words\<close> reads the document through a pointer to a range before or after the gap:
  \<open>buffer\<close> with \<open>range_len\<close> bytes, and \<open>p\<close> in it. The inner loop forwards ends at a word (\<open>Inr (False, _)\<close>) or at the end of
  the document. Positions are not beyond the length of the document, which the source compares for equality.
\<close>

type_synonym scan = "nat \<times> string \<times> nat \<times> nat"

function forward_word :: "'v scintilla \<Rightarrow> 'v \<Rightarrow> string \<Rightarrow> nat \<Rightarrow> nat \<Rightarrow> bool \<Rightarrow> bool \<Rightarrow> scan \<Rightarrow> teco_error + bool \<times> scan" where
  "forward_word S v wchars len gap end_of_word skip_word (pos, buffer, range_len, p) =
     (if len \<le> pos then Inr (True, (pos, buffer, range_len, p))
      else if range_len \<le> p \<and> pos \<noteq> gap then Inl G_assertion_failed
      else
        let (buffer, range_len, p) =
          (if range_len \<le> p then (sci_range_pointer S v (int gap) (int (len - gap)), len - gap, 0) else (buffer, range_len, p)) in
        if (buffer ! p \<notin> set wchars) = skip_word then
          (if skip_word = end_of_word then Inr (False, (pos, buffer, range_len, p))
           else forward_word S v wchars len gap end_of_word (\<not> skip_word) (pos, buffer, range_len, p))
        else forward_word S v wchars len gap end_of_word skip_word (Suc pos, buffer, range_len, Suc p))"
  by pat_completeness auto
termination
  by (relation "measure (\<lambda>(S, v, wchars, len, gap, end_of_word, skip_word, pos, _). 2 * (len - pos) + (if skip_word = end_of_word then 0 else 1))")
    (auto split: if_splits)

declare forward_word.simps [simp del]

text \<open>\<open>while (n--)\<close>, for \<open>n\<close> words.\<close>

fun forward_words :: "'v scintilla \<Rightarrow> 'v \<Rightarrow> string \<Rightarrow> nat \<Rightarrow> nat \<Rightarrow> bool \<Rightarrow> nat \<Rightarrow> scan \<Rightarrow> teco_error + bool \<times> nat" where
  "forward_words S v wchars len gap end_of_word 0 (pos, b) = Inr (True, pos)"
| "forward_words S v wchars len gap end_of_word (Suc n) st =
     (case forward_word S v wchars len gap end_of_word (\<not> end_of_word) st of
        Inl e \<Rightarrow> Inl e
      | Inr (True, (pos, b)) \<Rightarrow> Inr (n = 0, pos)
      | Inr (False, st') \<Rightarrow> forward_words S v wchars len gap end_of_word n st')"

function backward_word :: "'v scintilla \<Rightarrow> 'v \<Rightarrow> string \<Rightarrow> nat \<Rightarrow> bool \<Rightarrow> bool \<Rightarrow> scan \<Rightarrow> teco_error + bool \<times> scan" where
  "backward_word S v wchars gap end_of_word skip_word (pos, buffer, range_len, p) =
     (if pos = 0 then Inr (True, (pos, buffer, range_len, p))
      else if p = 0 \<and> pos \<noteq> gap then Inl G_assertion_failed
      else
        let (buffer, range_len, p) =
          (if p = 0 then (sci_range_pointer S v 0 (int pos), pos, pos) else (buffer, range_len, p)) in
        if (buffer ! (p - 1) \<notin> set wchars) = skip_word then
          (if skip_word \<noteq> end_of_word then Inr (False, (pos, buffer, range_len, p))
           else backward_word S v wchars gap end_of_word (\<not> skip_word) (pos, buffer, range_len, p))
        else backward_word S v wchars gap end_of_word skip_word (pos - 1, buffer, range_len, p - 1))"
  by pat_completeness auto
termination
  by (relation "measure (\<lambda>(S, v, wchars, gap, end_of_word, skip_word, pos, _). 2 * pos + (if skip_word = end_of_word then 1 else 0))")
    (auto split: if_splits)

declare backward_word.simps [simp del]

fun backward_words :: "'v scintilla \<Rightarrow> 'v \<Rightarrow> string \<Rightarrow> nat \<Rightarrow> bool \<Rightarrow> nat \<Rightarrow> scan \<Rightarrow> teco_error + bool \<times> nat" where
  "backward_words S v wchars gap end_of_word 0 (pos, b) = Inr (True, pos)"
| "backward_words S v wchars gap end_of_word (Suc n) st =
     (case backward_word S v wchars gap end_of_word end_of_word st of
        Inl e \<Rightarrow> Inl e
      | Inr (True, (pos, b)) \<Rightarrow> Inr (n = 0, pos)
      | Inr (False, st') \<Rightarrow> backward_words S v wchars gap end_of_word n st')"

definition teco_find_words :: "'v scintilla \<Rightarrow> 'v \<Rightarrow> nat \<Rightarrow> teco_int \<Rightarrow> bool \<Rightarrow> teco_error + bool \<times> nat" where
  "teco_find_words S v pos n end_of_word =
     (let wchars = sci_word_chars S v; gap = nat (sci_gap_position S v); len = nat (sci_length S v) in
      if n = 0 then Inr (True, pos)
      else if 0 < sint n then
        (let range_len = (if pos < gap then gap - pos else len - pos) in
         if range_len = 0 then Inr (False, pos)
         else forward_words S v wchars len gap end_of_word (nat (sint n))
           (pos, sci_range_pointer S v (int pos) (int range_len), range_len, 0))
      else
        (let range_len = (if gap < pos then pos - gap else pos) in
         if range_len = 0 then Inr (False, pos)
         else backward_words S v wchars gap end_of_word (nat (- sint n))
           (pos, sci_range_pointer S v (int (pos - range_len)) (int range_len), range_len, range_len)))"

section \<open>Words and the gap\<close>

text \<open>What the text functions of Scintilla promise of a document with the given text, wherever its gap is.\<close>

definition text_laws :: "'v scintilla \<Rightarrow> 'v \<Rightarrow> string \<Rightarrow> bool" where
  "text_laws S v txt \<longleftrightarrow>
     sci_length S v = int (length txt) \<and> 0 \<le> sci_gap_position S v \<and> sci_gap_position S v \<le> int (length txt) \<and>
     (\<forall>a n. a + n \<le> length txt \<longrightarrow> sci_range_pointer S v (int a) (int n) = take n (drop a txt))"

text \<open>The reference: over the text that follows, without the gap.\<close>

definition skip_word :: "string \<Rightarrow> bool \<Rightarrow> string \<Rightarrow> string" where
  "skip_word w end_of_word txt =
     dropWhile (\<lambda>c. (c \<in> set w) = end_of_word) (dropWhile (\<lambda>c. (c \<in> set w) \<noteq> end_of_word) txt)"

fun skip_words :: "string \<Rightarrow> bool \<Rightarrow> nat \<Rightarrow> string \<Rightarrow> string option" where
  "skip_words w end_of_word 0 txt = Some txt"
| "skip_words w end_of_word (Suc n) txt = (if txt = [] then None else skip_words w end_of_word n (skip_word w end_of_word txt))"

text \<open>The scan is at \<open>pos\<close>, and its range ends at the gap or at the end of the document.\<close>

fun forward_inv :: "string \<Rightarrow> nat \<Rightarrow> scan \<Rightarrow> bool" where
  "forward_inv txt gap (pos, buffer, range_len, p) \<longleftrightarrow>
     (\<exists>b. pos = b + p \<and> p \<le> range_len \<and> buffer = take range_len (drop b txt) \<and>
       (b + range_len = gap \<or> b + range_len = length txt) \<and> gap \<le> length txt)"

lemma forward_step:
  assumes "forward_inv txt gap (pos, buffer, range_len, p)" "pos < length txt" "text_laws S v txt"
  shows "\<not> (range_len \<le> p \<and> pos \<noteq> gap)"
    and "(if range_len \<le> p then (sci_range_pointer S v (int gap) (int (length txt - gap)), length txt - gap, 0) else (buffer, range_len, p)) = (b2, r2, p2) \<Longrightarrow>
      b2 ! p2 = txt ! pos \<and> forward_inv txt gap (pos, b2, r2, p2) \<and> forward_inv txt gap (Suc pos, b2, r2, Suc p2)"
proof -
  from assms(1) obtain b where b: "pos = b + p" "p \<le> range_len" "buffer = take range_len (drop b txt)"
    "b + range_len = gap \<or> b + range_len = length txt" "gap \<le> length txt" by auto
  show g: "\<not> (range_len \<le> p \<and> pos \<noteq> gap)" using b assms(2) by auto
  show "b2 ! p2 = txt ! pos \<and> forward_inv txt gap (pos, b2, r2, p2) \<and> forward_inv txt gap (Suc pos, b2, r2, Suc p2)"
    if "(if range_len \<le> p then (sci_range_pointer S v (int gap) (int (length txt - gap)), length txt - gap, 0) else (buffer, range_len, p)) = (b2, r2, p2)"
  proof (cases "range_len \<le> p")
    case True
    then have "pos = gap" using g by simp
    moreover have "sci_range_pointer S v (int gap) (int (length txt - gap)) = drop gap txt"
      using assms(3) b(5) by (simp only: text_laws_def) simp
    ultimately have "b2 = drop gap txt" "r2 = length txt - gap" "p2 = 0" using that True by simp_all
    then show ?thesis using \<open>pos = gap\<close> assms(2) by (auto intro!: exI [of _ gap])
  next
    case False
    then show ?thesis using that b assms(2) by (auto intro!: exI [of _ b])
  qed
qed

lemma forward_word_run:
  assumes L: "text_laws S v txt"
  shows "forward_inv txt gap st \<Longrightarrow> \<exists>st'. forward_word S v w (length txt) gap eow sk st = Inr (drop (fst st') txt = [], st') \<and>
    forward_inv txt gap st' \<and>
    drop (fst st') txt = (if sk = eow then dropWhile (\<lambda>c. (c \<in> set w) = eow) (drop (fst st) txt) else skip_word w eow (drop (fst st) txt))"
proof (induction "2 * (length txt - fst st) + (if sk = eow then 0 else 1)" arbitrary: st sk rule: less_induct)
  case less
  obtain pos buffer range_len p where st: "st = (pos, buffer, range_len, p)" by (cases st)
  note i = less.prems [unfolded st]
  have pos: "fst st = pos" by (simp add: st)
  show ?case
  proof (cases "length txt \<le> pos")
    case True
    then show ?thesis using i by (auto simp: st forward_word.simps [of _ _ _ _ _ _ _ pos] skip_word_def)
  next
    case False
    obtain b2 r2 p2 where n: "(if range_len \<le> p then (sci_range_pointer S v (int gap) (int (length txt - gap)), length txt - gap, 0)
        else (buffer, range_len, p)) = (b2, r2, p2)" by (metis prod_cases3)
    note f = forward_step [OF i _ L] n
    have c: "b2 ! p2 = txt ! pos" and i0: "forward_inv txt gap (pos, b2, r2, p2)" and i1: "forward_inv txt gap (Suc pos, b2, r2, Suc p2)"
      using f False by auto
    have d: "drop pos txt = txt ! pos # drop (Suc pos) txt" using False by (simp add: Cons_nth_drop_Suc)
    have e: "forward_word S v w (length txt) gap eow sk st =
       (if (txt ! pos \<notin> set w) = sk then
          (if sk = eow then Inr (False, (pos, b2, r2, p2)) else forward_word S v w (length txt) gap eow (\<not> sk) (pos, b2, r2, p2))
        else forward_word S v w (length txt) gap eow sk (Suc pos, b2, r2, Suc p2))"
      using forward_word.simps [of S v w "length txt" gap eow sk pos buffer range_len p, unfolded n] f(1) False c
      by (cases "range_len \<le> p \<and> pos \<noteq> gap") (simp_all add: st)
    show ?thesis
    proof (cases "(txt ! pos \<notin> set w) = sk")
      case True
      show ?thesis
      proof (cases "sk = eow")
        case eow: True
        show ?thesis using True eow i0 d unfolding e by (intro exI [of _ "(pos, b2, r2, p2)"]) (auto simp: st)
      next
        case eow: False
        have "2 * (length txt - fst (pos, b2, r2, p2)) + (if (\<not> sk) = eow then 0 else 1) < 2 * (length txt - fst st) + (if sk = eow then 0 else 1)"
          using eow by (simp add: st)
        from less.hyps [OF this i0, unfolded fst_conv] obtain st' where
          h: "forward_word S v w (length txt) gap eow (\<not> sk) (pos, b2, r2, p2) = Inr (drop (fst st') txt = [], st')" "forward_inv txt gap st'"
            "drop (fst st') txt = (if (\<not> sk) = eow then dropWhile (\<lambda>c. (c \<in> set w) = eow) (drop pos txt) else skip_word w eow (drop pos txt))"
          by blast
        have "skip_word w eow (drop pos txt) = dropWhile (\<lambda>c. (c \<in> set w) = eow) (drop pos txt)"
          using True eow d by (auto simp: skip_word_def)
        moreover have "forward_word S v w (length txt) gap eow sk st = forward_word S v w (length txt) gap eow (\<not> sk) (pos, b2, r2, p2)"
          unfolding e using True eow by simp
        ultimately show ?thesis using h eow by (intro exI [of _ st']) (simp add: pos)
      qed
    next
      case ch: False
      have "2 * (length txt - fst (Suc pos, b2, r2, Suc p2)) + (if sk = eow then 0 else 1) < 2 * (length txt - fst st) + (if sk = eow then 0 else (1::nat))"
        using False by (simp add: st) 
      from less.hyps [OF this i1, unfolded fst_conv] obtain st' where
        h: "forward_word S v w (length txt) gap eow sk (Suc pos, b2, r2, Suc p2) = Inr (drop (fst st') txt = [], st')" "forward_inv txt gap st'"
          "drop (fst st') txt = (if sk = eow then dropWhile (\<lambda>c. (c \<in> set w) = eow) (drop (Suc pos) txt)
             else skip_word w eow (drop (Suc pos) txt))"
        by blast
      have "dropWhile (\<lambda>c. (c \<in> set w) = eow) (drop pos txt) = dropWhile (\<lambda>c. (c \<in> set w) = eow) (drop (Suc pos) txt)" if "sk = eow"
        using ch d that by auto
      moreover have "skip_word w eow (drop pos txt) = skip_word w eow (drop (Suc pos) txt)" if "sk \<noteq> eow"
        using ch d that by (auto simp: skip_word_def)
      ultimately show ?thesis using h ch by (intro exI [of _ st']) (simp add: e pos)
    qed
  qed
qed


lemma forward_words_run:
  assumes L: "text_laws S v txt"
  shows "forward_inv txt gap st \<Longrightarrow> drop (fst st) txt \<noteq> [] \<or> n = 0 \<Longrightarrow> 
    \<exists>pos. forward_words S v w (length txt) gap eow n st = Inr (skip_words w eow n (drop (fst st) txt) \<noteq> None, pos) \<and>
      pos \<le> length txt \<and> (\<forall>r. skip_words w eow n (drop (fst st) txt) = Some r \<longrightarrow> drop pos txt = r)"
proof (induction n arbitrary: st)
  case 0
  obtain pos buffer range_len p where "st = (pos, buffer, range_len, p)" by (cases st)
  then show ?case using 0 by auto
next
  case (Suc n)
  have nf: "((\<not> eow) = eow) = False" by simp
  obtain st' where h: "forward_word S v w (length txt) gap eow (\<not> eow) st = Inr (drop (fst st') txt = [], st')"
    "forward_inv txt gap st'" "drop (fst st') txt = skip_word w eow (drop (fst st) txt)"
    using forward_word_run [OF L Suc.prems(1), of w eow "\<not> eow", unfolded nf if_False] by blast
  obtain pos buffer range_len p where st': "st' = (pos, buffer, range_len, p)" by (cases st')
  have l: "pos \<le> length txt" using h(2) by (auto simp: st')
  show ?case
  proof (cases "drop (fst st') txt = []")
    case True
    then have "forward_words S v w (length txt) gap eow (Suc n) st = Inr (n = 0, pos)" using h(1) by (simp add: st')
    moreover have "skip_words w eow n [] = (if n = 0 then Some [] else None)" by (cases n) simp_all
    ultimately show ?thesis using True Suc.prems h(3) l by (auto simp: st')
  next
    case False
    then have "forward_words S v w (length txt) gap eow (Suc n) st = forward_words S v w (length txt) gap eow n st'" using h(1) by simp
    then show ?thesis using Suc.IH [OF h(2)] False Suc.prems(2) h(3) by simp
  qed
qed


text \<open>Backwards, the text before the position counts, reversed.\<close>

fun backward_inv :: "string \<Rightarrow> nat \<Rightarrow> scan \<Rightarrow> bool" where
  "backward_inv txt gap (pos, buffer, range_len, p) \<longleftrightarrow>
     (\<exists>b. pos = b + p \<and> p \<le> range_len \<and> buffer = take range_len (drop b txt) \<and> b + range_len \<le> length txt \<and> (b = 0 \<or> b = gap))"

lemma backward_step:
  assumes "backward_inv txt gap (pos, buffer, range_len, p)" "0 < pos" "text_laws S v txt"
  shows "\<not> (p = 0 \<and> pos \<noteq> gap)"
    and "(if p = 0 then (sci_range_pointer S v 0 (int pos), pos, pos) else (buffer, range_len, p)) = (b2, r2, p2) \<Longrightarrow>
      b2 ! (p2 - 1) = txt ! (pos - 1) \<and> backward_inv txt gap (pos, b2, r2, p2) \<and> backward_inv txt gap (pos - 1, b2, r2, p2 - 1)"
proof -
  from assms(1) obtain b where b: "pos = b + p" "p \<le> range_len" "buffer = take range_len (drop b txt)"
    "b + range_len \<le> length txt" "b = 0 \<or> b = gap" by auto
  show g: "\<not> (p = 0 \<and> pos \<noteq> gap)" using b assms(2) by auto
  have range: "sci_range_pointer S v (int a) (int n) = take n (drop a txt)" if "a + n \<le> length txt" for a n
    using assms(3) that by (simp add: text_laws_def)
  show "b2 ! (p2 - 1) = txt ! (pos - 1) \<and> backward_inv txt gap (pos, b2, r2, p2) \<and> backward_inv txt gap (pos - 1, b2, r2, p2 - 1)"
    if "(if p = 0 then (sci_range_pointer S v 0 (int pos), pos, pos) else (buffer, range_len, p)) = (b2, r2, p2)"
  proof (cases "p = 0")
    case True
    have "sci_range_pointer S v 0 (int pos) = take pos txt" using range [of 0 pos] b True by simp
    then have "b2 = take pos txt" "r2 = pos" "p2 = pos" using that True by auto
    then show ?thesis using b True assms(2) by (auto intro!: exI [of _ 0])
  next
    case False
    then show ?thesis using that b assms(2) by (auto intro!: exI [of _ b])
  qed
qed

lemma take_back: "0 < pos \<Longrightarrow> pos \<le> length txt \<Longrightarrow> rev (take pos txt) = txt ! (pos - 1) # rev (take (pos - 1) txt)"
  using take_Suc_conv_app_nth [of "pos - 1" "txt"] by simp

lemma backward_word_run:
  assumes L: "text_laws S v txt"
  shows "backward_inv txt gap st \<Longrightarrow> \<exists>st'. backward_word S v w gap eow sk st = Inr (fst st' = 0, st') \<and>
    backward_inv txt gap st' \<and>
    rev (take (fst st') txt) = (if sk \<noteq> eow then dropWhile (\<lambda>c. (c \<in> set w) = (\<not> eow)) (rev (take (fst st) txt))
      else skip_word w (\<not> eow) (rev (take (fst st) txt)))"
proof (induction "2 * fst st + (if sk = eow then 1 else 0)" arbitrary: st sk rule: less_induct)
  case less
  obtain pos buffer range_len p where st: "st = (pos, buffer, range_len, p)" by (cases st)
  note i = less.prems [unfolded st]
  have pos: "fst st = pos" "pos \<le> length txt" using i by (auto simp: st)
  show ?case
  proof (cases "pos = 0")
    case True
    then show ?thesis using i backward_word.simps [of S v w gap eow sk pos buffer range_len p]
      by (intro exI [of _ st]) (auto simp: st skip_word_def)
  next
    case False
    obtain b2 r2 p2 where n: "(if p = 0 then (sci_range_pointer S v 0 (int pos), pos, pos) else (buffer, range_len, p)) = (b2, r2, p2)"
      by (metis prod_cases3)
    note f = backward_step [OF i _ L] n
    have c: "b2 ! (p2 - 1) = txt ! (pos - 1)" and i0: "backward_inv txt gap (pos, b2, r2, p2)" and i1: "backward_inv txt gap (pos - 1, b2, r2, p2 - 1)"
      using f False by auto
    note d = take_back [of pos "txt"]
    have e: "backward_word S v w gap eow sk st =
       (if (txt ! (pos - 1) \<notin> set w) = sk then
          (if sk \<noteq> eow then Inr (False, (pos, b2, r2, p2)) else backward_word S v w gap eow (\<not> sk) (pos, b2, r2, p2))
        else backward_word S v w gap eow sk (pos - 1, b2, r2, p2 - 1))"
      using backward_word.simps [of S v w gap eow sk pos buffer range_len p, unfolded n] f(1) False c
      by (cases "p = 0 \<and> pos \<noteq> gap") (simp_all add: st)
    show ?thesis
    proof (cases "(txt ! (pos - 1) \<notin> set w) = sk")
      case True
      show ?thesis
      proof (cases "sk = eow")
        case eow: False
        show ?thesis using True eow i0 d False pos unfolding e by (intro exI [of _ "(pos, b2, r2, p2)"]) auto
      next
        case eow: True
        have "2 * fst (pos, b2, r2, p2) + (if (\<not> sk) = eow then 1 else 0) < 2 * fst st + (if sk = eow then 1 else 0)"
          using eow by (simp add: st)
        from less.hyps [OF this i0, unfolded fst_conv] obtain st' where
          h: "backward_word S v w gap eow (\<not> sk) (pos, b2, r2, p2) = Inr (fst st' = 0, st')" "backward_inv txt gap st'"
            "rev (take (fst st') txt) = (if (\<not> sk) \<noteq> eow then dropWhile (\<lambda>c. (c \<in> set w) = (\<not> eow)) (rev (take pos txt))
              else skip_word w (\<not> eow) (rev (take pos txt)))"
          by blast
        have "skip_word w (\<not> eow) (rev (take pos txt)) = dropWhile (\<lambda>c. (c \<in> set w) = (\<not> eow)) (rev (take pos txt))"
          using True eow d False pos by (auto simp: skip_word_def)
        moreover have "backward_word S v w gap eow sk st = backward_word S v w gap eow (\<not> sk) (pos, b2, r2, p2)"
          unfolding e using True eow by simp
        ultimately show ?thesis using h eow by (intro exI [of _ st']) (simp add: pos)
      qed
    next
      case ch: False
      have "2 * fst (pos - 1, b2, r2, p2 - 1) + (if sk = eow then 1 else 0) < 2 * fst st + (if sk = eow then 1 else (0::nat))"
        using False by (simp add: st)
      from less.hyps [OF this i1, unfolded fst_conv] obtain st' where
        h: "backward_word S v w gap eow sk (pos - 1, b2, r2, p2 - 1) = Inr (fst st' = 0, st')" "backward_inv txt gap st'"
          "rev (take (fst st') txt) = (if sk \<noteq> eow then dropWhile (\<lambda>c. (c \<in> set w) = (\<not> eow)) (rev (take (pos - 1) txt))
             else skip_word w (\<not> eow) (rev (take (pos - 1) txt)))"
        by blast
      have "dropWhile (\<lambda>c. (c \<in> set w) = (\<not> eow)) (rev (take pos txt)) = dropWhile (\<lambda>c. (c \<in> set w) = (\<not> eow)) (rev (take (pos - 1) txt))" if "sk \<noteq> eow"
        using ch d that False pos by auto
      moreover have "skip_word w (\<not> eow) (rev (take pos txt)) = skip_word w (\<not> eow) (rev (take (pos - 1) txt))" if "sk = eow"
        using ch d that False pos by (auto simp: skip_word_def)
      ultimately show ?thesis using h ch by (intro exI [of _ st']) (simp add: e pos)
    qed
  qed
qed

lemma backward_words_run:
  assumes L: "text_laws S v txt"
  shows "backward_inv txt gap st \<Longrightarrow> fst st \<noteq> 0 \<or> n = 0 \<Longrightarrow>
    \<exists>pos. backward_words S v w gap eow n st = Inr (skip_words w (\<not> eow) n (rev (take (fst st) txt)) \<noteq> None, pos) \<and>
      pos \<le> length txt \<and> (\<forall>r. skip_words w (\<not> eow) n (rev (take (fst st) txt)) = Some r \<longrightarrow> rev (take pos txt) = r)"
proof (induction n arbitrary: st)
  case 0
  obtain pos buffer range_len p where "st = (pos, buffer, range_len, p)" by (cases st)
  then show ?case using 0 by auto
next
  case (Suc n)
  have nf: "(eow \<noteq> eow) = False" by simp
  obtain st' where h: "backward_word S v w gap eow eow st = Inr (fst st' = 0, st')"
    "backward_inv txt gap st'" "rev (take (fst st') txt) = skip_word w (\<not> eow) (rev (take (fst st) txt))"
    using backward_word_run [OF L Suc.prems(1), of w eow eow, unfolded nf if_False] by blast
  obtain pos buffer range_len p where st': "st' = (pos, buffer, range_len, p)" by (cases st')
  have "fst st \<le> length txt" using Suc.prems(1) by (cases st) auto
  then have l: "pos \<le> length txt" "fst st \<noteq> 0" "rev (take (fst st) txt) \<noteq> []" using h(2) Suc.prems(2) by (auto simp: st')
  show ?case
  proof (cases "pos = 0")
    case True
    then have "backward_words S v w gap eow (Suc n) st = Inr (n = 0, pos)" using h(1) by (simp add: st')
    moreover have "skip_words w (\<not> eow) n [] = (if n = 0 then Some [] else None)" by (cases n) simp_all
    ultimately show ?thesis using True l h(3) by (auto simp: st')
  next
    case False
    then have "backward_words S v w gap eow (Suc n) st = backward_words S v w gap eow n st'" using h(1) by (simp add: st')
    then show ?thesis using Suc.IH [OF h(2)] False l h(3) by (simp add: st')
  qed
qed

text \<open>Where the pointer goes by the reference.\<close>

definition words_reference :: "string \<Rightarrow> string \<Rightarrow> nat \<Rightarrow> teco_int \<Rightarrow> bool \<Rightarrow> nat option" where
  "words_reference w txt pos n end_of_word =
     (if 0 \<le> sint n
      then map_option (\<lambda>after. length txt - length after) (skip_words w end_of_word (nat (sint n)) (drop pos txt))
      else map_option length (skip_words w (\<not> end_of_word) (nat (- sint n)) (rev (take pos txt))))"

lemma find_words_run:
  assumes "text_laws S v txt" "pos \<le> length txt"
  shows "\<exists>q. teco_find_words S v pos n end_of_word = Inr (words_reference (sci_word_chars S v) txt pos n end_of_word \<noteq> None, q) \<and>
    (\<forall>r. words_reference (sci_word_chars S v) txt pos n end_of_word = Some r \<longrightarrow> q = r)"
proof -
  let ?w = "sci_word_chars S v" and ?gap = "nat (sci_gap_position S v)"
  have L: "nat (sci_length S v) = length txt" "?gap \<le> length txt" using assms(1) by (auto simp: text_laws_def)
  have range: "sci_range_pointer S v (int a) (int k) = take k (drop a txt)" if "a + k \<le> length txt" for a k
    using assms(1) that by (simp add: text_laws_def)
  consider "n = 0" | "0 < sint n" | "sint n < 0" by (metis linorder_cases signed_0 signed_word_eqI)
  then show ?thesis
  proof cases
    case 1
    then show ?thesis using assms(2) by (simp add: teco_find_words_def words_reference_def)
  next
    case 2
    define r where "r = (if pos < ?gap then ?gap - pos else length txt - pos)"
    then have r: "pos + r \<le> length txt" "pos + r = ?gap \<or> pos + r = length txt" "r = 0 \<Longrightarrow> pos = length txt"
      using assms(2) L by (auto split: if_splits)
    have i: "forward_inv txt ?gap (pos, sci_range_pointer S v (int pos) (int r), r, 0)"
      using range [OF r(1)] r L by (auto intro!: exI [of _ pos])
    have n: "n \<noteq> 0" "nat (sint n) \<noteq> 0" using 2 by auto
    show ?thesis
    proof (cases "r = 0")
      case True
      then show ?thesis using 2 n r(3) L
        by (cases "nat (sint n)") (simp_all add: teco_find_words_def words_reference_def r_def [symmetric])
    next
      case False
      then have "pos < length txt" using r by simp
      then show ?thesis using forward_words_run [OF assms(1) i, of "nat (sint n)" ?w end_of_word] 2 n False L
        by (auto simp: teco_find_words_def words_reference_def r_def [symmetric])
    qed
  next
    case 3
    define r where "r = (if ?gap < pos then pos - ?gap else pos)"
    then have r: "r \<le> pos" "pos - r = ?gap \<or> pos - r = 0" "r = 0 \<Longrightarrow> pos = 0" by (auto split: if_splits)
    have i: "backward_inv txt ?gap (pos, sci_range_pointer S v (int (pos - r)) (int r), r, r)"
      using range [of "pos - r" r] r assms(2) by (auto intro!: exI [of _ "pos - r"])
    have n: "n \<noteq> 0" "\<not> 0 < sint n" "\<not> 0 \<le> sint n" "nat (- sint n) \<noteq> 0" using 3 by auto
    show ?thesis
    proof (cases "r = 0")
      case True
      then show ?thesis using n r(3)
        by (cases "nat (- sint n)") (simp_all add: teco_find_words_def words_reference_def r_def [symmetric])
    next
      case False
      then have "pos \<noteq> 0" using r by simp
      then obtain q where q: "backward_words S v ?w ?gap end_of_word (nat (- sint n)) (pos, sci_range_pointer S v (int (pos - r)) (int r), r, r) =
          Inr (skip_words ?w (\<not> end_of_word) (nat (- sint n)) (rev (take pos txt)) \<noteq> None, q)" "q \<le> length txt"
          "\<And>rest. skip_words ?w (\<not> end_of_word) (nat (- sint n)) (rev (take pos txt)) = Some rest \<Longrightarrow> rev (take q txt) = rest"
        using backward_words_run [OF assms(1) i, of "nat (- sint n)" ?w end_of_word] by auto
      then show ?thesis using n False
        by (auto simp: teco_find_words_def words_reference_def r_def [symmetric] simp flip: q(3))
    qed
  qed
qed

lemma skip_word_length: "length (skip_word w eow xs) \<le> length xs"
  using length_dropWhile_le [of "\<lambda>c. (c \<in> set w) = eow" "dropWhile (\<lambda>c. (c \<in> set w) \<noteq> eow) xs"]
    length_dropWhile_le [of "\<lambda>c. (c \<in> set w) \<noteq> eow" "xs"]
  unfolding skip_word_def by (rule le_trans)

lemma skip_words_length: "skip_words w eow n xs = Some r \<Longrightarrow> length r \<le> length xs"
proof (induction n arbitrary: xs)
  case (Suc n)
  then show ?case using skip_word_length [of w eow "xs"] by (auto split: if_splits intro: le_trans)
qed simp

lemma words_reference_bound:
  assumes "words_reference w txt pos n eow = Some q" "pos \<le> length txt"
  shows "q \<le> length txt"
  using assms skip_words_length by (fastforce simp: words_reference_def split: if_splits)

text \<open>
  C33: Looking for words through the two parts of the gap buffer finds what a search in the plain text finds, forwards and backwards,
  for beginnings and for ends of words; wherever the gap is, the assertions hold.
\<close>

theorem find_words:
  assumes "text_laws S v txt" "pos \<le> length txt"
  shows "\<exists>q. teco_find_words S v pos n end_of_word = Inr (words_reference (sci_word_chars S v) txt pos n end_of_word \<noteq> None, q) \<and>
    (\<forall>r. words_reference (sci_word_chars S v) txt pos n end_of_word = Some r \<longrightarrow> q = r)"
  using assms by (rule find_words_run)

section \<open>A plain document\<close>

text \<open>
  An instance of the editing component for the witnesses: a text of one line in a single-byte encoding, the position in it and the history
  for undo, to which an undo action adds the text before it, if it changed it.
\<close>

type_synonym plain_view = "string \<times> int \<times> (string \<times> int) list"

definition plain_scintilla :: "plain_view scintilla" where
  "plain_scintilla = \<lparr>
     sci_length = (\<lambda>(t, p, h). int (length t)), sci_current_pos = (\<lambda>(t, p, h). max 0 (min p (int (length t)))),
     sci_anchor = (\<lambda>(t, p, h). max 0 (min p (int (length t)))),
     sci_goto_pos = (\<lambda>q (t, p, h). (t, q, h)),
     sci_goto_line = (\<lambda>l (t, p, h). (t, if l \<le> 0 then 0 else int (length t), h)),
     sci_set_sel = (\<lambda>a q (t, p, h). (t, q, h)),
     sci_line_count = (\<lambda>v. 1), sci_line_from_position = (\<lambda>v q. 0),
     sci_position_from_line = (\<lambda>(t, p, h) l. if l \<le> 0 then 0 else int (length t)),
     sci_range_pointer = (\<lambda>(t, p, h) a n. take (nat n) (drop (nat a) t)), sci_gap_position = (\<lambda>v. 0),
     sci_word_chars = (\<lambda>v. ''abcdefghijklmnopqrstuvwxyz''), sci_codepage = (\<lambda>v. 0), sci_utf32_index = (\<lambda>v. False),
     sci_line_from_index_position = (\<lambda>v q. 0), sci_index_position_from_line = (\<lambda>v l. 0),
     sci_position_relative = (\<lambda>(t, p, h) q n. if 0 \<le> q + n \<and> q + n \<le> int (length t) then q + n else 0),
     sci_count_characters = (\<lambda>v a b. b - a), sci_char_at = (\<lambda>(t, p, h) q. (t @ [CHR 0x00]) ! nat (max 0 (min q (int (length t))))),
     sci_add_text = (\<lambda>s (t, p, h). let q = nat (max 0 (min p (int (length t)))) in
       (take q t @ s @ drop q t, int (q + length s), h)),
     sci_begin_undo_action = (\<lambda>(t, p, h). (t, p, (t, max 0 (min p (int (length t)))) # h)),
     sci_end_undo_action = (\<lambda>(t, p, h). (t, p, if fst (hd h) = t then tl h else h)),
     sci_delete_range = (\<lambda>a n (t, p, h). (take (nat a) t @ drop (nat (a + n)) t, if p \<le> a then p else a, h)),
     sci_undo = (\<lambda>(t, p, h). case h of [] \<Rightarrow> (t, p, h) | (t', p') # h' \<Rightarrow> (t', p', h')),
     sci_character_set = (\<lambda>v. 0), sci_use_tabs = (\<lambda>v. True), sci_tab_width = (\<lambda>v. 8),
     sci_column = (\<lambda>v q. q), sci_set_anchor = (\<lambda>a v. v), sci_replace_sel = (\<lambda>s v. v)\<rparr>"

lemma plain_text_laws: "text_laws plain_scintilla (t, p, h) t"
  by (simp add: text_laws_def plain_scintilla_def)

text \<open>Two words forwards, to their ends, and there are no four.\<close>

theorem find_words_witness:
  "text_laws plain_scintilla (''ab (cd, ef'', 0, []) ''ab (cd, ef'' \<and>
   teco_find_words plain_scintilla (''ab (cd, ef'', 0, []) 1 2 True = Inr (True, 6) \<and>
   fst (projr (teco_find_words plain_scintilla (''ab (cd, ef'', 0, []) 1 4 True)) = False"
proof -
  let ?t = "''ab (cd, ef''" and ?v = "(''ab (cd, ef'', 0, [])"
  have L: "text_laws plain_scintilla ?v ?t" by (rule plain_text_laws)
  have w: "sci_word_chars plain_scintilla ?v = ''abcdefghijklmnopqrstuvwxyz''" by (simp add: plain_scintilla_def)
  have r2: "words_reference ''abcdefghijklmnopqrstuvwxyz'' ?t 1 2 True = Some 6" by code_simp
  have r4: "words_reference ''abcdefghijklmnopqrstuvwxyz'' ?t 1 4 True = None" by code_simp
  have p: "1 \<le> length ?t" by simp
  show ?thesis using L find_words [OF L p, of 2 True] find_words [OF L p, of 4 True] unfolding w r2 r4 by auto
qed

end
