(* ===== verification/Document_Commands.thy ===== *)
theory Document_Commands
  imports Movement
begin

text \<open>
  The commands that move in the current document, delete from it, insert numbers or query it, as programs on the
  interpreter and the editor. The interpreter's own model, which has no editor beside its state, leaves them to its parameter \<open>env_callback\<close>.
\<close>

section \<open>Results of commands\<close>

definition pop_num_calc_sign :: "('v, teco_int) em" where
  "pop_num_calc_sign =
     interp (bindM (gets (\<lambda>s. word_of_int (teco_num_sign s))) teco_expressions_pop_num_calc)"

text \<open>A colon-modified command returns a boolean, any other fails.\<close>

definition colon_result :: "teco_error \<Rightarrow> bool \<Rightarrow> ('v, unit) em" where
  "colon_result e rc =
     bindM (interp teco_machine_main_eval_colon) (\<lambda>colon.
       if 0 < colon then interp (teco_expressions_push_int (teco_bool rc))
       else if rc then ret () else throw e)"

section \<open>Movement\<close>

definition teco_state_start_jump :: "'v scintilla \<Rightarrow> ('v, unit) em" where
  "teco_state_start_jump S =
     bindM (interp (teco_expressions_pop_num_calc 0)) (\<lambda>v.
     bindM (ssm_get (\<lambda>w. teco_view_glyphs2bytes S w v)) (\<lambda>pos.
       if 0 \<le> pos then
         bindM (ssm_get (sci_current_pos S)) (\<lambda>dot.
           thenM (undo_ssm (\<lambda>d. Undo_goto_pos d dot))
          (thenM (ssm (sci_goto_pos S pos))
             (colon_result (TECO_ERROR_MOVE ''J'') True)))
       else colon_result (TECO_ERROR_MOVE ''J'') False))"

definition teco_move_chars :: "'v scintilla \<Rightarrow> teco_int \<Rightarrow> ('v, bool) em" where
  "teco_move_chars S n =
     bindM (ssm_get (sci_current_pos S)) (\<lambda>pos.
     bindM (ssm_get (\<lambda>w. teco_view_glyphs2bytes_relative S w pos n)) (\<lambda>next_pos.
       if next_pos < 0 then ret False
       else thenM (ssm (sci_goto_pos S next_pos)) (thenM (undo_ssm (\<lambda>d. Undo_goto_pos d pos)) (ret True))))"

definition teco_state_start_move :: "'v scintilla \<Rightarrow> ('v, unit) em" where
  "teco_state_start_move S =
     bindM pop_num_calc_sign (\<lambda>v. bindM (teco_move_chars S v) (colon_result (TECO_ERROR_MOVE ''C'')))"

definition teco_state_start_reverse :: "'v scintilla \<Rightarrow> ('v, unit) em" where
  "teco_state_start_reverse S =
     bindM pop_num_calc_sign (\<lambda>v. bindM (teco_move_chars S (- v)) (colon_result (TECO_ERROR_MOVE ''R'')))"

definition teco_validate_line :: "'v scintilla \<Rightarrow> 'v \<Rightarrow> teco_int \<Rightarrow> bool" where
  "teco_validate_line S w n \<longleftrightarrow> 0 \<le> sint n \<and> sint n < sci_line_count S w"

definition teco_move_lines :: "'v scintilla \<Rightarrow> teco_int \<Rightarrow> ('v, bool) em" where
  "teco_move_lines S n =
     bindM (ssm_get (sci_current_pos S)) (\<lambda>pos.
     bindM (ssm_get (\<lambda>w. word_of_int (sci_line_from_position S w pos) + n)) (\<lambda>line.
     bindM (ssm_get (\<lambda>w. teco_validate_line S w line)) (\<lambda>valid.
       if \<not> valid then ret False
       else thenM (ssm (sci_goto_line S (sint line))) (thenM (undo_ssm (\<lambda>d. Undo_goto_pos d pos)) (ret True)))))"

definition teco_state_start_line :: "'v scintilla \<Rightarrow> ('v, unit) em" where
  "teco_state_start_line S =
     bindM pop_num_calc_sign (\<lambda>v. bindM (teco_move_lines S v) (colon_result (TECO_ERROR_MOVE ''L'')))"

definition teco_state_start_back :: "'v scintilla \<Rightarrow> ('v, unit) em" where
  "teco_state_start_back S =
     bindM pop_num_calc_sign (\<lambda>v. bindM (teco_move_lines S (- v)) (colon_result (TECO_ERROR_MOVE ''B'')))"

section \<open>Words\<close>

text \<open>The at-modifier was evaluated before, also in parse-only mode.\<close>

definition from_sum :: "teco_error + 'a \<Rightarrow> ('v, 'a) em" where
  "from_sum r = (case r of Inl e \<Rightarrow> throw e | Inr x \<Rightarrow> ret x)"

definition teco_state_start_words :: "'v scintilla \<Rightarrow> string \<Rightarrow> int \<Rightarrow> bool \<Rightarrow> ('v, unit) em" where
  "teco_state_start_words S cmd factor at_mod =
     bindM pop_num_calc_sign (\<lambda>v.
     bindM (ssm_get (sci_current_pos S)) (\<lambda>pos.
     bindM (ssm_get (\<lambda>w. teco_find_words S w (nat pos) (word_of_int factor * v) at_mod)) (\<lambda>found.
     bindM (from_sum found) (\<lambda>(rc, word_pos).
       thenM
        (whenM rc (thenM (undo_ssm (\<lambda>d. Undo_goto_pos d pos)) (ssm (sci_goto_pos S (int word_pos)))))
        (colon_result (TECO_ERROR_WORDS cmd) rc)))))"

definition delete_range :: "'v scintilla \<Rightarrow> int \<Rightarrow> int \<Rightarrow> ('v, unit) em" where
  "delete_range S from len =
     thenM (ssm (sci_begin_undo_action S)) (thenM (ssm (sci_delete_range S from len)) (ssm (sci_end_undo_action S)))"

definition teco_state_start_delete_words :: "'v scintilla \<Rightarrow> string \<Rightarrow> int \<Rightarrow> bool \<Rightarrow> ('v, unit) em" where
  "teco_state_start_delete_words S cmd factor at_mod =
     bindM pop_num_calc_sign (\<lambda>n. let v = n * word_of_int factor in
     bindM (ssm_get (sci_current_pos S)) (\<lambda>pos.
     bindM (ssm_get (\<lambda>w. teco_find_words S w (nat pos) v at_mod)) (\<lambda>found.
     bindM (from_sum found) (\<lambda>(rc, word_pos).
       let (start_pos, end_pos) = (if 0 < sint v then (pos, int word_pos) else (int word_pos, pos)) in
       thenM
        (whenM (rc \<and> start_pos \<noteq> end_pos)
          (if end_pos \<le> start_pos then throw G_assertion_failed
           else
             thenM (delete_range S start_pos (end_pos - start_pos))
            (thenM (undo_ssm (\<lambda>d. Undo_goto_pos d pos))
            (thenM (undo_ssm Undo_sci_undo) teco_ring_dirtify))))
        (colon_result (TECO_ERROR_WORDS cmd) rc)))))"

section \<open>Deletion\<close>

text \<open>The range of \<open>K\<close> and \<open>D\<close> with one argument or two: whether it is valid, its beginning and its length.\<close>

definition kill_range :: "'v scintilla \<Rightarrow> bool \<Rightarrow> nat \<Rightarrow> ('v, bool \<times> int \<times> int) em" where
  "kill_range S by_lines args =
      (if args \<le> 1 then
         bindM (ssm_get (sci_current_pos S)) (\<lambda>from.
         bindM pop_num_calc_sign (\<lambda>n.
         bindM
          (if by_lines then
             bindM (ssm_get (\<lambda>w. n + word_of_int (sci_line_from_position S w from))) (\<lambda>line.
               ssm_get (\<lambda>w. (teco_validate_line S w line, sci_position_from_line S w (sint line) - from)))
           else
             bindM (ssm_get (\<lambda>w. teco_view_glyphs2bytes_relative S w from n)) (\<lambda>to. ret (0 \<le> to, to - from)))
          (\<lambda>(rc, len). ret (if len < 0 then (rc, from + len, - len) else (rc, from, len)))))
       else
         bindM (interp (teco_expressions_pop_num 0)) (\<lambda>to_glyphs.
         bindM (ssm_get (\<lambda>w. teco_view_glyphs2bytes S w to_glyphs)) (\<lambda>to.
         bindM (interp (teco_expressions_pop_num 0)) (\<lambda>from_glyphs.
         bindM (ssm_get (\<lambda>w. teco_view_glyphs2bytes S w from_glyphs)) (\<lambda>from.
           ret (0 \<le> to - from \<and> 0 \<le> from \<and> 0 \<le> to, from, to - from))))))"

definition teco_state_start_kill :: "'v scintilla \<Rightarrow> string \<Rightarrow> bool \<Rightarrow> ('v, unit) em" where
  "teco_state_start_kill S cmd by_lines =
     thenM (interp (teco_expressions_eval False))
    (bindM (interp (gets teco_expressions_args)) (\<lambda>args.
     bindM (kill_range S by_lines args) (\<lambda>(rc, from, len).
         thenM (colon_result (TECO_ERROR_RANGE cmd) rc)
          (whenM (len \<noteq> 0 \<and> rc)
            (bindM (ssm_get (sci_current_pos S)) (\<lambda>pos.
              thenM (undo_ssm (\<lambda>d. Undo_goto_pos d pos))
             (thenM (undo_ssm Undo_sci_undo)
             (thenM (delete_range S from len) teco_ring_dirtify))))))))"

definition teco_state_start_kill_lines :: "'v scintilla \<Rightarrow> ('v, unit) em" where
  "teco_state_start_kill_lines S = teco_state_start_kill S ''K'' True"

definition teco_state_start_delete_chars :: "'v scintilla \<Rightarrow> ('v, unit) em" where
  "teco_state_start_delete_chars S = teco_state_start_kill S ''D'' False"

section \<open>Queries\<close>

definition push_position :: "'v scintilla \<Rightarrow> ('v \<Rightarrow> int) \<Rightarrow> ('v, unit) em" where
  "push_position S f =
     bindM (ssm_get (\<lambda>w. teco_view_bytes2glyphs S w (f w))) (\<lambda>n. interp (teco_expressions_push_int n))"

definition teco_state_start_dot :: "'v scintilla \<Rightarrow> ('v, unit) em" where
  "teco_state_start_dot S = thenM (interp (teco_expressions_eval False)) (push_position S (sci_current_pos S))"

definition teco_state_start_zed :: "'v scintilla \<Rightarrow> ('v, unit) em" where
  "teco_state_start_zed S = thenM (interp (teco_expressions_eval False)) (push_position S (sci_length S))"

definition teco_state_start_range :: "'v scintilla \<Rightarrow> ('v, unit) em" where
  "teco_state_start_range S =
     thenM (interp (teco_expressions_eval False))
    (thenM (interp (teco_expressions_push_int 0)) (push_position S (sci_length S)))"

definition teco_state_control_lines2glyphs :: "'v scintilla \<Rightarrow> ('v, unit) em" where
  "teco_state_control_lines2glyphs S =
     bindM (interp teco_machine_main_eval_colon) (\<lambda>colon.
       if 0 < colon then
         thenM (interp (teco_expressions_eval False))
        (bindM (interp (gets teco_expressions_args)) (\<lambda>args.
         bindM (if args = 0 then ssm_get (sci_current_pos S)
                else bindM (interp (teco_expressions_pop_num 0)) (\<lambda>n. ssm_get (\<lambda>w. teco_view_glyphs2bytes S w n))) (\<lambda>pos.
           if args \<noteq> 0 \<and> pos < 0 then throw (TECO_ERROR_RANGE ''^Q'')
           else bindM (ssm_get (\<lambda>w. word_of_int (sci_line_from_position S w pos) + 1)) (\<lambda>n.
             interp (teco_expressions_push_int n)))))
       else
         bindM pop_num_calc_sign (\<lambda>v.
         bindM (ssm_get (sci_current_pos S)) (\<lambda>pos.
         bindM (ssm_get (\<lambda>w. word_of_int (sci_line_from_position S w pos) + v)) (\<lambda>line.
         bindM (ssm_get (\<lambda>w. teco_validate_line S w line)) (\<lambda>valid.
           if \<not> valid then throw (TECO_ERROR_RANGE ''^Q'')
           else
             bindM (ssm_get (\<lambda>w. teco_view_bytes2glyphs S w (sci_position_from_line S w (sint line)) -
                 teco_view_bytes2glyphs S w pos)) (\<lambda>n. interp (teco_expressions_push_int n)))))))"

definition teco_state_control_glyphs2bytes :: "'v scintilla \<Rightarrow> ('v, unit) em" where
  "teco_state_control_glyphs2bytes S =
     thenM (interp (teco_expressions_eval False))
    (bindM (interp teco_machine_main_eval_colon) (\<lambda>colon.
     bindM (interp (gets teco_expressions_args)) (\<lambda>args.
     bindM
      (if args = 0 then
         ssm_get (\<lambda>w. word_of_int (if 0 < colon then sci_length S w else sci_current_pos S w))
       else
         bindM (interp (teco_expressions_pop_num 0)) (\<lambda>pos.
           if 0 < colon then
             ssm_get (\<lambda>w. if 0 \<le> sint pos \<and> sint pos \<le> sci_length S w then teco_view_bytes2glyphs S w (sint pos) else - 1)
           else ssm_get (\<lambda>w. word_of_int (teco_view_glyphs2bytes S w pos))))
      (\<lambda>res. interp (teco_expressions_push_int res)))))"

text \<open>
  \<open>validated\<close> is \<open>g_utf8_get_char_validated\<close>, on a zero-terminated string; the buffer holds at most 4
  bytes.
\<close>

definition teco_view_get_character :: "'v scintilla \<Rightarrow> (string \<Rightarrow> int) \<Rightarrow> 'v \<Rightarrow> int \<Rightarrow> int \<Rightarrow> teco_int" where
  "teco_view_get_character S validated w pos len =
     (if sci_codepage S w \<noteq> SC_CP_UTF8 then word_of_int (of_char (sci_char_at S w pos))
      else
        let buf = takeWhile (\<lambda>c. c \<noteq> CHR 0x00) (sci_range_pointer S w pos (min len (pos + 4) - pos)) in
        if buf = [] then 0
        else let rc = validated buf in word_of_int (if rc < 0 then rc - 1 else rc))"

definition teco_state_start_get :: "'v scintilla \<Rightarrow> (string \<Rightarrow> int) \<Rightarrow> ('v, unit) em" where
  "teco_state_start_get S validated =
     bindM pop_num_calc_sign (\<lambda>v.
     bindM (ssm_get (sci_current_pos S)) (\<lambda>pos.
     bindM (ssm_get (\<lambda>w. teco_view_glyphs2bytes_relative S w pos v)) (\<lambda>get_pos.
     bindM (ssm_get (\<lambda>w. if get_pos < 0 \<or> get_pos = sci_length S w then - 1
         else teco_view_get_character S validated w get_pos (sci_length S w))) (\<lambda>n.
       interp (teco_expressions_push_int n)))))"

definition teco_state_control_last_range :: "('v, unit) em" where
  "teco_state_control_last_range =
     bindM (interp (teco_expressions_pop_num_calc 0)) (\<lambda>n.
     bindM (gets (\<lambda>(s, e). teco_ranges e)) (\<lambda>ranges.
       if sint n < 0 \<or> int (length ranges) \<le> sint n then throw (TECO_ERROR_SUBPATTERN ''^Y'')
       else
         thenM (interp (teco_expressions_push_int (fst (ranges ! nat (sint n)))))
           (interp (teco_expressions_push_int (snd (ranges ! nat (sint n)))))))"

definition teco_state_control_last_length :: "('v, unit) em" where
  "teco_state_control_last_length =
     thenM (interp (teco_expressions_eval False))
    (bindM (interp (gets teco_expressions_args)) (\<lambda>args.
     bindM (if 0 < args then interp (teco_expressions_pop_num 0) else ret 0) (\<lambda>n.
     bindM (gets (\<lambda>(s, e). teco_ranges e)) (\<lambda>ranges.
       if sint n < 0 \<or> int (length ranges) \<le> sint n then throw (TECO_ERROR_SUBPATTERN ''^S'')
       else interp (teco_expressions_push_int (fst (ranges ! nat (sint n)) - snd (ranges ! nat (sint n))))))))"

section \<open>Insertion\<close>

text \<open>The ranges of the last match or insertion, with their tokens; and text that is inserted in one action.\<close>

definition set_ranges :: "((teco_int \<times> teco_int) list \<Rightarrow> (teco_int \<times> teco_int) list) \<Rightarrow> ('v, unit) em" where
  "set_ranges f =
     thenM (editor_push (\<lambda>e. Undo_ranges (teco_ranges e))) (modify (\<lambda>(s, e). (s, e\<lparr>teco_ranges := f (teco_ranges e)\<rparr>)))"

definition insert_action :: "'v scintilla \<Rightarrow> string list \<Rightarrow> ('v, unit) em" where
  "insert_action S strs =
     thenM (ssm (sci_begin_undo_action S))
    (thenM (mapM (\<lambda>str. ssm (sci_add_text S str)) strs)
    (thenM (ssm (sci_end_undo_action S))
    (thenM teco_ring_dirtify (undo_ssm Undo_sci_undo))))"

section \<open>Numbers in the document\<close>

text \<open>
  The backslash. Reading sees zero bytes after the end of the document, which end the number. A radix with which the
  number cannot be formatted ends the program.
\<close>

definition teco_state_start_backslash :: "'v scintilla \<Rightarrow> ('v, unit) em" where
  "teco_state_start_backslash S =
     thenM (interp (teco_expressions_eval False))
    (bindM (interp (gets teco_expressions_args)) (\<lambda>args.
       if 0 < args then
         bindM (interp (teco_expressions_pop_num 0)) (\<lambda>n.
         bindM (interp get_radix) (\<lambda>radix.
           case teco_expressions_format n radix of
             None \<Rightarrow> throw Arithmetic_trap
           | Some str \<Rightarrow>
               if str = [] then throw G_assertion_failed
               else
                 bindM (ssm_get (\<lambda>w. teco_view_bytes2glyphs S w (sci_current_pos S w))) (\<lambda>from.
                   thenM (set_ranges (\<lambda>_. [(from, from + of_nat (length str))])) (insert_action S [str]))))
       else
         bindM (interp get_radix) (\<lambda>radix.
         bindM (ssm_get (\<lambda>w. map (\<lambda>i. sci_char_at S w (int i)) [nat (sci_current_pos S w) ..< nat (sci_length S w)])) (\<lambda>str.
           interp (teco_expressions_push_int (backslash_read radix str))))))"

text \<open>Which of the callbacks that the interpreter's model leaves open are modelled here, and by which program.\<close>

definition document_callback :: "'v scintilla \<Rightarrow> (string \<Rightarrow> int) \<Rightarrow> callback \<Rightarrow> ('v, unit) em option" where
  "document_callback S validated cb =
     (case cb of
        CB_dot \<Rightarrow> Some (teco_state_start_dot S)
      | CB_zed \<Rightarrow> Some (teco_state_start_zed S)
      | CB_range \<Rightarrow> Some (teco_state_start_range S)
      | CB_backslash \<Rightarrow> Some (teco_state_start_backslash S)
      | CB_jump \<Rightarrow> Some (teco_state_start_jump S)
      | CB_move \<Rightarrow> Some (teco_state_start_move S)
      | CB_reverse \<Rightarrow> Some (teco_state_start_reverse S)
      | CB_line \<Rightarrow> Some (teco_state_start_line S)
      | CB_back \<Rightarrow> Some (teco_state_start_back S)
      | CB_kill_lines \<Rightarrow> Some (teco_state_start_kill_lines S)
      | CB_delete_chars \<Rightarrow> Some (teco_state_start_delete_chars S)
      | CB_get \<Rightarrow> Some (teco_state_start_get S validated)
      | CB_words cmd factor at \<Rightarrow> Some (teco_state_start_words S cmd factor at)
      | CB_delete_words cmd factor at \<Rightarrow> Some (teco_state_start_delete_words S cmd factor at)
      | CB_lines2glyphs \<Rightarrow> Some (teco_state_control_lines2glyphs S)
      | CB_glyphs2bytes \<Rightarrow> Some (teco_state_control_glyphs2bytes S)
      | CB_last_range \<Rightarrow> Some teco_state_control_last_range
      | CB_last_length \<Rightarrow> Some teco_state_control_last_length
      | _ \<Rightarrow> None)"

end
