(* ===== verification/Document_Laws.thy ===== *)
theory Document_Laws
  imports Document_Commands
begin

text \<open>
  What the commands on documents guarantee if Scintilla behaves as documented: glyph indices and byte positions are converted
  into each other, whichever way is taken; and the tokens of every command undo it.
\<close>

section \<open>Glyphs\<close>

text \<open>
  The documented behaviour of Scintilla's functions on character positions, for a document whose characters
  begin at the positions \<open>offs\<close>, the last of which is its end. A relative position out of the document is 0. Without the index
  of characters characters are bytes.
\<close>

definition glyph_laws :: "'v scintilla \<Rightarrow> 'v \<Rightarrow> (nat \<Rightarrow> int) \<Rightarrow> nat \<Rightarrow> bool" where
  "glyph_laws S v offs n \<longleftrightarrow>
     n < 2 ^ 63 \<and> offs 0 = 0 \<and> (\<forall>i < n. offs i < offs (Suc i)) \<and> sci_length S v = offs n \<and>
     (\<forall>i \<le> n. \<forall>k. sci_position_relative S v (offs i) k = (if 0 \<le> int i + k \<and> int i + k \<le> int n then offs (nat (int i + k)) else 0)) \<and>
     (\<not> sci_utf32_index S v \<longrightarrow> (\<forall>i \<le> n. offs i = int i)) \<and>
     (sci_utf32_index S v \<longrightarrow>
       (\<forall>i \<le> n. \<forall>j \<le> n. i \<le> j \<longrightarrow> sci_count_characters S v (offs i) (offs j) = int (j - i)) \<and>
       (\<forall>i \<le> n. \<exists>k \<le> i. sci_position_from_line S v (sci_line_from_position S v (offs i)) = offs k \<and>
          sci_index_position_from_line S v (sci_line_from_position S v (offs i)) = int k) \<and>
       (\<forall>g > 0. \<exists>k \<le> n. int k \<le> g \<and> sci_position_from_line S v (sci_line_from_index_position S v g) = offs k \<and>
          sci_index_position_from_line S v (sci_line_from_index_position S v g) = int k))"

lemma offs_mono:
  assumes "\<forall>i < n. offs i < offs (Suc i)" "i < j" "j \<le> n"
  shows "(offs i :: int) < offs j"
  using assms(2,3)
proof (induction j)
  case (Suc j)
  then show ?case using assms(1) [rule_format, of j] by (cases "i = j") auto
qed simp

lemma offs_pos: "glyph_laws S v offs n \<Longrightarrow> 0 < i \<Longrightarrow> i \<le> n \<Longrightarrow> 0 < offs i"
  using offs_mono [of n offs 0 i] by (simp add: glyph_laws_def)

lemma glyphs2bytes:
  assumes L: "glyph_laws S v offs n"
  shows "teco_view_glyphs2bytes S v g = (if 0 \<le> sint g \<and> sint g \<le> int n then offs (nat (sint g)) else - 1)"
proof -
  consider "sint g < 0" | "g = 0" | "0 < sint g" by (metis linorder_cases signed_0 signed_word_eqI)
  then show ?thesis
  proof cases
    case 2
    then show ?thesis using L by (simp add: teco_view_glyphs2bytes_def glyph_laws_def)
  next
    case 3
    then have g: "g \<noteq> 0" "\<not> sint g < 0" by auto
    show ?thesis
    proof (cases "sci_utf32_index S v")
      case False
      then have "\<forall>i \<le> n. offs i = int i" "sci_length S v = int n" using L by (auto simp: glyph_laws_def)
      then show ?thesis using 3 g False by (simp add: teco_view_glyphs2bytes_def)
    next
      case True
      let ?l = "sci_line_from_index_position S v (sint g)"
      obtain k where k: "k \<le> n" "int k \<le> sint g" "sci_position_from_line S v ?l = offs k" "sci_index_position_from_line S v ?l = int k"
        using L True 3 unfolding glyph_laws_def by blast
      have "sci_position_relative S v (offs k) (sint g - int k) = (if sint g \<le> int n then offs (nat (sint g)) else 0)"
        using L k(1) 3 by (simp add: glyph_laws_def)
      moreover have "0 < offs (nat (sint g))" if "sint g \<le> int n" using offs_pos [OF L, of "nat (sint g)"] 3 that by simp
      ultimately show ?thesis using 3 g True k(3,4) by (auto simp: teco_view_glyphs2bytes_def Let_def)
    qed
  qed (simp add: teco_view_glyphs2bytes_def)
qed

lemma bytes2glyphs:
  assumes L: "glyph_laws S v offs n" and i: "i \<le> n"
  shows "teco_view_bytes2glyphs S v (offs i) = of_nat i"
proof (cases "i = 0")
  case True
  then show ?thesis using L by (simp add: teco_view_bytes2glyphs_def glyph_laws_def)
next
  case False
  then have p: "0 < offs i" using offs_pos [OF L] i by simp
  show ?thesis
  proof (cases "sci_utf32_index S v")
    case u: False
    then have "offs i = int i" using L i by (simp add: glyph_laws_def)
    then show ?thesis using p u by (simp add: teco_view_bytes2glyphs_def)
  next
    case True
    let ?l = "sci_line_from_position S v (offs i)"
    obtain k where k: "k \<le> i" "sci_position_from_line S v ?l = offs k" "sci_index_position_from_line S v ?l = int k"
      using L True i unfolding glyph_laws_def by blast
    have "sci_count_characters S v (offs k) (offs i) = int (i - k)" using L True i k(1) unfolding glyph_laws_def by simp
    then show ?thesis using p True k by (simp add: teco_view_bytes2glyphs_def Let_def)
  qed
qed

lemma sint_plus_of_nat:
  fixes g :: teco_int
  assumes "int i < 2 ^ 63"
  shows "sint (of_nat i + g) = (if int i + sint g < 2 ^ 63 then int i + sint g else int i + sint g - 2 ^ 64)"
proof -
  have r: "- (2 ^ 63) \<le> sint g" "sint g < 2 ^ 63" using sint_range_size [of g] by (simp_all add: word_size)
  have "sint (of_nat i :: teco_int) = int i" using assms by (simp add: signed_of_nat signed_take_bit_int_eq_self)
  then have "sint (of_nat i + g) = signed_take_bit 63 (int i + sint g)"
    by (simp add: sint_word_ariths)
  also have "\<dots> = (int i + sint g + 2 ^ 63) mod 2 ^ 64 - 2 ^ 63"
    by (simp add: signed_take_bit_eq_take_bit_shift take_bit_eq_mod)
  also have "\<dots> = (if int i + sint g < 2 ^ 63 then int i + sint g else int i + sint g - 2 ^ 64)"
  proof (cases "int i + sint g < 2 ^ 63")
    case True
    then have "(int i + sint g + 2 ^ 63) mod 2 ^ 64 = int i + sint g + 2 ^ 63"
      using r by (intro mod_pos_pos_trivial) simp_all
    then show ?thesis using True by simp
  next
    case False
    then have "(int i + sint g + 2 ^ 63 - 2 ^ 64) mod 2 ^ 64 = int i + sint g + 2 ^ 63 - 2 ^ 64"
      using r assms by (intro mod_pos_pos_trivial) simp_all
    moreover have "(int i + sint g + 2 ^ 63 - 2 ^ 64) mod 2 ^ 64 = (int i + sint g + 2 ^ 63) mod 2 ^ 64"
      by (simp only: minus_mod_self2)
    ultimately show ?thesis using False by simp
  qed
  finally show ?thesis .
qed

lemma glyphs2bytes_relative:
  assumes L: "glyph_laws S v offs n" and i: "i \<le> n"
  shows "teco_view_glyphs2bytes_relative S v (offs i) g =
      (if 0 \<le> int i + sint g \<and> int i + sint g \<le> int n then offs (nat (int i + sint g)) else - 1)"
proof (cases "g = 0")
  case True
  then show ?thesis using i by (simp add: teco_view_glyphs2bytes_relative_def)
next
  case False
  let ?t = "int i + sint g"
  have n: "int n < 2 ^ 63" "int i < 2 ^ 63" using L i by (simp_all add: glyph_laws_def)
  have r: "- (2 ^ 63) \<le> sint g" "sint g < 2 ^ 63" using sint_range_size [of g] by (simp_all add: word_size)
  note b = bytes2glyphs [OF L i] and sum = sint_plus_of_nat [OF n(2), of g]
  have far: "teco_view_glyphs2bytes S v (of_nat i + g) = (if 0 \<le> ?t \<and> ?t \<le> int n then offs (nat ?t) else - 1)"
    using n r i by (auto simp: glyphs2bytes [OF L] sum)
  have near: "sci_position_relative S v (offs i) (sint g) = (if 0 \<le> ?t \<and> ?t \<le> int n then offs (nat ?t) else 0)"
    and zero: "offs 0 = 0" using L i by (simp_all add: glyph_laws_def)
  have pos: "0 < offs (nat ?t)" if "0 < ?t" "?t \<le> int n" using offs_pos [OF L, of "nat ?t"] that by simp
  have g: "sint g \<noteq> 0" using False by (metis signed_0 signed_word_eqI)
  show ?thesis
  proof (cases "TECO_RELATIVE_LIMIT < sint (if sint g < 0 then - g else g)")
    case True
    then show ?thesis using False far by (simp add: teco_view_glyphs2bytes_relative_def b)
  next
    case limit: False
    consider "0 < ?t" "?t \<le> int n" | "?t = 0" "sint g < 0" | "?t < 0" | "int n < ?t" "0 < sint g" using g i by linarith
    then show ?thesis
      using False limit near pos zero sum by cases (simp_all add: teco_view_glyphs2bytes_relative_def Let_def b)
  qed
qed

text \<open>
  C34: Conversion between glyphs and bytes. Absolute and relative conversions agree with the positions of
  the characters; indices outside of the document give \<open>-1\<close>; and moving relatively gives the same whether the
  characters are counted or, for distances beyond \<open>TECO_RELATIVE_LIMIT\<close>, the index of lines is used. The least integer and distances
  whose sum with the index overflows are excluded: the source says that it does not work for the former, and signed overflow is undefined in C.
\<close>

theorem glyph_conversions:
  assumes L: "glyph_laws S v offs n" and i: "i \<le> n"
    and "- (2 ^ 63) < sint g" "int i + sint g < 2 ^ 63"
  shows "teco_view_glyphs2bytes S v g = (if 0 \<le> sint g \<and> sint g \<le> int n then offs (nat (sint g)) else - 1) \<and>
    teco_view_glyphs2bytes S v (teco_view_bytes2glyphs S v (offs i)) = offs i \<and>
    teco_view_glyphs2bytes_relative S v (offs i) g =
      (if 0 \<le> int i + sint g \<and> int i + sint g \<le> int n then offs (nat (int i + sint g)) else - 1)"
proof -
  have "int i < 2 ^ 63" using L i by (simp add: glyph_laws_def)
  then have "sint (of_nat i :: teco_int) = int i" by (simp add: signed_of_nat signed_take_bit_int_eq_self)
  then have "teco_view_glyphs2bytes S v (teco_view_bytes2glyphs S v (offs i)) = offs i"
    using i by (simp add: bytes2glyphs [OF L i] glyphs2bytes [OF L])
  then show ?thesis using glyphs2bytes [OF L] glyphs2bytes_relative [OF L i] by blast
qed

theorem glyph_conversions_witness:
  "glyph_laws plain_scintilla (''abc'', 0, []) int 3 \<and> teco_view_glyphs2bytes_relative plain_scintilla (''abc'', 0, []) 1 1 = 2 \<and>
   teco_view_glyphs2bytes_relative plain_scintilla (''abc'', 0, []) 1 (- 2) = - 1"
proof -
  have L: "glyph_laws plain_scintilla (''abc'', 0, []) int 3" by (simp add: glyph_laws_def plain_scintilla_def)
  have one: "1 \<le> (3 :: nat)" by simp
  have "teco_view_glyphs2bytes_relative plain_scintilla (''abc'', 0, []) (int 1) 1 = 2"
    using glyph_conversions [OF L one, of 1] by simp
  moreover have "teco_view_glyphs2bytes_relative plain_scintilla (''abc'', 0, []) (int 1) (- 2) = - 1"
    using glyph_conversions [OF L one, of "- 2"] by simp
  ultimately show ?thesis using L by simp
qed

section \<open>Undoing commands on documents\<close>

text \<open>
  What undoing relies on. \<open>doc\<close> is what Scintilla's undo history and the text make up, \<open>txt\<close> the text. Commands go to
  positions in the document only; the position depends on the document and the argument, and going to where the pointer is
  does not move it. \<open>SCI_UNDO\<close> takes back the one action that was recorded last; after an insertion the position is where it began.
\<close>

definition document_laws :: "'v scintilla \<Rightarrow> ('v \<Rightarrow> 'd) \<Rightarrow> ('v \<Rightarrow> string) \<Rightarrow> bool" where
  "document_laws S doc txt \<longleftrightarrow>
     (\<forall>v. text_laws S v (txt v) \<and> 0 \<le> sci_current_pos S v \<and> sci_current_pos S v \<le> sci_length S v \<and>
        (\<forall>p n. 0 \<le> sci_position_relative S v p n \<and> sci_position_relative S v p n \<le> sci_length S v) \<and>
        (\<forall>l. 0 \<le> l \<and> l < sci_line_count S v \<longrightarrow> 0 \<le> sci_position_from_line S v l \<and> sci_position_from_line S v l \<le> sci_length S v)) \<and>
     (\<forall>v p. doc (sci_goto_pos S p v) = doc v) \<and> (\<forall>v l. doc (sci_goto_line S l v) = doc v) \<and>
     (\<forall>v v' p. doc v' = doc v \<longrightarrow> sci_current_pos S (sci_goto_pos S p v') = sci_current_pos S (sci_goto_pos S p v)) \<and>
     (\<forall>v. sci_current_pos S (sci_goto_pos S (sci_current_pos S v) v) = sci_current_pos S v) \<and>
     (\<forall>v v' a p. doc v' = doc v \<longrightarrow> doc (sci_set_sel S a p v') = doc v \<and>
        sci_current_pos S (sci_set_sel S a p v') = sci_current_pos S (sci_set_sel S a p v)) \<and>
     (\<forall>v v' start n. 0 \<le> start \<and> 0 < n \<and> start + n \<le> sci_length S v \<longrightarrow>
        doc v' = doc (sci_end_undo_action S (sci_delete_range S start n (sci_begin_undo_action S v))) \<longrightarrow> doc (sci_undo S v') = doc v) \<and>
     (\<forall>v v' strs. concat strs \<noteq> [] \<longrightarrow> doc v' = doc (sci_end_undo_action S (fold (sci_add_text S) strs (sci_begin_undo_action S v))) \<longrightarrow>
        doc (sci_undo S v') = doc v \<and> sci_current_pos S (sci_undo S v') = sci_current_pos S v)"

text \<open>Editor states that differ in the log and in what Scintilla does not keep in the document only, such as the selection.\<close>

definition alike :: "'v scintilla \<Rightarrow> ('v \<Rightarrow> 'd) \<Rightarrow> 'v editor \<Rightarrow> 'v editor \<Rightarrow> bool" where
  "alike S doc x e \<longleftrightarrow>
     teco_interface_current_view x = teco_interface_current_view e \<and> ring_size x = ring_size e \<and>
     teco_ring_current x = teco_ring_current e \<and> dirty x = dirty e \<and>
     teco_search_parameters x = teco_search_parameters e \<and> teco_ranges x = teco_ranges e \<and>
     (\<forall>d. doc (views x d) = doc (views e d) \<and> sci_current_pos S (views x d) = sci_current_pos S (views e d))"

definition same_editing :: "teco \<Rightarrow> teco \<Rightarrow> bool" where
  "same_editing s t \<longleftrightarrow> teco_undo_enabled t = teco_undo_enabled s \<and> teco_qreg_current t = teco_qreg_current s"

definition undone :: "'v scintilla \<Rightarrow> ('v \<Rightarrow> 'd) \<Rightarrow> 'v editor \<Rightarrow> 'v editor \<Rightarrow> bool" where
  "undone S doc e e' \<longleftrightarrow>
     (\<exists>new. editor_log e' = new @ editor_log e \<and> (\<forall>x. alike S doc x e' \<longrightarrow> alike S doc (fold (editor_undo S) new x) e))"

definition undoing :: "'v scintilla \<Rightarrow> ('v \<Rightarrow> 'd) \<Rightarrow> teco \<times> 'v editor \<Rightarrow> teco \<times> 'v editor \<Rightarrow> bool" where
  "undoing S doc p q \<longleftrightarrow> same_editing (fst p) (fst q) \<and>
     (teco_undo_enabled (fst p) \<and> teco_current_doc_must_undo (fst p) \<longrightarrow> undone S doc (snd p) (snd q))"

lemma alike_refl: "alike S doc e e"
  by (simp add: alike_def)

lemma undone_refl: "undone S doc e e"
  by (auto simp: undone_def intro: exI [of _ "[]"])

lemma undone_trans: "undone S doc e f \<Longrightarrow> undone S doc f g \<Longrightarrow> undone S doc e g"
proof -
  assume "undone S doc e f" "undone S doc f g"
  then obtain n m where "editor_log f = n @ editor_log e" "\<And>x. alike S doc x f \<Longrightarrow> alike S doc (fold (editor_undo S) n x) e"
    "editor_log g = m @ editor_log f" "\<And>x. alike S doc x g \<Longrightarrow> alike S doc (fold (editor_undo S) m x) f"
    unfolding undone_def by blast
  then show ?thesis unfolding undone_def by (intro exI [of _ "m @ n"]) simp
qed

interpretation un: step_preorder "undoing S doc" for S :: "'v scintilla" and doc :: "'v \<Rightarrow> 'd"
proof
  show "undoing S doc s s" for s by (simp add: undoing_def same_editing_def undone_refl)
  show "undoing S doc s t \<Longrightarrow> undoing S doc t u \<Longrightarrow> undoing S doc s u" for s t u
    by (auto simp: undoing_def same_editing_def teco_current_doc_must_undo_def intro: undone_trans)
qed

text \<open>Steps of the interpreter do not touch the editor.\<close>

lemma undoing_interp: "obeys same_editing m \<Longrightarrow> obeys (undoing S doc) (interp m)"
  unfolding obeys_def interp_def undoing_def by (auto simp: undone_refl split: prod.split) (metis snd_conv)

lemma same_editing_stacks: "obeys stacks_only m \<Longrightarrow> obeys same_editing m"
proof (unfold obeys_def, rule allI)
  fix s
  assume "\<forall>s. stacks_only s (snd (m s))"
  then have e: "rest_of (snd (m s)) = rest_of s" by (simp add: stacks_only_def)
  show "same_editing s (snd (m s))"
    using arg_cong [OF e, of teco_undo_enabled] arg_cong [OF e, of teco_qreg_current] by (simp add: same_editing_def rest_of_def)
qed

interpretation se: step_preorder same_editing
  by unfold_locales (simp_all add: same_editing_def)

lemma same_editing_push: "obeys same_editing (push_token t)"
  by (rule same_editing_stacks [OF so_push_token])

lemma same_editing_colon: "obeys same_editing teco_machine_main_eval_colon"
  unfolding teco_machine_main_eval_colon_def set_flags_def ctx_change_def
  by (intro se.intros same_editing_push se.modify) (simp add: same_editing_def ctx_update_def split: list.split)

lemma same_editing_radix: "obeys same_editing get_radix"
  unfolding get_radix_def qreg_get_integer_def deref_def
  by (intro se.intros) (simp split: option.split add: se.ret se.throw)

lemmas undoing_stacks = undoing_interp [OF same_editing_stacks]

lemma undoing_intros:
  "obeys (undoing S doc) (interp (teco_expressions_eval b))" "obeys (undoing S doc) (interp (teco_expressions_pop_num_calc n))"
  "obeys (undoing S doc) (interp (teco_expressions_push_int n))" "obeys (undoing S doc) (interp (teco_expressions_pop_num 0))"
  "obeys (undoing S doc) (interp teco_machine_main_eval_colon)" "obeys (undoing S doc) (interp get_radix)"
  "obeys (undoing S doc) (interp (gets f))" "obeys (undoing S doc) pop_num_calc_sign" "obeys (undoing S doc) (ssm_get g)"
  "obeys (undoing S doc) (from_sum r)"
  by (intro undoing_stacks so.eval so.pop_num_calc so.push_int so.pop_num_0 undoing_interp same_editing_colon same_editing_radix se.gets
      | (unfold pop_num_calc_sign_def, intro undoing_stacks so_intros so.pop_num_calc)
      | (unfold ssm_get_def, rule un.gets)
      | (simp add: from_sum_def un.ret un.throw split: sum.split))+

lemma undoing_colon: "obeys (undoing S doc) (colon_result err rc)"
  unfolding colon_result_def by (intro un.intros undoing_intros)

text \<open>The steps on the editor.\<close>

lemma ssm_run: "ssm f (s, e) = (Inr (), (s, update_view (teco_interface_current_view e) f e))"
  by (simp add: ssm_def modify_run)

lemma undo_ssm_run: "undo_ssm t (s, e) =
    (Inr (), (s, if teco_undo_enabled s \<and> teco_current_doc_must_undo s
       then e\<lparr>editor_log := t (teco_interface_current_view e) # editor_log e\<rparr> else e))"
  by (simp add: undo_ssm_def editor_push_def run_simps)

lemma ssm_get_run: "ssm_get f (s, e) = (Inr (f (current_view e)), (s, e))"
  by (simp add: ssm_get_def run_simps)

lemmas editor_run = run_simps ssm_run undo_ssm_run ssm_get_run

lemma update_view_twice: "update_view d g (update_view d f e) = update_view d (\<lambda>v. g (f v)) e"
  by (simp add: update_view_def)

lemma update_view_fields [simp]:
  "teco_interface_current_view (update_view d f e) = teco_interface_current_view e" "editor_log (update_view d f e) = editor_log e"
  "update_view d f (e\<lparr>editor_log := l\<rparr>) = (update_view d f e)\<lparr>editor_log := l\<rparr>"
  by (simp_all add: update_view_def)

lemma undone_view:
  assumes "\<And>v. doc v = doc (f (current_view e)) \<Longrightarrow> sci_current_pos S v = sci_current_pos S (f (current_view e)) \<Longrightarrow>
      doc (g v) = doc (current_view e) \<and> sci_current_pos S (g v) = sci_current_pos S (current_view e)"
    and "\<And>x. fold (editor_undo S) new x = update_view (teco_interface_current_view e) g x"
  shows "undone S doc e ((update_view (teco_interface_current_view e) f e)\<lparr>editor_log := new @ editor_log e\<rparr>)"
  unfolding undone_def
proof (intro exI [of _ new] conjI allI impI)
  fix x assume x: "alike S doc x ((update_view (teco_interface_current_view e) f e)\<lparr>editor_log := new @ editor_log e\<rparr>)"
  let ?c = "teco_interface_current_view e"
  have v: "doc (views x d) = doc (if d = ?c then f (current_view e) else views e d)"
    "sci_current_pos S (views x d) = sci_current_pos S (if d = ?c then f (current_view e) else views e d)" for d
    using x by (simp_all add: alike_def update_view_def current_view_def split: if_splits)
  have "doc (g (views x ?c)) = doc (current_view e) \<and> sci_current_pos S (g (views x ?c)) = sci_current_pos S (current_view e)"
    using v [of ?c] by (intro assms(1)) simp_all
  moreover have "teco_interface_current_view x = ?c" "ring_size x = ring_size e" "teco_ring_current x = teco_ring_current e"
    "dirty x = dirty e" "teco_search_parameters x = teco_search_parameters e" "teco_ranges x = teco_ranges e"
    using x by (simp_all add: alike_def update_view_def)
  ultimately show "alike S doc (fold (editor_undo S) new x) e"
    unfolding assms(2) alike_def using v by (simp add: update_view_def current_view_def)
qed simp

lemma document_lawsD:
  assumes "document_laws S doc txt"
  shows "doc (sci_goto_pos S p v) = doc v" "doc (sci_goto_line S l v) = doc v" "text_laws S v (txt v)"
    "0 \<le> sci_current_pos S v" "sci_current_pos S v \<le> sci_length S v"
    "0 \<le> sci_position_relative S v p n" "sci_position_relative S v p n \<le> sci_length S v"
    "0 \<le> l \<Longrightarrow> l < sci_line_count S v \<Longrightarrow> 0 \<le> sci_position_from_line S v l \<and> sci_position_from_line S v l \<le> sci_length S v"
    "doc v' = doc v \<Longrightarrow> sci_current_pos S (sci_goto_pos S p v') = sci_current_pos S (sci_goto_pos S p v)"
    "sci_current_pos S (sci_goto_pos S (sci_current_pos S v) v) = sci_current_pos S v"
    "0 \<le> start \<Longrightarrow> 0 < n \<Longrightarrow> start + n \<le> sci_length S v \<Longrightarrow>
      doc v' = doc (sci_end_undo_action S (sci_delete_range S start n (sci_begin_undo_action S v))) \<Longrightarrow> doc (sci_undo S v') = doc v"
    "concat strs \<noteq> [] \<Longrightarrow> doc v' = doc (sci_end_undo_action S (fold (sci_add_text S) strs (sci_begin_undo_action S v))) \<Longrightarrow>
      doc (sci_undo S v') = doc v \<and> sci_current_pos S (sci_undo S v') = sci_current_pos S v"
proof -
  note L = assms [unfolded document_laws_def]
  note c1 = L [THEN conjunct1] and c2 = L [THEN conjunct2, THEN conjunct1] and c3 = L [THEN conjunct2, THEN conjunct2, THEN conjunct1]
  note M = L [THEN conjunct2, THEN conjunct2, THEN conjunct2]
  note c4 = M [THEN conjunct1] and c5 = M [THEN conjunct2, THEN conjunct1]
  note N = M [THEN conjunct2, THEN conjunct2, THEN conjunct2]
  note c7 = N [THEN conjunct1] and c8 = N [THEN conjunct2]
  show "doc (sci_goto_pos S p v) = doc v" "doc (sci_goto_line S l v) = doc v" using c2 c3 by blast+
  show "text_laws S v (txt v)" "0 \<le> sci_current_pos S v" "sci_current_pos S v \<le> sci_length S v"
    "0 \<le> sci_position_relative S v p n" "sci_position_relative S v p n \<le> sci_length S v" using c1 by blast+
  show "0 \<le> sci_position_from_line S v l \<and> sci_position_from_line S v l \<le> sci_length S v"
    if "0 \<le> l" "l < sci_line_count S v" using c1 that by blast
  show "sci_current_pos S (sci_goto_pos S p v') = sci_current_pos S (sci_goto_pos S p v)" if "doc v' = doc v" using c4 that by metis
  show "sci_current_pos S (sci_goto_pos S (sci_current_pos S v) v) = sci_current_pos S v" using c5 by blast
  show "doc (sci_undo S v') = doc v" if "0 \<le> start" "0 < n" "start + n \<le> sci_length S v"
    "doc v' = doc (sci_end_undo_action S (sci_delete_range S start n (sci_begin_undo_action S v)))" using c7 that by blast
  show "doc (sci_undo S v') = doc v \<and> sci_current_pos S (sci_undo S v') = sci_current_pos S v"
    if "concat strs \<noteq> []" "doc v' = doc (sci_end_undo_action S (fold (sci_add_text S) strs (sci_begin_undo_action S v)))" using c8 that by blast
qed

lemma goto_back:
  assumes "document_laws S doc txt" "doc v' = doc v" "p = sci_current_pos S v"
  shows "doc (sci_goto_pos S p v') = doc v" "sci_current_pos S (sci_goto_pos S p v') = sci_current_pos S v"
  using document_lawsD(1) [OF assms(1), of p v'] document_lawsD(10) [OF assms(1), of v]
    document_lawsD(9) [OF assms(1,2), of p] assms(2,3) by simp_all

text \<open>The state after a movement, with its token.\<close>

definition moved :: "'v scintilla \<Rightarrow> ('v \<Rightarrow> 'v) \<Rightarrow> teco \<Rightarrow> 'v editor \<Rightarrow> 'v editor" where
  "moved S f s e = (if teco_undo_enabled s \<and> teco_current_doc_must_undo s
    then (update_view (teco_interface_current_view e) f e)
      \<lparr>editor_log := [Undo_goto_pos (teco_interface_current_view e) (sci_current_pos S (current_view e))] @ editor_log e\<rparr>
    else update_view (teco_interface_current_view e) f e)"

lemma undoing_changed:
  assumes "teco_undo_enabled s \<Longrightarrow> teco_current_doc_must_undo s \<Longrightarrow> undone S doc e e'"
  shows "undoing S doc (s, e) (s, e')"
  using assms by (simp add: undoing_def same_editing_def)

lemma undone_moved:
  assumes L: "document_laws S doc txt" and f: "\<And>v. doc (f v) = doc v" and u: "teco_undo_enabled s" "teco_current_doc_must_undo s"
  shows "undone S doc e (moved S f s e)"
  unfolding moved_def if_P [OF conjI [OF u]]
proof (rule undone_view [where g = "sci_goto_pos S (sci_current_pos S (current_view e))"])
  fix v assume "doc v = doc (f (current_view e))"
  then have "doc v = doc (current_view e)" by (simp add: f)
  then show "doc (sci_goto_pos S (sci_current_pos S (current_view e)) v) = doc (current_view e) \<and>
      sci_current_pos S (sci_goto_pos S (sci_current_pos S (current_view e)) v) = sci_current_pos S (current_view e)"
    using goto_back [OF L _ refl] by blast
qed simp

lemma undoing_goto_pos: "document_laws S doc txt \<Longrightarrow> undoing S doc (s, e) (s, moved S (sci_goto_pos S q) s e)"
  by (rule undoing_changed, rule undone_moved [where f = "sci_goto_pos S q"]) (simp_all add: document_lawsD(1))

lemma undoing_goto_line: "document_laws S doc txt \<Longrightarrow> undoing S doc (s, e) (s, moved S (sci_goto_line S q) s e)"
  by (rule undoing_changed, rule undone_moved [where f = "sci_goto_line S q"]) (simp_all add: document_lawsD(2))

lemma move_token_run:
  "thenM (ssm f) (thenM (undo_ssm (\<lambda>d. Undo_goto_pos d (sci_current_pos S (current_view e)))) m) (s, e) = m (s, moved S f s e)"
  "thenM (undo_ssm (\<lambda>d. Undo_goto_pos d (sci_current_pos S (current_view e)))) (thenM (ssm f) m) (s, e) = m (s, moved S f s e)"
  "thenM (undo_ssm (\<lambda>d. Undo_goto_pos d (sci_current_pos S (current_view e)))) (ssm f) (s, e) = (Inr (), (s, moved S f s e))"
  by (auto simp: editor_run moved_def)

lemma undoing_all: "(\<And>s e. undoing S doc (s, e) (snd (m (s, e)))) \<Longrightarrow> obeys (undoing S doc) m"
  by (simp add: obeys_def split_paired_all)

lemma undoing_move_chars: "document_laws S doc txt \<Longrightarrow> obeys (undoing S doc) (teco_move_chars S n)"
proof (rule undoing_all)
  fix s e assume L: "document_laws S doc txt"
  have r: "bindM (ssm_get g) k (s, e) = k (g (current_view e)) (s, e)" for g :: "'a \<Rightarrow> int" and k
    by (simp add: editor_run)
  show "undoing S doc (s, e) (snd (teco_move_chars S n (s, e)))"
    unfolding teco_move_chars_def r
    by (simp add: if_distribR move_token_run undoing_goto_pos [OF L] un.R_refl ret_def)
qed

lemma undoing_move_lines: "document_laws S doc txt \<Longrightarrow> obeys (undoing S doc) (teco_move_lines S n)"
proof (rule undoing_all)
  fix s e assume L: "document_laws S doc txt"
  have r: "bindM (ssm_get g) k (s, e) = k (g (current_view e)) (s, e)" for g :: "'a \<Rightarrow> 'c" and k
    by (simp add: editor_run)
  show "undoing S doc (s, e) (snd (teco_move_lines S n (s, e)))"
    unfolding teco_move_lines_def r
    by (simp add: if_distribR move_token_run undoing_goto_line [OF L] un.R_refl ret_def)
qed

lemma ssm_get_step: "bindM (ssm_get g) k (s, e) = k (g (current_view e)) (s, e)"
  by (simp add: editor_run)

lemma undoing_after: "undoing S doc (s, e) p \<Longrightarrow> obeys (undoing S doc) m \<Longrightarrow> undoing S doc (s, e) (snd (m p))"
  by (blast intro: un.R_trans obeysD)

lemma undoing_jump: "document_laws S doc txt \<Longrightarrow> obeys (undoing S doc) (teco_state_start_jump S)"
  unfolding teco_state_start_jump_def
proof (intro un.bind undoing_intros, rule undoing_all)
  fix v pos s e
  assume L: "document_laws S doc txt"
  show "undoing S doc (s, e) (snd ((if 0 \<le> pos then
         bindM (ssm_get (sci_current_pos S)) (\<lambda>dot.
           thenM (undo_ssm (\<lambda>d. Undo_goto_pos d dot))
          (thenM (ssm (sci_goto_pos S pos)) (colon_result (TECO_ERROR_MOVE ''J'') True)))
       else colon_result (TECO_ERROR_MOVE ''J'') False) (s, e)))"
    by (simp add: if_distribR ssm_get_step move_token_run undoing_after [OF undoing_goto_pos [OF L] undoing_colon]
        undoing_after [OF un.R_refl undoing_colon])
qed

lemma undoing_moves:
  assumes "document_laws S doc txt"
  shows "obeys (undoing S doc) (teco_state_start_move S)" "obeys (undoing S doc) (teco_state_start_reverse S)"
    "obeys (undoing S doc) (teco_state_start_line S)" "obeys (undoing S doc) (teco_state_start_back S)"
  unfolding teco_state_start_move_def teco_state_start_reverse_def teco_state_start_line_def teco_state_start_back_def
  by (intro un.bind undoing_intros undoing_colon undoing_move_chars [OF assms] undoing_move_lines [OF assms])+

lemma undoing_words: "document_laws S doc txt \<Longrightarrow> obeys (undoing S doc) (teco_state_start_words S cmd factor at_mod)"
  unfolding teco_state_start_words_def
proof (intro un.bind [OF undoing_intros(8)], rule undoing_all, unfold ssm_get_step)
  fix v s e
  assume L: "document_laws S doc txt"
  let ?pos = "sci_current_pos S (current_view e)"
  show "undoing S doc (s, e) (snd (bindM (from_sum (teco_find_words S (current_view e) (nat ?pos) (word_of_int factor * v) at_mod))
     (\<lambda>(rc, word_pos). thenM
        (whenM rc (thenM (undo_ssm (\<lambda>d. Undo_goto_pos d ?pos)) (ssm (sci_goto_pos S (int word_pos)))))
        (colon_result (TECO_ERROR_WORDS cmd) rc)) (s, e)))"
  proof (rule un.bind_at [OF obeysD [OF undoing_intros(10)]])
    fix x p
    assume "from_sum (teco_find_words S (current_view e) (nat ?pos) (word_of_int factor * v) at_mod) (s, e) = (Inr x, p)"
    then have p: "p = (s, e)" by (simp add: from_sum_def run_simps split: sum.splits)
    show "undoing S doc p (snd ((case x of (rc, word_pos) \<Rightarrow> thenM
        (whenM rc (thenM (undo_ssm (\<lambda>d. Undo_goto_pos d ?pos)) (ssm (sci_goto_pos S (int word_pos)))))
        (colon_result (TECO_ERROR_WORDS cmd) rc)) p))"
      unfolding p
      unfolding split_beta
    proof (rule un.then_at)
      show "undoing S doc (s, e) (snd (whenM (fst x) (thenM (undo_ssm (\<lambda>d. Undo_goto_pos d ?pos)) (ssm (sci_goto_pos S (int (snd x))))) (s, e)))"
        by (simp add: whenM_def if_distribR move_token_run undoing_goto_pos [OF L] un.R_refl ret_def)
    qed (rule obeysD [OF undoing_colon])
  qed
qed

text \<open>A deletion with its tokens.\<close>

definition deleted :: "'v scintilla \<Rightarrow> int \<Rightarrow> int \<Rightarrow> teco \<Rightarrow> 'v editor \<Rightarrow> 'v editor" where
  "deleted S start n s e =
     (let c = teco_interface_current_view e;
          e1 = update_view c (\<lambda>v. sci_end_undo_action S (sci_delete_range S start n (sci_begin_undo_action S v))) e
      in if teco_undo_enabled s \<and> teco_current_doc_must_undo s
         then e1\<lparr>editor_log := [Undo_sci_undo c, Undo_goto_pos c (sci_current_pos S (current_view e))] @ editor_log e\<rparr> else e1)"

lemma undoing_deleted:
  assumes L: "document_laws S doc txt" and r: "0 \<le> start" "0 < n" "start + n \<le> sci_length S (current_view e)"
  shows "undoing S doc (s, e) (s, deleted S start n s e)"
proof (rule undoing_changed)
  assume u: "teco_undo_enabled s" "teco_current_doc_must_undo s"
  let ?v = "current_view e"
  show "undone S doc e (deleted S start n s e)"
    unfolding deleted_def Let_def if_P [OF conjI [OF u]]
  proof (rule undone_view [where g = "\<lambda>v. sci_goto_pos S (sci_current_pos S ?v) (sci_undo S v)"])
    fix v assume "doc v = doc (sci_end_undo_action S (sci_delete_range S start n (sci_begin_undo_action S ?v)))"
    then have "doc (sci_undo S v) = doc ?v" by (rule document_lawsD(11) [OF L r])
    then show "doc (sci_goto_pos S (sci_current_pos S ?v) (sci_undo S v)) = doc ?v \<and>
        sci_current_pos S (sci_goto_pos S (sci_current_pos S ?v) (sci_undo S v)) = sci_current_pos S ?v"
      using goto_back [OF L _ refl] by blast
  qed (simp add: update_view_twice)
qed

lemma delete_token_run:
  "thenM (delete_range S start n)
    (thenM (undo_ssm (\<lambda>d. Undo_goto_pos d (sci_current_pos S (current_view e)))) (thenM (undo_ssm Undo_sci_undo) m)) (s, e) =
   m (s, deleted S start n s e)"
  "thenM (undo_ssm (\<lambda>d. Undo_goto_pos d (sci_current_pos S (current_view e))))
    (thenM (undo_ssm Undo_sci_undo) (thenM (delete_range S start n) m)) (s, e) = m (s, deleted S start n s e)"
  by (auto simp: editor_run deleted_def delete_range_def update_view_twice Let_def)

lemma dirtify_run: "teco_ring_dirtify (s, e) = (Inr (), (s,
    if teco_qreg_current s \<noteq> None \<or> dirty e (teco_ring_current e) then e
    else e\<lparr>dirty := (dirty e)(teco_ring_current e := True),
      editor_log := (if teco_undo_enabled s then [Undo_dirty (teco_ring_current e) (dirty e (teco_ring_current e))] else []) @ editor_log e\<rparr>))"
  by (simp add: teco_ring_dirtify_def editor_push_def editor_run)

lemma undoing_dirtify: "obeys (undoing (S :: 'a scintilla) doc) teco_ring_dirtify"
proof (rule undoing_all)
  fix s and e :: "'a editor"
  let ?e = "e\<lparr>dirty := (dirty e)(teco_ring_current e := True),
      editor_log := [Undo_dirty (teco_ring_current e) (dirty e (teco_ring_current e))] @ editor_log e\<rparr>"
  have "undone S doc e ?e"
    unfolding undone_def
  proof (intro exI conjI allI impI)
    show "editor_log ?e = [Undo_dirty (teco_ring_current e) (dirty e (teco_ring_current e))] @ editor_log e" by simp
    show "alike S doc (fold (editor_undo S) [Undo_dirty (teco_ring_current e) (dirty e (teco_ring_current e))] x) e"
      if "alike S doc x ?e" for x using that by (simp add: alike_def)
  qed
  then show "undoing S doc (s, e) (snd (teco_ring_dirtify (s, e)))"
    unfolding dirtify_run snd_conv
    by (cases "teco_undo_enabled s"; intro undoing_changed) (auto intro: undone_refl simp del: append_Cons append_Nil)
qed

lemma word_in_text:
  assumes L: "document_laws S doc txt" and f: "teco_find_words S v (nat (sci_current_pos S v)) n eow = Inr (True, q)"
  shows "int q \<le> sci_length S v"
proof -
  have t: "text_laws S v (txt v)" by (rule document_lawsD(3) [OF L])
  then have len: "sci_length S v = int (length (txt v))" by (simp add: text_laws_def)
  then have p: "nat (sci_current_pos S v) \<le> length (txt v)" using document_lawsD(4,5) [OF L, of v] by simp
  from find_words_run [OF t p, of n eow] f
  obtain r where "words_reference (sci_word_chars S v) (txt v) (nat (sci_current_pos S v)) n eow = Some r" "q = r" by auto
  then show ?thesis using words_reference_bound [OF _ p] len by simp
qed

lemma undoing_delete_words: "document_laws S doc txt \<Longrightarrow> obeys (undoing S doc) (teco_state_start_delete_words S cmd factor at_mod)"
  unfolding teco_state_start_delete_words_def Let_def
proof (intro un.bind [OF undoing_intros(8)], rule undoing_all, unfold ssm_get_step)
  fix n :: teco_int and s e
  assume L: "document_laws S doc txt"
  let ?pos = "sci_current_pos S (current_view e)" and ?v = "n * word_of_int factor"
  let ?kill = "\<lambda>rc start_pos end_pos. whenM (rc \<and> start_pos \<noteq> end_pos)
          (if end_pos \<le> start_pos then throw G_assertion_failed
           else
             thenM (delete_range S start_pos (end_pos - start_pos))
            (thenM (undo_ssm (\<lambda>d. Undo_goto_pos d ?pos))
            (thenM (undo_ssm Undo_sci_undo) teco_ring_dirtify)))"
  have kill: "undoing S doc (s, e) (snd (?kill rc a b (s, e)))" if "rc \<Longrightarrow> 0 \<le> a \<and> b \<le> sci_length S (current_view e)" for rc a b
    using that by (auto simp: whenM_def ret_def throw_def delete_token_run un.R_refl
        intro!: undoing_after undoing_deleted [OF L] undoing_dirtify)
  show "undoing S doc (s, e) (snd (bindM (from_sum (teco_find_words S (current_view e) (nat ?pos) ?v at_mod))
     (\<lambda>(rc, word_pos). case (if 0 < sint ?v then (?pos, int word_pos) else (int word_pos, ?pos)) of
        (start_pos, end_pos) \<Rightarrow> thenM (?kill rc start_pos end_pos) (colon_result (TECO_ERROR_WORDS cmd) rc)) (s, e)))"
  proof (rule un.bind_at [OF obeysD [OF undoing_intros(10)]])
    fix x p
    assume "from_sum (teco_find_words S (current_view e) (nat ?pos) ?v at_mod) (s, e) = (Inr x, p)"
    then have p: "p = (s, e)" and f: "teco_find_words S (current_view e) (nat ?pos) ?v at_mod = Inr x"
      by (simp_all add: from_sum_def run_simps split: sum.splits)
    have "int (snd x) \<le> sci_length S (current_view e)" if "fst x" using word_in_text [OF L, of "current_view e" ?v at_mod "snd x"] f that
      by (cases x) simp
    then have "undoing S doc (s, e) (snd (?kill (fst x) ?pos (int (snd x)) (s, e)))"
      "undoing S doc (s, e) (snd (?kill (fst x) (int (snd x)) ?pos (s, e)))"
      using document_lawsD(4,5) [OF L, of "current_view e"] by (intro kill; simp)+
    then show "undoing S doc p (snd ((case x of (rc, word_pos) \<Rightarrow> (case (if 0 < sint ?v then (?pos, int word_pos) else (int word_pos, ?pos)) of
        (start_pos, end_pos) \<Rightarrow> thenM (?kill rc start_pos end_pos) (colon_result (TECO_ERROR_WORDS cmd) rc))) p))"
      unfolding p by (cases x; cases "0 < sint ?v"; simp only: prod.case if_True if_False fst_conv snd_conv)
        (rule un.then_at, assumption, rule obeysD [OF undoing_colon])+
  qed
qed

text \<open>Programs that read the editor only, with what holds of their result.\<close>

definition reads :: "'v editor \<Rightarrow> ('a \<Rightarrow> bool) \<Rightarrow> ('v, 'a) em \<Rightarrow> bool" where
  "reads e P m \<longleftrightarrow> (\<forall>s. same_editing s (fst (snd (m (s, e)))) \<and> snd (snd (m (s, e))) = e \<and> (\<forall>x p. m (s, e) = (Inr x, p) \<longrightarrow> P x))"

lemma reads_bind: "reads e Q m \<Longrightarrow> (\<And>y. Q y \<Longrightarrow> reads e P (k y)) \<Longrightarrow> reads e P (bindM m k)"
  unfolding reads_def
proof (intro allI)
  fix s
  assume m: "\<forall>s. same_editing s (fst (snd (m (s, e)))) \<and> snd (snd (m (s, e))) = e \<and> (\<forall>x p. m (s, e) = (Inr x, p) \<longrightarrow> Q x)"
    and k: "\<And>y. Q y \<Longrightarrow> \<forall>s. same_editing s (fst (snd (k y (s, e)))) \<and> snd (snd (k y (s, e))) = e \<and> (\<forall>x p. k y (s, e) = (Inr x, p) \<longrightarrow> P x)"
  obtain r t where r: "m (s, e) = (r, (t, e))" "same_editing s t" using m [rule_format, of s] by (cases "m (s, e)") auto
  show "same_editing s (fst (snd (bindM m k (s, e)))) \<and> snd (snd (bindM m k (s, e))) = e \<and> (\<forall>x p. bindM m k (s, e) = (Inr x, p) \<longrightarrow> P x)"
  proof (cases r)
    case (Inr y)
    then have "Q y" using m r by blast
    then show ?thesis using k [of y, rule_format, of t] r Inr by (auto simp: bindM_run same_editing_def)
  qed (simp add: bindM_run r)
qed

lemma reads_intros:
  "P (g (current_view e)) \<Longrightarrow> reads e P (ssm_get g)" "P x \<Longrightarrow> reads e P (ret x)"
  "(b \<Longrightarrow> reads e P m) \<Longrightarrow> (\<not> b \<Longrightarrow> reads e P m') \<Longrightarrow> reads e P (if b then m else m')"
  by (simp_all add: reads_def ssm_get_run ret_def same_editing_def)

lemma reads_throw: "reads e P (throw err)"
  by (simp add: reads_def throw_def same_editing_def)

lemma reads_interp: "obeys same_editing m \<Longrightarrow> reads e (\<lambda>_. True) (interp m)"
  by (simp add: reads_def interp_def obeys_def split_beta)

lemma undoing_reads:
  assumes "reads e P m"
  shows "undoing S doc (s, e) (snd (m (s, e)))"
proof -
  have "same_editing s (fst (snd (m (s, e))))" "snd (snd (m (s, e))) = e" using assms unfolding reads_def by blast+
  then show ?thesis by (simp add: undoing_def undone_refl)
qed

lemma reads_result:
  assumes "reads e P m" "m (s, e) = (Inr x, p)"
  shows "P x" "\<exists>t. p = (t, e)"
proof -
  show "P x" using assms unfolding reads_def by blast
  have "snd (snd (m (s, e))) = e" using assms unfolding reads_def by blast
  then show "\<exists>t. p = (t, e)" using assms(2) by (cases p) simp
qed

lemma reads_colon: "reads e (\<lambda>_. True) (colon_result err rc)"
  unfolding colon_result_def
  by (intro reads_bind [OF reads_interp [OF same_editing_colon]] reads_intros reads_throw TrueI
      reads_interp [OF same_editing_stacks [OF so.push_int]])

text \<open>Positions that were converted are in the document.\<close>

lemma glyphs2bytes_bound:
  assumes "document_laws S doc txt"
  shows "teco_view_glyphs2bytes S v n \<le> sci_length S v"
proof -
  have "0 \<le> sci_length S v" using document_lawsD(4,5) [OF assms, of v] by linarith
  then show ?thesis using document_lawsD(7) [OF assms] by (simp add: teco_view_glyphs2bytes_def Let_def)
qed

lemma relative_bound:
  assumes "document_laws S doc txt" "pos \<le> sci_length S v"
  shows "teco_view_glyphs2bytes_relative S v pos n \<le> sci_length S v"
proof -
  have "0 \<le> sci_length S v" using document_lawsD(4,5) [OF assms(1), of v] by linarith
  then show ?thesis using document_lawsD(7) [OF assms(1)] glyphs2bytes_bound [OF assms(1)] assms(2)
    by (simp add: teco_view_glyphs2bytes_relative_def Let_def)
qed

lemma pos_kill_lines:
  assumes L: "document_laws S doc txt" and v: "teco_validate_line S v line"
    and len: "len = sci_position_from_line S v (sint line) - sci_current_pos S v"
  shows "0 \<le> (if len < 0 then sci_current_pos S v + len else sci_current_pos S v) \<and>
    (if len < 0 then sci_current_pos S v + len else sci_current_pos S v) + \<bar>len\<bar> \<le> sci_length S v"
  using document_lawsD(4,5) [OF L, of v] document_lawsD(8) [OF L, of "sint line" v] v len by (auto simp: teco_validate_line_def)

lemma pop_reads: "reads e (\<lambda>_. True) pop_num_calc_sign"
  unfolding pop_num_calc_sign_def by (intro reads_interp same_editing_stacks so.pop_num_calc so_intros)

definition in_text :: "'v scintilla \<Rightarrow> 'v editor \<Rightarrow> bool \<times> int \<times> int \<Rightarrow> bool" where
  "in_text S e = (\<lambda>(rc, a, n). rc \<longrightarrow> 0 \<le> a \<and> 0 \<le> n \<and> a + n \<le> sci_length S (current_view e))"

lemma kill_range_reads:
  assumes L: "document_laws S doc txt"
  shows "reads e (in_text S e) (kill_range S by_lines args)"
proof (cases "args \<le> 1")
  case True
  let ?v = "current_view e"
  let ?pos = "sci_current_pos S ?v"
  note bounds = document_lawsD(4,5) [OF L, of ?v]
  have to: "teco_view_glyphs2bytes_relative S ?v ?pos n \<le> sci_length S ?v" for n
    by (rule relative_bound [OF L bounds(2)])
  let ?ok' = "\<lambda>(rc, len). rc \<longrightarrow> 0 \<le> (if len < 0 then ?pos + len else ?pos) \<and> (if len < 0 then ?pos + len else ?pos) + \<bar>len\<bar> \<le> sci_length S ?v"
  show ?thesis
    unfolding kill_range_def if_P [OF True]
  proof (rule reads_bind [where Q = "\<lambda>from. from = ?pos"], rule reads_intros, rule refl, rule reads_bind [OF pop_reads],
      rule reads_bind [where Q = ?ok'])
    fix start n assume start: "start = ?pos"
    show "reads e ?ok' (if by_lines then
           bindM (ssm_get (\<lambda>w. n + word_of_int (sci_line_from_position S w start))) (\<lambda>line.
             ssm_get (\<lambda>w. (teco_validate_line S w line, sci_position_from_line S w (sint line) - start)))
         else bindM (ssm_get (\<lambda>w. teco_view_glyphs2bytes_relative S w start n)) (\<lambda>to. ret (0 \<le> to, to - start)))"
    proof (rule reads_intros(3))
      show "reads e ?ok' (bindM (ssm_get (\<lambda>w. n + word_of_int (sci_line_from_position S w start))) (\<lambda>line.
             ssm_get (\<lambda>w. (teco_validate_line S w line, sci_position_from_line S w (sint line) - start))))"
        by (rule reads_bind [where Q = "\<lambda>_. True"], rule reads_intros, rule TrueI, rule reads_intros)
          (use pos_kill_lines [OF L _ refl] in \<open>simp add: start\<close>)
      show "reads e ?ok' (bindM (ssm_get (\<lambda>w. teco_view_glyphs2bytes_relative S w start n)) (\<lambda>to. ret (0 \<le> to, to - start)))"
        by (rule reads_bind [where Q = "\<lambda>to. to \<le> sci_length S ?v"], rule reads_intros)
          (use to bounds in \<open>auto simp: start intro!: reads_intros\<close>)
    qed
  next
    fix start n x assume "start = ?pos" "?ok' x"
    then show "reads e (in_text S e) (case x of (rc, len) \<Rightarrow> ret (if len < 0 then (rc, start + len, - len) else (rc, start, len)))"
      by (auto simp: in_text_def intro!: reads_intros split: prod.splits)
  qed
next
  case False
  have b: "reads e (\<lambda>to. to \<le> sci_length S (current_view e)) (ssm_get (\<lambda>w. teco_view_glyphs2bytes S w n))" for n
    by (rule reads_intros) (rule glyphs2bytes_bound [OF L])
  show ?thesis
    unfolding kill_range_def if_not_P [OF False]
    by (rule reads_bind [OF reads_interp [OF same_editing_stacks [OF so.pop_num_0]]], rule reads_bind [OF b],
        rule reads_bind [OF reads_interp [OF same_editing_stacks [OF so.pop_num_0]]], rule reads_bind [OF b], rule reads_intros) (simp add: in_text_def)
qed

lemma undoing_kill_in:
  assumes L: "document_laws S doc txt" and ok: "in_text S e (rc, a, len)"
  shows "undoing S doc (s, e) (snd (thenM (colon_result (TECO_ERROR_RANGE cmd) rc)
          (whenM (len \<noteq> 0 \<and> rc)
            (bindM (ssm_get (sci_current_pos S)) (\<lambda>pos.
              thenM (undo_ssm (\<lambda>d. Undo_goto_pos d pos))
             (thenM (undo_ssm Undo_sci_undo)
             (thenM (delete_range S a len) teco_ring_dirtify))))) (s, e)))"
proof (rule un.then_at)
  show "undoing S doc (s, e) (snd (colon_result (TECO_ERROR_RANGE cmd) rc (s, e)))" by (rule obeysD [OF undoing_colon])
  fix x p assume "colon_result (TECO_ERROR_RANGE cmd) rc (s, e) = (Inr x, p)"
  then obtain t where p: "p = (t, e)" using reads_result(2) [OF reads_colon] by blast
  have "undoing S doc (t, e) (snd (teco_ring_dirtify (t, deleted S a len t e)))" if "rc" "len \<noteq> 0"
    using ok that by (intro undoing_after undoing_deleted [OF L] undoing_dirtify) (auto simp: in_text_def)
  then show "undoing S doc p (snd (whenM (len \<noteq> 0 \<and> rc)
            (bindM (ssm_get (sci_current_pos S)) (\<lambda>pos.
              thenM (undo_ssm (\<lambda>d. Undo_goto_pos d pos))
             (thenM (undo_ssm Undo_sci_undo)
             (thenM (delete_range S a len) teco_ring_dirtify)))) p))"
    unfolding p by (simp add: whenM_def ret_def ssm_get_step delete_token_run un.R_refl)
qed

lemma undoing_kill: "document_laws S doc txt \<Longrightarrow> obeys (undoing S doc) (teco_state_start_kill S cmd by_lines)"
  unfolding teco_state_start_kill_def
proof (rule un.thenM [OF undoing_intros(1)], rule un.bind [OF undoing_intros(7)], rule undoing_all, rule un.bind_at)
  fix args s e
  assume L: "document_laws S doc txt"
  show "undoing S doc (s, e) (snd (kill_range S by_lines args (s, e)))" by (rule undoing_reads [OF kill_range_reads [OF L]])
  fix x p
  assume r: "kill_range S by_lines args (s, e) = (Inr x, p)"
  then obtain t where p: "p = (t, e)" using reads_result(2) [OF kill_range_reads [OF L]] by blast
  have "in_text S e x" by (rule reads_result(1) [OF kill_range_reads [OF L] r])
  then show "undoing S doc p (snd ((case x of (rc, from, len) \<Rightarrow> thenM (colon_result (TECO_ERROR_RANGE cmd) rc)
          (whenM (len \<noteq> 0 \<and> rc)
            (bindM (ssm_get (sci_current_pos S)) (\<lambda>pos.
              thenM (undo_ssm (\<lambda>d. Undo_goto_pos d pos))
             (thenM (undo_ssm Undo_sci_undo)
             (thenM (delete_range S from len) teco_ring_dirtify)))))) p))"
    unfolding p by (cases x) (simp only: prod.case undoing_kill_in [OF L])
qed

text \<open>An insertion, whose token is pushed after that of the flag of the buffer.\<close>

definition inserted :: "'v scintilla \<Rightarrow> string list \<Rightarrow> teco \<Rightarrow> 'v editor \<Rightarrow> 'v editor" where
  "inserted S strs s e =
     (let c = teco_interface_current_view e;
          e1 = update_view c (\<lambda>v. sci_end_undo_action S (fold (sci_add_text S) strs (sci_begin_undo_action S v))) e
      in if teco_undo_enabled s \<and> teco_current_doc_must_undo s then e1\<lparr>editor_log := [Undo_sci_undo c] @ editor_log e\<rparr> else e1)"

lemma undoing_inserted:
  assumes L: "document_laws S doc txt" and str: "concat strs \<noteq> []"
  shows "undoing S doc (s, e) (s, inserted S strs s e)"
proof (rule undoing_changed)
  assume u: "teco_undo_enabled s" "teco_current_doc_must_undo s"
  show "undone S doc e (inserted S strs s e)"
    unfolding inserted_def Let_def if_P [OF conjI [OF u]]
    by (rule undone_view [where g = "sci_undo S"]) (simp_all add: document_lawsD(12) [OF L str])
qed

lemma add_texts_run: "thenM (mapM (\<lambda>str. ssm (sci_add_text S str)) strs) m (s, e) =
    m (s, update_view (teco_interface_current_view e) (fold (sci_add_text S) strs) e)"
proof (induction strs arbitrary: e)
  case Nil
  have "update_view d (\<lambda>v. v) e = e" for d by (simp add: update_view_def)
  then show ?case by (simp add: run_simps id_def)
next
  case (Cons str strs)
  let ?f = "\<lambda>str. ssm (sci_add_text S str)"
  have "thenM (mapM ?f (str # strs)) m (s, e) = thenM (?f str) (thenM (mapM ?f strs) m) (s, e)"
    by (simp add: thenM_def bindM_def split: prod.split sum.split)
  also have "\<dots> = thenM (mapM ?f strs) m (s, update_view (teco_interface_current_view e) (sci_add_text S str) e)"
    by (simp only: thenM_run ssm_run prod.case sum.case)
  also have "\<dots> = m (s, update_view (teco_interface_current_view e) (fold (sci_add_text S) (str # strs)) e)"
    by (simp add: Cons update_view_twice comp_def)
  finally show ?case .
qed

lemma insert_action_run: "insert_action S strs (s, e) = (Inr (), (s, inserted S strs s (snd (snd (teco_ring_dirtify (s, e))))))"
  unfolding insert_action_def
  by (simp add: thenM_run [of "ssm (sci_begin_undo_action S)"] ssm_run add_texts_run)
    (simp add: editor_run dirtify_run inserted_def update_view_def Let_def)

lemma undoing_insert: "document_laws (S :: 'a scintilla) doc txt \<Longrightarrow> concat strs \<noteq> [] \<Longrightarrow> obeys (undoing S doc) (insert_action S strs)"
proof (rule undoing_all, unfold insert_action_run snd_conv)
  fix s and e :: "'a editor" assume L: "document_laws S doc txt" "concat strs \<noteq> []"
  have "snd (teco_ring_dirtify (s, e)) = (s, snd (snd (teco_ring_dirtify (s, e))))" by (simp add: dirtify_run)
  then show "undoing S doc (s, e) (s, inserted S strs s (snd (snd (teco_ring_dirtify (s, e)))))"
    using un.R_trans obeysD [OF undoing_dirtify, of S doc "(s, e)"] undoing_inserted [OF L] by metis
qed

definition ranged :: "(teco_int \<times> teco_int) list \<Rightarrow> teco \<Rightarrow> 'v editor \<Rightarrow> 'v editor" where
  "ranged r s e = (if teco_undo_enabled s then e\<lparr>editor_log := [Undo_ranges (teco_ranges e)] @ editor_log e, teco_ranges := r\<rparr>
     else e\<lparr>teco_ranges := r\<rparr>)"

lemma undoing_ranged: "undoing S doc (s, e) (s, ranged r s e)"
proof (rule undoing_changed)
  assume "teco_undo_enabled s"
  then have r: "ranged r s e = e\<lparr>editor_log := [Undo_ranges (teco_ranges e)] @ editor_log e, teco_ranges := r\<rparr>" by (simp add: ranged_def)
  show "undone S doc e (ranged r s e)"
    unfolding r undone_def
    by (intro exI [of _ "[Undo_ranges (teco_ranges e)]"] conjI allI impI) (simp_all add: alike_def)
qed

lemma undoing_set_ranges: "obeys (undoing (S :: 'a scintilla) doc) (set_ranges f)"
proof (rule undoing_all)
  fix s and e :: "'a editor"
  have "set_ranges f (s, e) = (Inr (), (s, ranged (f (teco_ranges e)) s e))"
    by (simp add: set_ranges_def editor_push_def ranged_def run_simps)
  then show "undoing S doc (s, e) (snd (set_ranges f (s, e)))" by (simp add: undoing_ranged)
qed

lemma undoing_backslash: "document_laws S doc txt \<Longrightarrow> obeys (undoing S doc) (teco_state_start_backslash S)"
  unfolding teco_state_start_backslash_def
  by (intro un.thenM un.bind un.if_then undoing_intros)
    (auto split: option.split intro!: un.bind un.thenM undoing_intros un.throw undoing_set_ranges undoing_insert)

lemma undoing_queries:
  "obeys (undoing S doc) (teco_state_start_dot S)" "obeys (undoing S doc) (teco_state_start_zed S)"
  "obeys (undoing S doc) (teco_state_start_range S)" "obeys (undoing S doc) (teco_state_control_lines2glyphs S)"
  "obeys (undoing S doc) (teco_state_control_glyphs2bytes S)" "obeys (undoing S doc) (teco_state_start_get S validated)"
  "obeys (undoing S doc) teco_state_control_last_range" "obeys (undoing S doc) teco_state_control_last_length"
  unfolding teco_state_start_dot_def teco_state_start_zed_def teco_state_start_range_def teco_state_control_lines2glyphs_def
    teco_state_control_glyphs2bytes_def teco_state_start_get_def teco_state_control_last_range_def
    teco_state_control_last_length_def push_position_def
  by (intro un.thenM un.bind un.if_then un.throw un.gets un.ret undoing_intros)+

lemma undoing_callback:
  assumes "document_laws S doc txt" "document_callback S validated cb = Some m"
  shows "obeys (undoing S doc) m"
  using assms(2) by (cases cb)
    (auto simp: document_callback_def teco_state_start_kill_lines_def teco_state_start_delete_chars_def
      intro: undoing_queries undoing_backslash [OF assms(1)] undoing_jump [OF assms(1)] undoing_moves [OF assms(1)]
        undoing_kill [OF assms(1)] undoing_words [OF assms(1)] undoing_delete_words [OF assms(1)])

text \<open>For the witness: one buffer with a short text.\<close>

definition plain_editor :: "plain_view editor" where
  "plain_editor = \<lparr>views = (\<lambda>_. (''abc'', 0, [])), teco_interface_current_view = Buffer 0, ring_size = 1, teco_ring_current = 0,
     dirty = (\<lambda>_. False), teco_search_parameters = \<lparr>sp_dot = 0, sp_from = 0, sp_to = 0, sp_count = 0, sp_from_buffer = None, sp_to_buffer = None\<rparr>,
     teco_ranges = [], editor_log = []\<rparr>"

text \<open>
  C22: Rubbing out commands on documents. For every command that moves in the current document, deletes from it, inserts a number
  into it or queries it, succeeding or failing, the undo tokens it pushed bring back the text, the position, the
  modification flags and the ranges of the last match, provided that undo is enabled and the document is not the one of a local register.
\<close>

theorem document_rubout:
  assumes "document_laws S doc txt" "document_callback S validated cb = Some m"
    and "teco_undo_enabled s" "teco_current_doc_must_undo s"
  shows "\<exists>new. editor_log (snd (snd (m (s, e)))) = new @ editor_log e \<and>
    alike S doc (fold (editor_undo S) new (snd (snd (m (s, e))))) e"
proof -
  have "undoing S doc (s, e) (snd (m (s, e)))" by (rule obeysD [OF undoing_callback [OF assms(1,2)]])
  then have "undone S doc e (snd (snd (m (s, e))))" using assms(3,4) by (simp add: undoing_def)
  then show ?thesis unfolding undone_def using alike_refl by blast
qed

lemma plain_add_texts:
  "\<exists>t' p'. fold (sci_add_text plain_scintilla) strs (t, p, h) = (t', p', h) \<and> length t' = length t + length (concat strs)"
proof (induction strs arbitrary: t p)
  case (Cons str strs)
  obtain t1 p1 where "sci_add_text plain_scintilla str (t, p, h) = (t1, p1, h)" "length t1 = length t + length str"
    by (simp add: plain_scintilla_def Let_def)
  then show ?case using Cons [of t1 p1] by fastforce
qed simp

lemma plain_document_laws: "document_laws plain_scintilla (\<lambda>(t, p, h). (t, h)) fst"
  unfolding document_laws_def
proof (intro conjI allI impI)
  fix v v' :: plain_view and p n l start strs
  let ?doc = "\<lambda>(t, p, h). (t, h)" and ?S = plain_scintilla
  obtain t q h t1 q1 h1 where v: "v = (t, q, h)" "v' = (t1, q1, h1)" by (cases v; cases v')
  show "text_laws ?S v (fst v)" by (cases v) (simp add: plain_text_laws)
  show "0 \<le> sci_current_pos ?S v" "sci_current_pos ?S v \<le> sci_length ?S v"
    "0 \<le> sci_position_relative ?S v p n" "sci_position_relative ?S v p n \<le> sci_length ?S v"
    by (cases v; simp add: plain_scintilla_def)+
  show "0 \<le> sci_position_from_line ?S v l" "sci_position_from_line ?S v l \<le> sci_length ?S v"
    if "0 \<le> l \<and> l < sci_line_count ?S v"
    using that by (cases v; simp add: plain_scintilla_def)+
  show "?doc (sci_undo ?S v') = ?doc v" if r: "0 \<le> start \<and> 0 < n \<and> start + n \<le> sci_length ?S v"
    "?doc v' = ?doc (sci_end_undo_action ?S (sci_delete_range ?S start n (sci_begin_undo_action ?S v)))"
  proof -
    have "length (take (nat start) t @ drop (nat (start + n)) t) \<noteq> length t"
      using r(1) by (simp add: v plain_scintilla_def) linarith
    then have "t \<noteq> take (nat start) t @ drop (nat (start + n)) t" by metis
    then show ?thesis using r(2) by (simp add: v plain_scintilla_def)
  qed
  assume r: "concat strs \<noteq> []" "?doc v' = ?doc (sci_end_undo_action ?S (fold (sci_add_text ?S) strs (sci_begin_undo_action ?S v)))"
  obtain t2 q2 where f: "fold (sci_add_text ?S) strs (sci_begin_undo_action ?S v) = (t2, q2, (t, max 0 (min q (int (length t)))) # h)"
    "length t2 = length t + length (concat strs)"
    using plain_add_texts [of strs t q "(t, max 0 (min q (int (length t)))) # h"] by (auto simp: v plain_scintilla_def)
  then have "t \<noteq> t2" using r(1) by auto
  then have "h1 = (t, max 0 (min q (int (length t)))) # h" using r(2) unfolding f by (simp add: v plain_scintilla_def)
  then show "?doc (sci_undo ?S v') = ?doc v" "sci_current_pos ?S (sci_undo ?S v') = sci_current_pos ?S v"
    by (simp_all add: v plain_scintilla_def)
qed (auto simp: plain_scintilla_def Let_def split: prod.splits)

theorem document_rubout_witness:
  "\<exists>m new. document_callback plain_scintilla (\<lambda>_. 0) CB_delete_chars = Some m \<and>
     editor_log (snd (snd (m (teco_initial True, plain_editor)))) = new @ [] \<and>
     alike plain_scintilla (\<lambda>(t, p, h). (t, h)) (fold (editor_undo plain_scintilla) new (snd (snd (m (teco_initial True, plain_editor))))) plain_editor"
proof -
  let ?m = "teco_state_start_delete_chars plain_scintilla"
  have m: "document_callback plain_scintilla (\<lambda>_. 0) CB_delete_chars = Some ?m" by (simp add: document_callback_def)
  have u: "teco_undo_enabled (teco_initial True)" "teco_current_doc_must_undo (teco_initial True)"
    by (simp_all add: teco_initial_def teco_current_doc_must_undo_def)
  have "editor_log plain_editor = []" by (simp add: plain_editor_def)
  with document_rubout [OF plain_document_laws m u, of plain_editor] m show ?thesis by auto
qed

end
