(* ===== verification/Insert_Commands.thy ===== *)
theory Insert_Commands
  imports Document_Laws Arguments
begin

text \<open>
  The commands that insert text (\<open>I\<close> and \<open>^I\<close>, \<open>src/core-commands.c\<close>): what they do before their string
  argument, with every part of it that is typed, and at its end. Their tokens undo them.
\<close>

section \<open>Insertion\<close>

definition insert_chars :: "glib \<Rightarrow> bool \<Rightarrow> teco_int list \<Rightarrow> string list" where
  "insert_chars G uni chrs = map (\<lambda>chr. if uni then g_unichar_to_utf8 G (ucast chr) else [char_of (unat chr)]) chrs"

text \<open>GLib's code points have 32 bits.\<close>

definition char_fails :: "glib \<Rightarrow> bool \<Rightarrow> teco_int \<Rightarrow> bool" where
  "char_fails G uni chr \<longleftrightarrow> sint chr < 0 \<or> (if uni then \<not> g_unichar_validate G (ucast chr) else 0xFF < sint chr)"

definition teco_state_insert_initial :: "'v scintilla \<Rightarrow> glib \<Rightarrow> ('v, unit) em" where
  "teco_state_insert_initial S G =
     bindM (interp (gets executing)) (\<lambda>normal. whenM normal
      (bindM (ssm_get (\<lambda>w. teco_view_bytes2glyphs S w (sci_current_pos S w))) (\<lambda>from.
       thenM (set_ranges (\<lambda>r. [(from, case r of [] \<Rightarrow> 0 | x # _ \<Rightarrow> snd x)]))
      (bindM (ssm_get (teco_view_get_codepage S)) (\<lambda>cp.
       thenM (interp (teco_machine_stringbuilding_set_codepage cp))
      (thenM (interp (teco_expressions_eval False))
      (bindM (interp (gets teco_expressions_args)) (\<lambda>args. whenM (args \<noteq> 0)
        (bindM (ssm_get (\<lambda>w. sci_codepage S w = SC_CP_UTF8)) (\<lambda>uni.
         bindM (interp (gets (\<lambda>s. map (teco_expressions_peek_num s) (rev [0..<args])))) (\<lambda>chrs.
           if \<exists>chr \<in> set chrs. char_fails G uni chr then throw (TECO_ERROR_CODEPOINT ''I'')
           else
             thenM (insert_action S (insert_chars G uni chrs))
               (interp (mapM (\<lambda>_. thenM (teco_expressions_pop_num 0) (ret ())) [0..<args])))))))))))))"

definition teco_state_insert_process :: "'v scintilla \<Rightarrow> string \<Rightarrow> nat \<Rightarrow> ('v, unit) em" where
  "teco_state_insert_process S str new_chars =
     (if new_chars = 0 then throw G_assertion_failed
      else insert_action S [drop (length str - new_chars) str])"

text \<open>The first range always exists.\<close>

definition teco_state_insert_done :: "'v scintilla \<Rightarrow> string \<Rightarrow> ('v, teco_state) em" where
  "teco_state_insert_done S str =
     bindM (interp (gets executing)) (\<lambda>normal.
       if \<not> normal then ret teco_state_start
       else
         bindM (ssm_get (\<lambda>w. teco_view_bytes2glyphs S w (sci_current_pos S w))) (\<lambda>to.
           thenM (set_ranges (\<lambda>r. case r of [] \<Rightarrow> [] | x # rs \<Rightarrow> (fst x, to) # rs)) (ret teco_state_start)))"

text \<open>Indentation: a tab, or spaces up to the next tab stop.\<close>

definition teco_state_insert_indent_initial :: "'v scintilla \<Rightarrow> glib \<Rightarrow> ('v, unit) em" where
  "teco_state_insert_indent_initial S G =
     bindM (interp (gets executing)) (\<lambda>normal. whenM normal
      (thenM (teco_state_insert_initial S G)
      (bindM (ssm_get (\<lambda>w. if sci_use_tabs S w then [[CHR 0x09]]
          else let len = sci_tab_width S w
               in replicate (nat (len - sci_column S w (sci_current_pos S w) mod len)) '' '')) (\<lambda>strs.
         insert_action S strs))))"

section \<open>Undoing insertions\<close>

text \<open>A column is not negative, and tabs are not empty.\<close>

definition tab_laws :: "'v scintilla \<Rightarrow> bool" where
  "tab_laws S \<longleftrightarrow> (\<forall>v. 0 < sci_tab_width S v)"

lemma undoing_at: "(\<And>x. g (current_view e) = x \<Longrightarrow> undoing S doc (s, e) (snd (k x (s, e)))) \<Longrightarrow>
    undoing S doc (s, e) (snd (bindM (ssm_get g) k (s, e)))"
  by (simp add: ssm_get_step)

lemma same_editing_ctx: "obeys same_editing (ctx_change t f)"
  unfolding ctx_change_def
  by (intro se.intros same_editing_push se.modify) (simp add: same_editing_def ctx_update_def split: list.split)

lemma undoing_insert_initial:
  assumes "document_laws S doc txt" "utf8_laws G"
  shows "obeys (undoing S doc) (teco_state_insert_initial S G)"
proof -
  have chars: "concat (insert_chars G uni chrs) \<noteq> []" if "chrs \<noteq> []" "\<not> (\<exists>chr \<in> set chrs. char_fails G uni chr)" for uni chrs
  proof -
    from that(1) obtain c cs where c: "chrs = c # cs" by (cases chrs) simp_all
    then have "\<not> char_fails G uni c" using that(2) by simp
    then have "uni \<Longrightarrow> g_unichar_to_utf8 G (ucast c) \<noteq> []" using assms(2) by (simp add: char_fails_def utf8_laws_def)
    then show ?thesis by (simp add: c insert_chars_def)
  qed
  have pops: "obeys (undoing S doc) (interp (mapM (\<lambda>_. thenM (teco_expressions_pop_num 0) (ret ())) ns))" for ns :: "nat list"
    by (intro undoing_interp se.mapM_list se.thenM same_editing_stacks so.pop_num_0 se.ret)
  have run: "obeys (undoing S doc) (bindM (interp (gets (\<lambda>s. map (teco_expressions_peek_num s) (rev [0..<args])))) (\<lambda>chrs.
           if \<exists>chr \<in> set chrs. char_fails G uni chr then throw (TECO_ERROR_CODEPOINT ''I'')
           else
             thenM (insert_action S (insert_chars G uni chrs))
               (interp (mapM (\<lambda>_. thenM (teco_expressions_pop_num 0) (ret ())) [0..<args]))))" if "args \<noteq> 0" for args uni
  proof (rule undoing_all)
    fix s e
    let ?chrs = "map (teco_expressions_peek_num s) (rev [0..<args])"
    have "?chrs \<noteq> []" using that by simp
    then have "obeys (undoing S doc) (if \<exists>chr \<in> set ?chrs. char_fails G uni chr then throw (TECO_ERROR_CODEPOINT ''I'')
           else thenM (insert_action S (insert_chars G uni ?chrs))
               (interp (mapM (\<lambda>_. thenM (teco_expressions_pop_num 0) (ret ())) [0..<args])))"
      using undoing_insert [OF assms(1) chars, of ?chrs uni] by (auto intro!: un.throw un.thenM pops)
    then show "undoing S doc (s, e) (snd (bindM (interp (gets (\<lambda>s. map (teco_expressions_peek_num s) (rev [0..<args])))) (\<lambda>chrs.
           if \<exists>chr \<in> set chrs. char_fails G uni chr then throw (TECO_ERROR_CODEPOINT ''I'')
           else
             thenM (insert_action S (insert_chars G uni chrs))
               (interp (mapM (\<lambda>_. thenM (teco_expressions_pop_num 0) (ret ())) [0..<args]))) (s, e)))"
      by (simp add: interp_def bindM_def gets_def obeys_def)
  qed
  show ?thesis
    unfolding teco_state_insert_initial_def teco_machine_stringbuilding_set_codepage_def set_es_machine_def
    by (intro un.bind un.thenM un.whenM undoing_intros undoing_set_ranges undoing_interp [OF same_editing_ctx] run)
qed


lemma undoing_insert_process:
  "document_laws S doc txt \<Longrightarrow> 0 < n \<Longrightarrow> n \<le> length str \<Longrightarrow> obeys (undoing S doc) (teco_state_insert_process S str n)"
  unfolding teco_state_insert_process_def by (auto intro!: undoing_insert)

lemma undoing_insert_done: "obeys (undoing S doc) (teco_state_insert_done S str)"
  unfolding teco_state_insert_done_def by (intro un.bind un.if_then un.thenM un.ret undoing_set_ranges undoing_intros)

lemma undoing_insert_indent_initial:
  assumes L: "document_laws S doc txt" "utf8_laws G" "tab_laws S"
  shows "obeys (undoing S doc) (teco_state_insert_indent_initial S G)"
proof -
  let ?strs = "\<lambda>w. if sci_use_tabs S w then [[CHR 0x09]]
          else let len = sci_tab_width S w in replicate (nat (len - sci_column S w (sci_current_pos S w) mod len)) '' ''"
  have n: "concat (?strs w) \<noteq> []" for w
  proof -
    have "sci_column S w (sci_current_pos S w) mod sci_tab_width S w < sci_tab_width S w"
      using L(3) by (simp add: tab_laws_def)
    then show ?thesis by (simp add: Let_def)
  qed
  have run: "obeys (undoing S doc) (bindM (ssm_get ?strs) (\<lambda>strs. insert_action S strs))"
    by (rule undoing_all, rule undoing_at) (simp add: obeysD [OF undoing_insert [OF L(1) n]])
  show ?thesis
    unfolding teco_state_insert_indent_initial_def
    by (rule un.bind, rule undoing_intros, rule un.whenM, rule un.thenM, rule undoing_insert_initial [OF L(1,2)], rule run)
qed

text \<open>The whole command: its beginning, its string as it becomes known in parts, and its end.\<close>

definition insertion :: "'v scintilla \<Rightarrow> glib \<Rightarrow> bool \<Rightarrow> (string \<times> nat) list \<Rightarrow> string \<Rightarrow> ('v, teco_state) em" where
  "insertion S G indent parts str =
     thenM (if indent then teco_state_insert_indent_initial S G else teco_state_insert_initial S G)
    (thenM (mapM (\<lambda>(str, n). teco_state_insert_process S str n) parts) (teco_state_insert_done S str))"

text \<open>
  C24: Rubbing out insertions. Whatever the arguments and the parts in which the string of an insertion was processed, succeeding or
  failing, its undo tokens bring back the text, the position, the modification flags and the ranges of the last match.
\<close>

theorem insertion_rubout:
  assumes "document_laws S doc txt" "utf8_laws G" "tab_laws S"
    and "\<forall>(str, n) \<in> set parts. 0 < n \<and> n \<le> length str"
    and "teco_undo_enabled s" "teco_current_doc_must_undo s"
  shows "\<exists>new. editor_log (snd (snd (insertion S G indent parts str (s, e)))) = new @ editor_log e \<and>
    alike S doc (fold (editor_undo S) new (snd (snd (insertion S G indent parts str (s, e))))) e"
proof -
  have "obeys (undoing S doc) (mapM (\<lambda>(str, n). teco_state_insert_process S str n) parts)"
    using assms(4)
  proof (induction parts)
    case (Cons p parts)
    then show ?case using undoing_insert_process [OF assms(1), of "snd p" "fst p"]
      by (cases p) (auto intro!: un.thenM)
  qed (simp add: un.ret)
  then have "obeys (undoing S doc) (insertion S G indent parts str)"
    unfolding insertion_def
    by (intro un.thenM un.if_then undoing_insert_initial [OF assms(1,2)]
      undoing_insert_indent_initial [OF assms(1-3)] undoing_insert_done)
  then have "undone S doc e (snd (snd (insertion S G indent parts str (s, e))))"
    using obeysD [of "undoing S doc" _ "(s, e)"] assms(5,6) by (fastforce simp: undoing_def)
  then show ?thesis unfolding undone_def using alike_refl by blast
qed


section \<open>Text inserted in parts\<close>

text \<open>
  The documented effect of adding text: it gets in at the current position, which moves behind it. Grouping actions changes
  neither the text nor the position.
\<close>

definition insert_laws :: "'v scintilla \<Rightarrow> ('v \<Rightarrow> string) \<Rightarrow> bool" where
  "insert_laws S txt \<longleftrightarrow>
     (\<forall>v. 0 \<le> sci_current_pos S v \<and> sci_current_pos S v \<le> int (length (txt v))) \<and>
     (\<forall>v str. txt (sci_add_text S str v) = take (nat (sci_current_pos S v)) (txt v) @ str @ drop (nat (sci_current_pos S v)) (txt v) \<and>
        sci_current_pos S (sci_add_text S str v) = sci_current_pos S v + int (length str)) \<and>
     (\<forall>v. txt (sci_begin_undo_action S v) = txt v \<and> sci_current_pos S (sci_begin_undo_action S v) = sci_current_pos S v) \<and>
     (\<forall>v. txt (sci_end_undo_action S v) = txt v \<and> sci_current_pos S (sci_end_undo_action S v) = sci_current_pos S v)"

definition gets_in :: "'v scintilla \<Rightarrow> ('v \<Rightarrow> string) \<Rightarrow> string \<Rightarrow> 'v \<Rightarrow> 'v \<Rightarrow> bool" where
  "gets_in S txt str v v' \<longleftrightarrow>
     txt v' = take (nat (sci_current_pos S v)) (txt v) @ str @ drop (nat (sci_current_pos S v)) (txt v) \<and>
     sci_current_pos S v' = sci_current_pos S v + int (length str)"

lemma gets_in_Nil: "gets_in S txt [] v v"
  by (simp add: gets_in_def)

lemma gets_in_trans:
  assumes L: "insert_laws S txt" and g: "gets_in S txt a u v" "gets_in S txt b v w"
  shows "gets_in S txt (a @ b) u w"
proof -
  let ?p = "nat (sci_current_pos S u)"
  have p: "0 \<le> sci_current_pos S u" "?p \<le> length (txt u)" using L by (simp_all add: insert_laws_def nat_le_iff)
  then have q: "nat (sci_current_pos S v) = ?p + length a" using g(1) by (simp add: gets_in_def nat_add_distrib)
  then show ?thesis using g p by (simp add: gets_in_def)
qed

lemma gets_in_texts:
  assumes L: "insert_laws S txt"
  shows "gets_in S txt (concat strs) v (sci_end_undo_action S (fold (sci_add_text S) strs (sci_begin_undo_action S v)))"
proof -
  have one: "gets_in S txt str w (sci_add_text S str w)" for str w using L by (simp add: insert_laws_def gets_in_def)
  have "gets_in S txt (concat strs) w (fold (sci_add_text S) strs w)" for w
    by (induction strs arbitrary: w) (auto simp: gets_in_Nil intro: gets_in_trans [OF L one])
  then show ?thesis using L by (simp add: gets_in_def insert_laws_def)
qed

text \<open>The parts of a string as they become known: what there is up to each, with the length of the part.\<close>

definition growing :: "string list \<Rightarrow> (string \<times> nat) list" where
  "growing ps = map (\<lambda>i. (concat (take (Suc i) ps), length (ps ! i))) [0..<length ps]"

lemma growing_snoc: "growing (ps @ [p]) = growing ps @ [(concat (ps @ [p]), length p)]"
  by (simp add: growing_def nth_append)

text \<open>What an insertion leaves alone.\<close>

definition frame :: "'v editor \<Rightarrow> 'v editor \<Rightarrow> bool" where
  "frame e e' \<longleftrightarrow> teco_interface_current_view e' = teco_interface_current_view e \<and> teco_ranges e' = teco_ranges e \<and>
     ring_size e' = ring_size e \<and> teco_ring_current e' = teco_ring_current e \<and>
     (\<forall>d. d \<noteq> teco_interface_current_view e \<longrightarrow> views e' d = views e d)"

lemma insert_action_effect:
  assumes L: "insert_laws S txt"
  shows "\<exists>e'. insert_action S strs (s, e) = (Inr (), (s, e')) \<and> frame e e' \<and>
    gets_in S txt (concat strs) (current_view e) (current_view e')"
  using gets_in_texts [OF L, of strs "current_view e"]
  by (simp add: insert_action_run inserted_def dirtify_run update_view_def frame_def Let_def current_view_def)

lemma mapM_append: "mapM f (xs @ ys) = thenM (mapM f xs) (mapM f ys)"
  by (induction xs) (auto simp: thenM_def bindM_def ret_def fun_eq_iff split: prod.split sum.split)

text \<open>
  C25: Insertion in parts. In interactive mode the string of an insertion is inserted while it is typed, one part at a time,
  each step getting all that was typed and the length of what is new. However it is cut, the document gets the whole
  string, at the position where the insertion began, and the position moves behind it; no other document, no
  range and nothing of the interpreter changes.
\<close>

theorem insertion_in_parts:
  assumes "insert_laws S txt" "\<forall>p \<in> set ps. p \<noteq> []"
  shows "\<exists>e'. mapM (\<lambda>(str, n). teco_state_insert_process S str n) (growing ps) (s, e) = (Inr (), (s, e')) \<and> frame e e' \<and>
    gets_in S txt (concat ps) (current_view e) (current_view e')"
  using assms(2)
proof (induction ps rule: rev_induct)
  case Nil
  then show ?case by (simp add: growing_def ret_def frame_def gets_in_Nil)
next
  case (snoc p ps)
  then obtain e1 where e1: "mapM (\<lambda>(str, n). teco_state_insert_process S str n) (growing ps) (s, e) = (Inr (), (s, e1))" "frame e e1"
    "gets_in S txt (concat ps) (current_view e) (current_view e1)" by auto
  obtain e2 where e2: "insert_action S [p] (s, e1) = (Inr (), (s, e2))" "frame e1 e2"
    "gets_in S txt p (current_view e1) (current_view e2)"
    using insert_action_effect [OF assms(1), of "[p]" s e1] by auto
  have "teco_state_insert_process S (concat (ps @ [p])) (length p) = insert_action S [p]"
    using snoc.prems by (simp add: teco_state_insert_process_def)
  then have "mapM (\<lambda>(str, n). teco_state_insert_process S str n) (growing (ps @ [p])) (s, e) = (Inr (), (s, e2))"
    using e1(1) e2(1) by (simp add: growing_snoc mapM_append thenM_run ret_def)
  moreover have "frame e e2" using e1(2) e2(2) by (simp add: frame_def)
  ultimately show ?case using gets_in_trans [OF assms(1) e1(3) e2(3)] by auto
qed

theorem insertion_in_parts_witness:
  "\<exists>e'. mapM (\<lambda>(str, n). teco_state_insert_process plain_scintilla str n) (growing [''x'', ''yz'']) (teco_initial True, plain_editor) =
     (Inr (), (teco_initial True, e')) \<and> fst (current_view e') = ''xyzabc''"
proof -
  have L: "insert_laws plain_scintilla fst" by (auto simp: insert_laws_def plain_scintilla_def Let_def)
  have n: "\<forall>p \<in> set [''x'', ''yz'']. p \<noteq> []" by simp
  have v: "current_view plain_editor = (''abc'', 0, [])" by (simp add: plain_editor_def current_view_def)
  show ?thesis
    using insertion_in_parts [OF L n, of "teco_initial True" plain_editor]
    by (auto simp: gets_in_def v plain_scintilla_def)
qed

theorem insertion_rubout_witness:
  "\<exists>new. editor_log (snd (snd (insertion plain_scintilla ascii_glib True [(''x'', 1), (''xyz'', 2)] ''xyz'' (teco_initial True, plain_editor)))) =
     new @ [] \<and>
   alike plain_scintilla (\<lambda>(t, p, h). (t, h)) (fold (editor_undo plain_scintilla) new
     (snd (snd (insertion plain_scintilla ascii_glib True [(''x'', 1), (''xyz'', 2)] ''xyz'' (teco_initial True, plain_editor))))) plain_editor"
proof -
  have t: "tab_laws plain_scintilla" by (simp add: tab_laws_def plain_scintilla_def)
  have p: "\<forall>(str, n) \<in> set [(''x'', 1), (''xyz'', 2)]. 0 < n \<and> n \<le> length str" by simp
  have u: "teco_undo_enabled (teco_initial True)" "teco_current_doc_must_undo (teco_initial True)"
    by (simp_all add: teco_initial_def teco_current_doc_must_undo_def)
  have "editor_log plain_editor = []" by (simp add: plain_editor_def)
  with insertion_rubout [OF plain_document_laws utf8_laws_ascii t p u, of True "''xyz''" plain_editor] show ?thesis by simp
qed

text \<open>
  Code points of more than 32 bits: in a UTF-8 document the check whether an argument of the insertion is a code point
  sees its lower 32 bits only, and so does the encoding: \<open>4294967361I\<close> inserts the letter A, where \<open>-1I\<close> fails, and
  where a document with a single-byte encoding rejects everything above 255.
\<close>

lemma insertion_truncates:
  "char_fails G True 4294967361 = char_fails G True 65 \<and> insert_chars G True [4294967361] = insert_chars G True [65] \<and>
   char_fails G True (- 1) \<and> char_fails G False 4294967361"
proof -
  have "(4294967361 :: unichar) = 65" by (simp add: word_uint_eq_iff)
  show ?thesis by (simp add: char_fails_def insert_chars_def \<open>(4294967361 :: unichar) = 65\<close>)
qed

end
