(* ===== verification/Search.thy ===== *)
theory Search
  imports StringBuilding
begin

text \<open>
  Searching (\<open>src/search.c\<close>): the translation of a search pattern to the regular expression given to GLib.
  The commands that search are in theory \<open>Search_Commands\<close>.
\<close>

section \<open>Patterns\<close>

datatype search_state =
    TECO_SEARCH_STATE_START | TECO_SEARCH_STATE_CTL | TECO_SEARCH_STATE_ESCAPE | TECO_SEARCH_STATE_NOT
  | TECO_SEARCH_STATE_CTL_E | TECO_SEARCH_STATE_ANYQ | TECO_SEARCH_STATE_MANY | TECO_SEARCH_STATE_ALT

text \<open>\<open>TECO_CTL_KEY\<close> of a byte, and a (signed) byte as a code point.\<close>

definition ctl :: "char \<Rightarrow> char" where
  "ctl c = char_of (and (of_char c :: nat) 0xBF)"

definition byte_char :: "char \<Rightarrow> unichar" where
  "byte_char c = word_of_int (schar c)"

text \<open>The first character of the pattern: its bytes and its code. Patterns in UTF-8 are valid.\<close>

definition char_bytes :: "glib \<Rightarrow> nat \<Rightarrow> string \<Rightarrow> nat" where
  "char_bytes G codepage pat = (if codepage = SC_CP_UTF8 then Suc (g_utf8_cont G (hd pat)) else 1)"

definition char_code :: "glib \<Rightarrow> nat \<Rightarrow> string \<Rightarrow> unichar" where
  "char_code G codepage pat = (if codepage = SC_CP_UTF8 then g_utf8_get_char G pat else byte_char (hd pat))"

text \<open>The classes that are a letter after \<open>^E\<close>.\<close>

definition ctl_e_class :: "unichar \<Rightarrow> string option" where
  "ctl_e_class c =
     (if c = uc CHR ''A'' then Some ''[:alpha:]''
      else if c = uc CHR ''B'' then Some ''[:^alnum:]''
      else if c = uc CHR ''C'' then Some ''[:alnum:].$''
      else if c = uc CHR ''D'' then Some ''[:digit:]''
      else if c = uc CHR ''L'' then Some [CHR 0x0D, CHR 0x0A, CHR 0x0B, CHR 0x0C]
      else if c = uc CHR ''R'' then Some ''[:alnum:]''
      else if c = uc CHR ''V'' then Some ''[:lower:]''
      else if c = uc CHR ''W'' then Some ''[:upper:]''
      else None)"

text \<open>
  The result is the class (empty if there is none or it is incomplete), the state, the pattern left and
  the machine that parses register names.
\<close>

type_synonym class_result = "teco_error + string \<times> search_state \<times> string \<times> qs_machine"

function teco_class2regexp :: "glib \<Rightarrow> 'q registers \<Rightarrow> nat \<Rightarrow> bool \<Rightarrow> search_state \<Rightarrow> qs_machine \<Rightarrow> string \<Rightarrow> class_result" where
  "teco_class2regexp G R codepage escape_default state q [] = Inr ([], state, [], q)"
| "teco_class2regexp G R codepage escape_default state q (c # rest) =
     (if state = TECO_SEARCH_STATE_START then
        if c = ctl CHR ''S'' then Inr (''[:^alnum:]'', state, rest, q)
        else if c = ctl CHR ''E'' then teco_class2regexp G R codepage escape_default TECO_SEARCH_STATE_CTL_E q rest
        else if \<not> escape_default then Inr ([], state, c # rest, q)
        else let len = char_bytes G codepage (c # rest) in
          Inr (g_regex_escape_string G (take len (c # rest)), state, drop len (c # rest), q)
      else if state = TECO_SEARCH_STATE_CTL_E then
        (case ctl_e_class (teco_ascii_toupper (byte_char c)) of
           Some class \<Rightarrow> Inr (class, TECO_SEARCH_STATE_START, rest, q)
         | None \<Rightarrow>
             if teco_ascii_toupper (byte_char c) = uc CHR ''G''
             then teco_class2regexp G R codepage escape_default TECO_SEARCH_STATE_ANYQ q rest
             else Inr ([], state, c # rest, q))
      else if state = TECO_SEARCH_STATE_ANYQ then
        (let len = char_bytes G codepage (c # rest) in
         case teco_machine_qregspec_input G R q (char_code G codepage (c # rest)) False of
           Inl e \<Rightarrow> Inl e
         | Inr (q', reg) \<Rightarrow>
             if qs_current q' \<noteq> QS_start
             then teco_class2regexp G R codepage escape_default state q' (drop len (c # rest))
             else
               (case reg of
                  None \<Rightarrow> Inl G_assertion_failed
                | Some r \<Rightarrow>
                    (case get_string R r of
                       Inl e \<Rightarrow> Inl e
                     | Inr str \<Rightarrow> Inr (g_regex_escape_string G str, TECO_SEARCH_STATE_START, drop len (c # rest),
                         teco_machine_qregspec_reset q'))))
      else Inr ([], state, c # rest, q))"
  by pat_completeness auto
termination
  by (relation "measure (\<lambda>(_, _, _, _, _, _, pat). length pat)") (auto simp: char_bytes_def)

declare teco_class2regexp.simps(2) [simp del]

section \<open>Translation\<close>

text \<open>The byte after a caret becomes a control byte, in place.\<close>

fun ctl_head :: "glib \<Rightarrow> string \<Rightarrow> string" where
  "ctl_head G [] = []"
| "ctl_head G (c # rest) = ctl (g_ascii_toupper G c) # rest"

definition pattern_finish :: "search_state \<Rightarrow> string \<Rightarrow> qs_machine \<Rightarrow> string \<Rightarrow> teco_error + string \<times> qs_machine \<times> string" where
  "pattern_finish state re q pat =
     (let re' = re @ (if state = TECO_SEARCH_STATE_ALT then '')'' else [])
      in if CHR 0x00 \<in> set re' then Inl G_assertion_failed else Inr (re', q, pat))"

text \<open>
  A round of the loop of \<open>teco_pattern2regexp\<close> ends the function, or reaches the condition of the loop
  (by \<open>continue\<close> or at the end of the body) with new values of its variables, or first calls the function
  for a single expression, whose regular expression then comes between two strings.
\<close>

datatype round =
    Done "teco_error + string \<times> qs_machine \<times> string"
  | Again search_state string qs_machine string
  | Single search_state string string qs_machine string

definition start_round :: "string \<Rightarrow> qs_machine \<Rightarrow> char \<Rightarrow> string \<Rightarrow> round" where
  "start_round re q c rest =
     (if c = CHR ''^'' then Again TECO_SEARCH_STATE_CTL re q rest
      else if c = ctl CHR ''Q'' \<or> c = ctl CHR ''R'' then Again TECO_SEARCH_STATE_ESCAPE re q rest
      else if c = ctl CHR ''X'' then Again TECO_SEARCH_STATE_START (re @ ''.'') q rest
      else if c = ctl CHR ''N'' then Again TECO_SEARCH_STATE_NOT re q rest
      else Again TECO_SEARCH_STATE_ESCAPE re q (c # rest))"

definition ctl_e_round :: "string \<Rightarrow> qs_machine \<Rightarrow> char \<Rightarrow> string \<Rightarrow> round" where
  "ctl_e_round re q c rest =
     (let k = teco_ascii_toupper (byte_char c) in
      if k = uc CHR ''M'' then Again TECO_SEARCH_STATE_MANY re q rest
      else if k = uc CHR ''S'' then Again TECO_SEARCH_STATE_START (re @ [CHR 0x5C, CHR ''s'', CHR ''+'']) q rest
      else if k = uc CHR ''X'' then Again TECO_SEARCH_STATE_START (re @ ''.'') q rest
      else if k = uc CHR ''['' then Again TECO_SEARCH_STATE_ALT (re @ ''('') q rest
      else Done (Inl (TECO_ERROR_SYNTAX (byte_char c))))"

definition pattern_round :: "glib \<Rightarrow> 'q registers \<Rightarrow> nat \<Rightarrow> search_state \<Rightarrow> string \<Rightarrow> qs_machine \<Rightarrow> string \<Rightarrow> round" where
  "pattern_round G R codepage state0 re q0 pat0 =
     (let ctl_state = (state0 = TECO_SEARCH_STATE_CTL) in
      case teco_class2regexp G R codepage False (if ctl_state then TECO_SEARCH_STATE_START else state0) q0
          (if ctl_state then ctl_head G pat0 else pat0) of
        Inl e \<Rightarrow> Done (Inl e)
      | Inr (temp, state, pat, q) \<Rightarrow>
          if temp \<noteq> [] then
            (if state \<noteq> TECO_SEARCH_STATE_START then Done (Inl G_assertion_failed)
             else Again state (re @ ''['' @ temp @ '']'') q pat)
          else
           (case pat of
              [] \<Rightarrow> Done (pattern_finish state re q pat)
            | c # rest \<Rightarrow>
               (case state of
                  TECO_SEARCH_STATE_START \<Rightarrow> start_round re q c rest
                | TECO_SEARCH_STATE_ESCAPE \<Rightarrow>
                    (let len = char_bytes G codepage pat in
                     Again TECO_SEARCH_STATE_START (re @ g_regex_escape_string G (take len pat)) q (drop len pat))
                | TECO_SEARCH_STATE_NOT \<Rightarrow>
                    (case teco_class2regexp G R codepage True TECO_SEARCH_STATE_START q pat of
                       Inl e \<Rightarrow> Done (Inl e)
                     | Inr (temp, state, pat, q) \<Rightarrow>
                         if temp = [] then Done (Inr ([], q, pat))
                         else if state \<noteq> TECO_SEARCH_STATE_START then Done (Inl G_assertion_failed)
                         else Again state (re @ ''[^'' @ temp @ '']'') q pat)
                | TECO_SEARCH_STATE_CTL_E \<Rightarrow> ctl_e_round re q c rest
                | TECO_SEARCH_STATE_MANY \<Rightarrow> Single TECO_SEARCH_STATE_START (re @ ''(?:'') '')+'' q pat
                | TECO_SEARCH_STATE_ALT \<Rightarrow>
                    if c = CHR '','' then Again state (re @ ''|'') q rest
                    else if c = CHR '']'' then Again TECO_SEARCH_STATE_START (re @ '')'') q rest
                    else Single state re [] q pat
                | _ \<Rightarrow> Done (Inl G_assertion_failed))))"

text \<open>The fuel is for the rounds and the calls. An incomplete single expression is empty, and makes the whole empty.\<close>

fun pattern_loop :: "nat \<Rightarrow> glib \<Rightarrow> 'q registers \<Rightarrow> nat \<Rightarrow> bool \<Rightarrow> search_state \<Rightarrow> string \<Rightarrow> qs_machine \<Rightarrow> string \<Rightarrow>
    teco_error + string \<times> qs_machine \<times> string" where
  "pattern_loop 0 G R codepage single_expr state re q pat = Inl Out_of_fuel"
| "pattern_loop (Suc n) G R codepage single_expr state0 re0 q0 pat0 =
     (let again = (\<lambda>state re q pat.
            if \<not> single_expr \<or> state \<noteq> TECO_SEARCH_STATE_START
            then pattern_loop n G R codepage single_expr state re q pat else pattern_finish state re q pat) in
      case pattern_round G R codepage state0 re0 q0 pat0 of
        Done r \<Rightarrow> r
      | Again state re q pat \<Rightarrow> again state re q pat
      | Single state pre post q pat \<Rightarrow>
          (case pattern_loop n G R codepage True TECO_SEARCH_STATE_START [] q pat of
             Inl e \<Rightarrow> Inl e
           | Inr (temp, q, pat) \<Rightarrow> if temp = [] then Inr ([], q, pat) else again state (pre @ temp @ post) q pat))"

declare pattern_loop.simps(2) [simp del]

definition teco_pattern2regexp :: "glib \<Rightarrow> 'q registers \<Rightarrow> nat \<Rightarrow> bool \<Rightarrow> qs_machine \<Rightarrow> string \<Rightarrow>
    teco_error + string \<times> qs_machine \<times> string" where
  "teco_pattern2regexp G R codepage single_expr q pat =
     pattern_loop (2 * length pat + 2) G R codepage single_expr TECO_SEARCH_STATE_START [] q pat"

section \<open>Progress and termination\<close>

lemma ctl_keys [simp]:
  "ctl CHR ''E'' = CHR 0x05" "ctl CHR ''N'' = CHR 0x0E" "ctl CHR ''Q'' = CHR 0x11" "ctl CHR ''R'' = CHR 0x12"
  "ctl CHR ''S'' = CHR 0x13" "ctl CHR ''X'' = CHR 0x18"
  by (simp_all add: ctl_def char_of_def bit_0)

text \<open>A round of \<open>teco_class2regexp\<close> ends in a result, or goes on with less of the pattern.\<close>

abbreviation class_states :: "search_state set" where
  "class_states \<equiv> {TECO_SEARCH_STATE_START, TECO_SEARCH_STATE_CTL_E, TECO_SEARCH_STATE_ANYQ}"

definition class_text :: "glib \<Rightarrow> string \<Rightarrow> bool" where
  "class_text G k \<longleftrightarrow> (\<exists>str. k = g_regex_escape_string G str) \<or> k = ''[:^alnum:]'' \<or> (\<exists>c. ctl_e_class c = Some k)"

lemma class_cases:
  assumes "teco_class2regexp G R cp d st q (c # rest) = Inr (temp, st', pat', q')"
  shows "st \<in> class_states \<and> (\<exists>st2 q2 k. teco_class2regexp G R cp d st2 q2 (drop k rest) = Inr (temp, st', pat', q') \<and> st2 \<in> class_states) \<or>
    st \<in> class_states \<and> (\<exists>k. pat' = drop k rest) \<and> st' = TECO_SEARCH_STATE_START \<and> class_text G temp \<or>
    temp = [] \<and> pat' = c # rest \<and> st' = st \<and> st \<noteq> TECO_SEARCH_STATE_ANYQ"
    (is "?again \<or> ?found \<or> ?none")
proof -
  have k: "drop (char_bytes G cp (c # rest)) (c # rest) = drop (char_bytes G cp (c # rest) - 1) rest"
    by (simp add: char_bytes_def)
  have e: "class_text G (g_regex_escape_string G str)" for str by (auto simp: class_text_def)
  consider "st = TECO_SEARCH_STATE_START" | "st = TECO_SEARCH_STATE_CTL_E" | "st = TECO_SEARCH_STATE_ANYQ"
    | "st \<notin> class_states" by blast
  then show ?thesis
  proof cases
    case 1
    consider "c = CHR 0x13" | "c = CHR 0x05" | "c \<noteq> CHR 0x13" "c \<noteq> CHR 0x05" by blast
    then show ?thesis
    proof cases
      case a: 1
      then have ?found using assms 1 by (auto simp: teco_class2regexp.simps(2) class_text_def intro: exI [of _ 0])
      then show ?thesis by blast
    next
      case 2
      then have "teco_class2regexp G R cp d TECO_SEARCH_STATE_CTL_E q (drop 0 rest) = Inr (temp, st', pat', q')"
        using assms 1 by (simp add: teco_class2regexp.simps(2))
      then show ?thesis using 1 by blast
    next
      case 3
      then show ?thesis using assms 1 by (cases d) (auto simp: teco_class2regexp.simps(2) Let_def k e)
    qed
  next
    case 2
    show ?thesis
    proof (cases "ctl_e_class (teco_ascii_toupper (byte_char c))")
      case None
      show ?thesis
      proof (cases "teco_ascii_toupper (byte_char c) = uc CHR ''G''")
        case True
        then have "teco_class2regexp G R cp d TECO_SEARCH_STATE_ANYQ q (drop 0 rest) = Inr (temp, st', pat', q')"
          using assms 2 None by (simp add: teco_class2regexp.simps(2))
        then show ?thesis using 2 by blast
      qed (use assms 2 None in \<open>simp add: teco_class2regexp.simps(2)\<close>)
    next
      case (Some t)
      then have ?found using assms 2 by (auto simp: teco_class2regexp.simps(2) class_text_def intro: exI [of _ 0])
      then show ?thesis by blast
    qed
  next
    case 3
    let ?in = "teco_machine_qregspec_input G R q (char_code G cp (c # rest)) False"
    obtain q2 reg where i: "?in = Inr (q2, reg)"
      using assms 3 by (auto simp: teco_class2regexp.simps(2) Let_def split: sum.splits)
    show ?thesis
    proof (cases "qs_current q2 = QS_start")
      case False
      then show ?thesis using assms 3 i by (auto simp: teco_class2regexp.simps(2) Let_def k)
    next
      case True
      then have ?found using assms 3 i e
        by (auto simp: teco_class2regexp.simps(2) Let_def k split: option.splits sum.splits)
      then show ?thesis by blast
    qed
  next
    case 4
    then show ?thesis using assms by (simp add: teco_class2regexp.simps(2))
  qed
qed

lemma class_result:
  assumes "teco_class2regexp G R cp d st q pat = Inr (temp, st', pat', q')"
  shows "length pat' \<le> length pat" "temp \<noteq> [] \<Longrightarrow> length pat' < length pat \<and> st' = TECO_SEARCH_STATE_START \<and> class_text G temp"
    "st \<in> class_states \<Longrightarrow> st' \<in> class_states" "st \<notin> class_states \<Longrightarrow> st' = st \<and> temp = [] \<and> pat' = pat"
    "st' = TECO_SEARCH_STATE_ANYQ \<Longrightarrow> pat' = []"
proof -
  have "length pat' \<le> length pat \<and> (temp \<noteq> [] \<longrightarrow> length pat' < length pat \<and> st' = TECO_SEARCH_STATE_START \<and> class_text G temp) \<and>
    (if st \<in> class_states then st' \<in> class_states else st' = st \<and> temp = [] \<and> pat' = pat) \<and>
    (st' = TECO_SEARCH_STATE_ANYQ \<longrightarrow> pat' = [])"
    using assms
  proof (induction "length pat" arbitrary: st q pat rule: less_induct)
    case less
    show ?case
    proof (cases pat)
      case (Cons c rest)
      from class_cases [OF less.prems [unfolded Cons]] show ?thesis
      proof (elim disjE conjE exE)
        fix st2 q2 k
        assume a: "teco_class2regexp G R cp d st2 q2 (drop k rest) = Inr (temp, st', pat', q')" and b: "st2 \<in> class_states" "st \<in> class_states"
        have "length (drop k rest) < length pat" by (simp add: Cons)
        from less.hyps [OF this a] b show ?thesis by (simp add: Cons) linarith
      qed (auto simp: Cons)
    qed (use less.prems in auto)
  qed
  then show "length pat' \<le> length pat" "temp \<noteq> [] \<Longrightarrow> length pat' < length pat \<and> st' = TECO_SEARCH_STATE_START \<and> class_text G temp"
    "st \<in> class_states \<Longrightarrow> st' \<in> class_states" "st \<notin> class_states \<Longrightarrow> st' = st \<and> temp = [] \<and> pat' = pat"
    "st' = TECO_SEARCH_STATE_ANYQ \<Longrightarrow> pat' = []"
    by presburger+
qed

section \<open>The rounds\<close>

text \<open>
  The regular expressions that patterns are translated to: sequences of complete elements. What GLib escapes
  stands for itself.
\<close>

inductive regexp_elem :: "glib \<Rightarrow> string \<Rightarrow> bool"
  and regexp_seq :: "glib \<Rightarrow> string \<Rightarrow> bool"
  and regexp_alts :: "glib \<Rightarrow> string \<Rightarrow> bool"
  for G where
  any: "regexp_elem G ''.''"
| spaces: "regexp_elem G [CHR 0x5C, CHR ''s'', CHR ''+'']"
| literal: "regexp_elem G (g_regex_escape_string G str)"
| of_class: "class_text G k \<Longrightarrow> k \<noteq> [] \<Longrightarrow> regexp_elem G (''['' @ k @ '']'')"
| not_class: "class_text G k \<Longrightarrow> k \<noteq> [] \<Longrightarrow> regexp_elem G (''[^'' @ k @ '']'')"
| many: "regexp_seq G w \<Longrightarrow> w \<noteq> [] \<Longrightarrow> regexp_elem G (''(?:'' @ w @ '')+'')"
| group: "regexp_alts G w \<Longrightarrow> regexp_elem G (''('' @ w @ '')'')"
| seq_nil: "regexp_seq G []"
| seq_elem: "regexp_seq G u \<Longrightarrow> regexp_elem G w \<Longrightarrow> regexp_seq G (u @ w)"
| alts_nil: "regexp_alts G []"
| alts_seq: "regexp_alts G u \<Longrightarrow> regexp_seq G w \<Longrightarrow> regexp_alts G (u @ w)"
| alts_bar: "regexp_alts G u \<Longrightarrow> regexp_alts G (u @ ''|'')"

text \<open>The fuel that is enough from a state on.\<close>

fun pattern_fuel :: "search_state \<Rightarrow> nat \<Rightarrow> nat" where
  "pattern_fuel TECO_SEARCH_STATE_ESCAPE len = max 1 (2 * len)"
| "pattern_fuel TECO_SEARCH_STATE_START len = 2 * len + 1"
| "pattern_fuel TECO_SEARCH_STATE_CTL len = 2 * len + 1"
| "pattern_fuel TECO_SEARCH_STATE_NOT len = 2 * len + 1"
| "pattern_fuel _ len = 2 * len + 2"

text \<open>The states in which a round begins.\<close>

abbreviation round_states :: "search_state set" where
  "round_states \<equiv> {TECO_SEARCH_STATE_START, TECO_SEARCH_STATE_CTL, TECO_SEARCH_STATE_ESCAPE, TECO_SEARCH_STATE_NOT,
     TECO_SEARCH_STATE_MANY, TECO_SEARCH_STATE_ALT}"

text \<open>What a round that goes on from \<open>st0\<close> to \<open>st\<close> adds to the regular expression.\<close>

definition round_adds :: "glib \<Rightarrow> search_state \<Rightarrow> search_state \<Rightarrow> string \<Rightarrow> bool" where
  "round_adds G st0 st w \<longleftrightarrow>
     (if st0 = TECO_SEARCH_STATE_ALT
      then w = ''|'' \<and> st = TECO_SEARCH_STATE_ALT \<or> w = '')'' \<and> st = TECO_SEARCH_STATE_START
      else w = [] \<and> st \<noteq> TECO_SEARCH_STATE_ALT \<or> regexp_elem G w \<and> st = TECO_SEARCH_STATE_START \<or>
        w = ''('' \<and> st = TECO_SEARCH_STATE_ALT)"

fun round_ok :: "glib \<Rightarrow> search_state \<Rightarrow> string \<Rightarrow> string \<Rightarrow> round \<Rightarrow> bool" where
  "round_ok G st0 re0 pat0 (Done r) \<longleftrightarrow>
     (case r of Inl e \<Rightarrow> True
      | Inr (re, q, pat) \<Rightarrow> length pat \<le> length pat0 \<and> (re = [] \<or> re = re0 @ (if st0 = TECO_SEARCH_STATE_ALT then '')'' else [])))"
| "round_ok G st0 re0 pat0 (Again st re q pat) \<longleftrightarrow>
     st \<in> round_states \<and> length pat \<le> length pat0 \<and> pattern_fuel st (length pat) < pattern_fuel st0 (length pat0) \<and>
     (length pat = length pat0 \<longrightarrow> st0 \<noteq> TECO_SEARCH_STATE_ESCAPE \<and> st = TECO_SEARCH_STATE_ESCAPE \<and> pat \<noteq> [] \<and> re = re0) \<and>
     (\<exists>w. re = re0 @ w \<and> round_adds G st0 st w)"
| "round_ok G st0 re0 pat0 (Single st pre post q pat) \<longleftrightarrow>
     pat = pat0 \<and> pat \<noteq> [] \<and>
     (st0 = TECO_SEARCH_STATE_MANY \<and> st = TECO_SEARCH_STATE_START \<and> pre = re0 @ ''(?:'' \<and> post = '')+'' \<or>
      st0 = TECO_SEARCH_STATE_ALT \<and> st = TECO_SEARCH_STATE_ALT \<and> pre = re0 \<and> post = [])"

lemma length_ctl_head [simp]: "length (ctl_head G pat) = length pat"
  by (cases pat) simp_all

lemma finish_ok:
  "length pat \<le> length pat0 \<Longrightarrow> (state = TECO_SEARCH_STATE_ALT \<longleftrightarrow> st0 = TECO_SEARCH_STATE_ALT) \<Longrightarrow>
    round_ok G st0 re pat0 (Done (pattern_finish state re q pat))"
  by (simp add: pattern_finish_def Let_def)

lemma start_round_ok:
  "st0 \<in> {TECO_SEARCH_STATE_START, TECO_SEARCH_STATE_CTL} \<Longrightarrow> Suc (length rest) \<le> length pat0 \<Longrightarrow>
    round_ok G st0 re pat0 (start_round re q c rest)"
  by (auto simp: start_round_def round_adds_def intro: any)

lemma ctl_e_round_ok:
  "st0 \<in> {TECO_SEARCH_STATE_START, TECO_SEARCH_STATE_CTL} \<Longrightarrow> Suc (length rest) \<le> length pat0 \<Longrightarrow>
    round_ok G st0 re pat0 (ctl_e_round re q c rest)"
  by (auto simp: ctl_e_round_def Let_def round_adds_def intro: any spaces)

lemma round:
  assumes "st0 \<in> round_states"
  shows "round_ok G st0 re pat0 (pattern_round G R cp st0 re q0 pat0)"
proof (cases "st0 \<in> {TECO_SEARCH_STATE_START, TECO_SEARCH_STATE_CTL}")
  case st0: True
  let ?pat0 = "if st0 = TECO_SEARCH_STATE_CTL then ctl_head G pat0 else pat0"
  have s: "(if st0 = TECO_SEARCH_STATE_CTL then TECO_SEARCH_STATE_START else st0) = TECO_SEARCH_STATE_START"
    using st0 by auto
  have e: "pattern_round G R cp st0 re q0 pat0 = (case teco_class2regexp G R cp False TECO_SEARCH_STATE_START q0 ?pat0 of
      Inl e \<Rightarrow> Done (Inl e) | Inr (temp, st, pat, q) \<Rightarrow>
        if temp \<noteq> [] then Again TECO_SEARCH_STATE_START (re @ ''['' @ temp @ '']'') q pat
        else if pat = [] then Done (pattern_finish st re q pat)
        else if st = TECO_SEARCH_STATE_START then start_round re q (hd pat) (tl pat)
        else ctl_e_round re q (hd pat) (tl pat))"
  proof (cases "teco_class2regexp G R cp False TECO_SEARCH_STATE_START q0 ?pat0")
    case (Inr r)
    obtain temp st pat q where r: "r = (temp, st, pat, q)" by (cases r)
    note c = class_result(2,3,5) [OF Inr [unfolded r]]
    then have "st = TECO_SEARCH_STATE_START \<or> st = TECO_SEARCH_STATE_CTL_E \<or> st = TECO_SEARCH_STATE_ANYQ \<and> pat = []" by auto
    then show ?thesis using s c(1) Inr by (auto simp: pattern_round_def Let_def r split: list.split)
  qed (use s in \<open>simp add: pattern_round_def Let_def\<close>)
  show ?thesis
  proof (cases "teco_class2regexp G R cp False TECO_SEARCH_STATE_START q0 ?pat0")
    case (Inr r)
    obtain temp st pat q where r: "r = (temp, st, pat, q)" by (cases r)
    note c = class_result [OF Inr [unfolded r]]
    have l: "length pat \<le> length pat0" using c(1) by (simp split: if_splits)
    show ?thesis
    proof (cases "temp = []")
      case False
      then have "length pat < length pat0" "class_text G temp" using c(2) by (simp_all split: if_splits)
      then show ?thesis using False st0 Inr r by (auto simp: e round_adds_def intro!: of_class [simplified])
    next
      case True
      show ?thesis
      proof (cases pat)
        case Nil
        then show ?thesis using True Inr r c(3) st0 by (auto simp: e simp del: round_ok.simps intro!: finish_ok)
      next
        case (Cons c rest)
        then show ?thesis using True Inr r st0 l by (simp add: e start_round_ok ctl_e_round_ok)
      qed
    qed
  qed (simp add: e)
next
  case False
  then have c: "teco_class2regexp G R cp False st0 q0 pat0 = Inr ([], st0, pat0, q0)"
    using assms by (cases pat0) (auto simp: teco_class2regexp.simps(2))
  have s: "st0 = TECO_SEARCH_STATE_ESCAPE \<or> st0 = TECO_SEARCH_STATE_NOT \<or> st0 = TECO_SEARCH_STATE_MANY \<or> st0 = TECO_SEARCH_STATE_ALT"
    using assms False by auto
  show ?thesis
  proof (cases pat0)
    case Nil
    then show ?thesis using s c by (auto simp: pattern_round_def finish_ok simp del: round_ok.simps)
  next
    case (Cons ch rest)
    show ?thesis
    proof (cases "st0 = TECO_SEARCH_STATE_NOT")
      case False
      have k: "0 < char_bytes G cp pat0" by (simp add: char_bytes_def)
      then have "length (drop (char_bytes G cp pat0) pat0) < length pat0" using Cons by simp
      then show ?thesis using s c Cons False literal [of G "take (char_bytes G cp pat0) pat0"]
        by (elim disjE) (simp_all add: pattern_round_def Let_def round_adds_def)
    next
      case True
      show ?thesis
      proof (cases "teco_class2regexp G R cp True TECO_SEARCH_STATE_START q0 pat0")
        case (Inr r)
        obtain temp st pat q where r: "r = (temp, st, pat, q)" by (cases r)
        note d = class_result [OF Inr [unfolded r]]
        then show ?thesis using True c Cons Inr r
          by (auto simp: pattern_round_def round_adds_def intro!: not_class [simplified])
      qed (use True c Cons in \<open>simp add: pattern_round_def\<close>)
    qed
  qed
qed


section \<open>Theorems on patterns\<close>

lemma finish_result: "pattern_finish st re q pat = Inr (re', q', pat') \<Longrightarrow>
    re' = re @ (if st = TECO_SEARCH_STATE_ALT then '')'' else []) \<and> pat' = pat"
  by (simp add: pattern_finish_def Let_def split: if_splits)

text \<open>The function takes something from the pattern for every non-empty result.\<close>

lemma loop_consumes:
  assumes "pattern_loop n G R cp sg st re q pat = Inr (re', q', pat')" "st \<in> round_states"
  shows "length pat' \<le> length pat"
    "st = TECO_SEARCH_STATE_START \<Longrightarrow> re = [] \<Longrightarrow> re' \<noteq> [] \<Longrightarrow> length pat' < length pat"
    "st = TECO_SEARCH_STATE_ESCAPE \<Longrightarrow> pat \<noteq> [] \<Longrightarrow> length pat' < length pat"
proof -
  have "length pat' \<le> length pat \<and> (st = TECO_SEARCH_STATE_START \<and> re = [] \<and> re' \<noteq> [] \<or> st = TECO_SEARCH_STATE_ESCAPE \<and> pat \<noteq> [] \<longrightarrow>
      length pat' < length pat)"
    using assms
  proof (induction n arbitrary: sg st re q pat re' q' pat')
    case (Suc n)
    have again: "length pat' \<le> length p \<and> (st2 = TECO_SEARCH_STATE_ESCAPE \<and> p \<noteq> [] \<longrightarrow> length pat' < length p)"
      if "(if \<not> sg \<or> st2 \<noteq> TECO_SEARCH_STATE_START then pattern_loop n G R cp sg st2 re2 q2 p
           else pattern_finish st2 re2 q2 p) = Inr (re', q', pat')" "st2 \<in> round_states" for st2 re2 q2 p
      using that Suc.IH [of sg st2 re2 q2 p re' q' pat'] by (auto dest: finish_result split: if_splits)
    note ok = round [OF Suc.prems(2), of G re pat R cp q]
    show ?case
    proof (cases "pattern_round G R cp st re q pat")
      case (Done r)
      then have "r = Inr (re', q', pat')" using Suc.prems(1) by (simp add: pattern_loop.simps(2))
      moreover have "pattern_round G R cp TECO_SEARCH_STATE_ESCAPE re q pat \<noteq> Done r" if "pat \<noteq> []"
        using that by (cases pat) (simp_all add: pattern_round_def teco_class2regexp.simps(2) Let_def)
      ultimately show ?thesis using ok Done by auto
    next
      case (Again st2 re2 q2 p)
      then have "length pat' \<le> length p \<and> (st2 = TECO_SEARCH_STATE_ESCAPE \<and> p \<noteq> [] \<longrightarrow> length pat' < length p)"
        using Suc.prems(1) ok by (intro again) (auto simp: pattern_loop.simps(2))
      then show ?thesis using ok unfolding Again round_ok.simps by linarith
    next
      case (Single st2 pre post q2 p)
      obtain temp q3 p3 where i: "pattern_loop n G R cp True TECO_SEARCH_STATE_START [] q2 p = Inr (temp, q3, p3)"
        using Suc.prems(1) by (auto simp: pattern_loop.simps(2) Single Let_def split: sum.splits)
      have "length p3 \<le> length p" using Suc.IH [OF i] by simp
      moreover have "length pat' \<le> length p3"
        using Suc.prems(1) i again [of st2 "pre @ temp @ post" q3 p3] ok
        by (auto simp: pattern_loop.simps(2) Single Let_def split: if_splits)
      ultimately show ?thesis using ok by (auto simp: Single)
    qed
  qed simp
  then show "length pat' \<le> length pat"
    "st = TECO_SEARCH_STATE_START \<Longrightarrow> re = [] \<Longrightarrow> re' \<noteq> [] \<Longrightarrow> length pat' < length pat"
    "st = TECO_SEARCH_STATE_ESCAPE \<Longrightarrow> pat \<noteq> [] \<Longrightarrow> length pat' < length pat"
    by simp_all
qed



definition answers :: "teco_error + 'a \<Rightarrow> bool" where
  "answers r \<longleftrightarrow> r \<noteq> Inl Out_of_fuel"

lemma answers_simps [simp]: "answers (Inr x)" "answers (Inl e) \<longleftrightarrow> e \<noteq> Out_of_fuel"
  by (simp_all add: answers_def)

















text \<open>The regular expression of a state: within an alternative its group is still open.\<close>

definition regexp_so_far :: "glib \<Rightarrow> search_state \<Rightarrow> string \<Rightarrow> bool" where
  "regexp_so_far G st re \<longleftrightarrow>
     (if st = TECO_SEARCH_STATE_ALT then \<exists>u v. re = u @ ''('' @ v \<and> regexp_seq G u \<and> regexp_alts G v else regexp_seq G re)"

lemma close_alternative:
  assumes "regexp_so_far G TECO_SEARCH_STATE_ALT re"
  shows "regexp_seq G (re @ '')'')"
proof -
  obtain u v where "re = u @ ''('' @ v" "regexp_seq G u" "regexp_alts G v" using assms by (auto simp: regexp_so_far_def)
  then show ?thesis using seq_elem [OF _ group, of G u v] by simp
qed

lemma grow_alternative:
  assumes "regexp_so_far G TECO_SEARCH_STATE_ALT re" "\<And>v. regexp_alts G v \<Longrightarrow> regexp_alts G (v @ w)"
  shows "regexp_so_far G TECO_SEARCH_STATE_ALT (re @ w)"
  using assms by (fastforce simp: regexp_so_far_def)

lemma so_far_adds: "regexp_so_far G st0 re \<Longrightarrow> round_adds G st0 st w \<Longrightarrow> regexp_so_far G st (re @ w)"
proof (cases "st0 = TECO_SEARCH_STATE_ALT")
  case True
  assume "regexp_so_far G st0 re" "round_adds G st0 st w"
  then show ?thesis using True close_alternative [of G re] grow_alternative [of G re "''|''"] alts_bar
    by (auto simp: round_adds_def regexp_so_far_def [of G TECO_SEARCH_STATE_START])
next
  case False
  assume "regexp_so_far G st0 re" "round_adds G st0 st w"
  then show ?thesis using False alts_nil
    by (auto simp: round_adds_def regexp_so_far_def intro: seq_elem)
qed

lemma finish_seq: "pattern_finish st re q pat = Inr (re', q', pat') \<Longrightarrow> regexp_so_far G st re \<Longrightarrow> regexp_seq G re'"
  using close_alternative [of G re] finish_result [of st re q pat re' q' pat']
  by (cases "st = TECO_SEARCH_STATE_ALT") (simp_all add: regexp_so_far_def [of G st])

lemma loop_seq:
  "pattern_loop n G R cp sg st re q pat = Inr (re', q', pat') \<Longrightarrow> st \<in> round_states \<Longrightarrow> regexp_so_far G st re \<Longrightarrow> regexp_seq G re'"
proof (induction n arbitrary: sg st re q pat re' q' pat')
  case (Suc n)
  have again: "regexp_seq G re'"
    if "(if \<not> sg \<or> st2 \<noteq> TECO_SEARCH_STATE_START then pattern_loop n G R cp sg st2 re2 q2 p
         else pattern_finish st2 re2 q2 p) = Inr (re', q', pat')" "st2 \<in> round_states" "regexp_so_far G st2 re2" for st2 re2 q2 p
    using that Suc.IH finish_seq by (simp split: if_splits)
  note ok = round [OF Suc.prems(2), of G re pat R cp q]
  show ?case
  proof (cases "pattern_round G R cp st re q pat")
    case (Done r)
    then have "re' = [] \<or> re' = re @ (if st = TECO_SEARCH_STATE_ALT then '')'' else [])"
      using Suc.prems(1) ok by (simp add: pattern_loop.simps(2))
    then show ?thesis using Suc.prems(3) close_alternative by (auto simp: regexp_so_far_def intro: seq_nil split: if_splits)
  next
    case (Again st2 re2 q2 p)
    obtain w where "re2 = re @ w" "round_adds G st st2 w" using ok by (auto simp: Again)
    then have "regexp_so_far G st2 re2" using Suc.prems(3) so_far_adds by blast
    then show ?thesis using Suc.prems(1) ok by (intro again [of st2 re2 q2 p]) (auto simp: Again pattern_loop.simps(2))
  next
    case (Single st2 pre post q2 p)
    obtain temp q3 p3 where i: "pattern_loop n G R cp True TECO_SEARCH_STATE_START [] q2 p = Inr (temp, q3, p3)"
      using Suc.prems(1) by (auto simp: pattern_loop.simps(2) Single Let_def split: sum.splits)
    have "regexp_seq G temp"
      using Suc.IH [OF i] by (simp add: regexp_so_far_def seq_nil)
    moreover have "regexp_seq G (re @ ''(?:'' @ temp @ '')+'')" if "temp \<noteq> []" "regexp_seq G re"
      using seq_elem [OF that(2) many [OF \<open>regexp_seq G temp\<close> that(1)]] by simp
    ultimately have "regexp_so_far G st2 (pre @ temp @ post)" if "temp \<noteq> []"
      using that ok Suc.prems(3) grow_alternative [of G re temp] alts_seq
      by (auto simp: Single regexp_so_far_def [of G TECO_SEARCH_STATE_START] regexp_so_far_def [of G TECO_SEARCH_STATE_MANY])
    then show ?thesis using Suc.prems(1) i again [of st2 "pre @ temp @ post" q3 p3] ok
      by (auto simp: pattern_loop.simps(2) Single Let_def intro: seq_nil split: if_splits)
  qed
qed simp

text \<open>
  C36: Whatever a search pattern contains, complete or not, its translation is a sequence of complete
  elements of regular expressions: every group is closed, classes and repeated expressions are not empty, and characters
  of the pattern and of registers only appear as GLib escapes them.
\<close>

theorem pattern_complete:
  "case teco_pattern2regexp G R codepage single_expr q pat of
     Inl e \<Rightarrow> True | Inr (re, q', pat') \<Rightarrow> regexp_seq G re \<and> length pat' \<le> length pat"
proof (cases "teco_pattern2regexp G R codepage single_expr q pat")
  case (Inr r)
  obtain re q' pat' where r: "r = (re, q', pat')" by (cases r)
  note l = Inr [unfolded r teco_pattern2regexp_def]
  show ?thesis using loop_seq [OF l] loop_consumes(1) [OF l] by (simp add: Inr r regexp_so_far_def seq_nil)
qed simp

end
