(* ===== verification/Search_Commands.thy ===== *)
theory Search_Commands
  imports Insert_Commands Search
begin

text \<open>
  The search and replace commands (\<open>src/search.c\<close>): the search parameters that a command sets before its pattern is
  known, the search for the pattern, forwards, backwards and through the ring of buffers, and what the commands do with
  what was found.
\<close>

section \<open>Regular expressions\<close>

text \<open>
  GLib's regular expressions are a parameter. Matching a text gives the matches in the order in which
  \<open>g_match_info_next\<close> reports them, each with the positions of its subpatterns (negative for those that did not
  match), and the error with which the iteration ends, if any. \<open>teco_memory_check\<close> is the function of
  \<open>src/memory.c\<close> that refuses a request.
\<close>

record regex_flags =
  re_caseless :: bool
  re_anchored :: bool
  re_raw :: bool

type_synonym match = "(int \<times> int) list"

record 're regex =
  g_regex_new :: "string \<Rightarrow> regex_flags \<Rightarrow> 're option"
  g_regex_match :: "'re \<Rightarrow> string \<Rightarrow> match list \<times> teco_error option"
  teco_memory_check :: "nat \<Rightarrow> teco_error option"

definition teco_get_ranges :: "match \<Rightarrow> int \<Rightarrow> (int \<times> int) list" where
  "teco_get_ranges m offset = map (\<lambda>(from, to). (offset + max from 0, offset + max to 0)) m"

text \<open>
  The loops of \<open>teco_do_search\<close>. The count is an \<open>int\<close>: it would take \<open>2 ^ 31\<close> matches to overflow it.
  A count of 0 gets negative with the first match. A failed match has no ranges.
\<close>

fun forward_loop :: "int \<Rightarrow> match list \<Rightarrow> teco_error option \<Rightarrow> teco_error + int \<times> match" where
  "forward_loop count [] err = Inr (count, [])"
| "forward_loop count (m # ms) err =
     (if count - 1 = 0 then Inr (0, m)
      else case (ms, err) of ([], Some e) \<Rightarrow> Inl e | _ \<Rightarrow> forward_loop (count - 1) ms err)"

text \<open>The last \<open>n\<close> matches are in a circular buffer, initially without any ranges.\<close>

fun backward_loop :: "nat \<Rightarrow> match list \<Rightarrow> nat \<Rightarrow> nat \<Rightarrow> match list \<Rightarrow> teco_error option \<Rightarrow> teco_error + match list \<times> nat \<times> nat" where
  "backward_loop n matched i seen [] err = Inr (matched, i, seen)"
| "backward_loop n matched i seen (m # ms) err =
     (let matched' = matched[i := m] in
      case (ms, err) of ([], Some e) \<Rightarrow> Inl e
      | _ \<Rightarrow> backward_loop n matched' (Suc seen mod n) (Suc seen) ms err)"

text \<open>The structures with the matches have 16 bytes on 64-bit systems.\<close>

definition find_match :: "'re regex \<Rightarrow> int \<Rightarrow> match list \<times> teco_error option \<Rightarrow> teco_error + int \<times> match" where
  "find_match RX count = (\<lambda>(ms, err).
     case (ms, err) of ([], Some e) \<Rightarrow> Inl e
     | _ \<Rightarrow>
       if 0 \<le> count then forward_loop count ms err
       else
         (case teco_memory_check RX (16 * nat (- count)) of
            Some e \<Rightarrow> Inl e
          | None \<Rightarrow>
              (case backward_loop (nat (- count)) (replicate (nat (- count)) []) 0 0 ms err of
                 Inl e \<Rightarrow> Inl e
               | Inr (matched, i, seen) \<Rightarrow>
                   let c = min (count + int seen) 0 in Inr (c, if c = 0 then matched ! i else []))))"

text \<open>
  The ranges are stored in bytes first and are converted after the selection was set, which does not
  change the text. The result is the count that is left.
\<close>

definition teco_do_search :: "'v scintilla \<Rightarrow> 're regex \<Rightarrow> 're \<Rightarrow> int \<Rightarrow> int \<Rightarrow> int \<Rightarrow> ('v, int) em" where
  "teco_do_search S RX re from_pos to_pos count =
     bindM (ssm_get (\<lambda>w. find_match RX count (g_regex_match RX re (sci_range_pointer S w from_pos (to_pos - from_pos))))) (\<lambda>r.
     bindM (from_sum r) (\<lambda>(c, m).
       case teco_get_ranges m from_pos of
         [] \<Rightarrow> ret c
       | (a, b) # _ \<Rightarrow>
           thenM (ssm (sci_set_sel S a b))
          (bindM (ssm_get (\<lambda>w. map (\<lambda>(x, y). (teco_view_bytes2glyphs S w x, teco_view_bytes2glyphs S w y)) (teco_get_ranges m from_pos)))
            (\<lambda>ranges. thenM (set_ranges (\<lambda>_. ranges)) (ret c)))))"

section \<open>Before the pattern\<close>

definition set_parameters :: "(search_parameters \<Rightarrow> search_parameters) \<Rightarrow> ('v, unit) em" where
  "set_parameters f = modify (\<lambda>(s, e). (s, e\<lparr>teco_search_parameters := f (teco_search_parameters e)\<rparr>))"

definition search_start :: "'v scintilla \<Rightarrow> ('v, unit) em" where
  "search_start S =
     bindM (ssm_get (teco_view_get_codepage S)) (\<lambda>cp.
       thenM (interp (teco_machine_stringbuilding_set_codepage cp))
      (thenM (editor_push (\<lambda>e. Undo_search_parameters (teco_search_parameters e)))
      (bindM (ssm_get (sci_current_pos S)) (\<lambda>pos. set_parameters (\<lambda>p. p\<lparr>sp_dot := pos\<rparr>)))))"

text \<open>\<open>(gint)v2\<close>\<close>

definition gint_of :: "teco_int \<Rightarrow> int" where
  "gint_of v = sint (ucast v :: 32 word)"

definition teco_state_search_initial :: "'v scintilla \<Rightarrow> ('v, unit) em" where
  "teco_state_search_initial S =
     bindM (interp (gets executing)) (\<lambda>normal. whenM normal
      (thenM (search_start S)
      (bindM pop_num_calc_sign (\<lambda>v2.
       bindM (interp (gets teco_expressions_args)) (\<lambda>args.
         thenM
          (if args \<noteq> 0 then
             bindM (interp (teco_expressions_pop_num 0)) (\<lambda>v1.
             bindM (ssm_get (\<lambda>w. (teco_view_glyphs2bytes S w (if sint v1 \<le> sint v2 then v1 else v2),
                 teco_view_glyphs2bytes S w (if sint v1 \<le> sint v2 then v2 else v1)))) (\<lambda>(a, b).
               thenM (set_parameters (\<lambda>p. p\<lparr>sp_count := (if sint v1 \<le> sint v2 then 1 else - 1), sp_from := a, sp_to := b\<rparr>))
                 (whenM (a < 0 \<or> b < 0) (throw (TECO_ERROR_RANGE ''S'')))))
           else
             bindM (ssm_get (sci_length S)) (\<lambda>len.
               set_parameters (\<lambda>p. if 0 \<le> sint v2 then p\<lparr>sp_count := gint_of v2, sp_from := sp_dot p, sp_to := len\<rparr>
                 else p\<lparr>sp_count := gint_of v2, sp_from := 0, sp_to := sp_dot p\<rparr>)))
          (bindM (gets (\<lambda>(s, e). if teco_qreg_current s \<noteq> None then None else Some (teco_ring_current e))) (\<lambda>b.
             set_parameters (\<lambda>p. p\<lparr>sp_from_buffer := b, sp_to_buffer := None\<rparr>))))))))"

definition teco_state_search_all_initial :: "'v scintilla \<Rightarrow> ('v, unit) em" where
  "teco_state_search_all_initial S =
     bindM (interp (gets executing)) (\<lambda>normal. whenM normal
      (thenM (search_start S)
      (bindM pop_num_calc_sign (\<lambda>v2.
       bindM (interp (gets teco_expressions_args)) (\<lambda>args.
         thenM
          (if args \<noteq> 0 then
             bindM (interp (teco_expressions_pop_num 0)) (\<lambda>v1.
             bindM (gets (\<lambda>(s, e). (teco_ring_find_by_id e (if sint v1 \<le> sint v2 then v1 else v2),
                 teco_ring_find_by_id e (if sint v1 \<le> sint v2 then v2 else v1)))) (\<lambda>(a, b).
               thenM (set_parameters (\<lambda>p. p\<lparr>sp_count := (if sint v1 \<le> sint v2 then 1 else - 1), sp_from_buffer := a, sp_to_buffer := b\<rparr>))
                 (whenM (a = None \<or> b = None) (throw (TECO_ERROR_RANGE ''N'')))))
           else
             bindM (gets (\<lambda>(s, e). if teco_qreg_current s \<noteq> None then None else Some (teco_ring_current e))) (\<lambda>b.
               set_parameters (\<lambda>p. p\<lparr>sp_count := gint_of v2, sp_from_buffer := b, sp_to_buffer := b\<rparr>)))
          (bindM (ssm_get (sci_length S)) (\<lambda>len.
             set_parameters (\<lambda>p. if 0 \<le> sp_count p then p\<lparr>sp_from := sp_dot p, sp_to := len\<rparr>
               else p\<lparr>sp_from := 0, sp_to := sp_dot p\<rparr>))))))))"

section \<open>Searching\<close>

text \<open>
  Through the ring from the buffer after (or before) \<open>b\<close> to the last one to be searched, which is searched up to
  (or from) the old position of the pointer only. The two loops of the code differ in the direction. The result is the last buffer
  and the count that is left; fuel is the number of buffers.
\<close>

definition ring_step :: "'v editor \<Rightarrow> bool \<Rightarrow> nat \<Rightarrow> nat" where
  "ring_step e forward b =
     (if forward then (case teco_buffer_next e b of Some c \<Rightarrow> c | None \<Rightarrow> 0)
      else (case teco_buffer_prev b of Some c \<Rightarrow> c | None \<Rightarrow> ring_size e - 1))"

definition search_buffer :: "'v scintilla \<Rightarrow> 're regex \<Rightarrow> 're \<Rightarrow> bool \<Rightarrow> int \<Rightarrow> bool \<Rightarrow> nat \<Rightarrow> int \<Rightarrow> ('v, int) em" where
  "search_buffer S RX re forward dot last_one b count =
     thenM (teco_buffer_edit b)
      (if last_one \<and> forward then teco_do_search S RX re 0 dot count
       else bindM (ssm_get (sci_length S)) (\<lambda>len. teco_do_search S RX re (if last_one then dot else 0) len count))"

fun ring_search :: "nat \<Rightarrow> 'v scintilla \<Rightarrow> 're regex \<Rightarrow> 're \<Rightarrow> bool \<Rightarrow> int \<Rightarrow> nat \<Rightarrow> nat \<Rightarrow> int \<Rightarrow> ('v, nat \<times> int) em" where
  "ring_search 0 S RX re forward dot to_buf b count = throw Out_of_fuel"
| "ring_search (Suc n) S RX re forward dot to_buf b count =
     bindM (gets (\<lambda>(s, e). ring_step e forward b)) (\<lambda>c.
     bindM (search_buffer S RX re forward dot (c = to_buf) c count) (\<lambda>count.
       if c = to_buf \<or> count = 0 then ret (c, count) else ring_search n S RX re forward dot to_buf c count))"

definition search_reg :: qreg_ref where
  "search_reg = (Globals, ''_'')"

text \<open>A missing \<open>from_buffer\<close> would be a null pointer; it is only missing while a register is edited.\<close>

definition edit_first_buffer :: "('v, unit) em" where
  "edit_first_buffer =
     bindM (gets (\<lambda>(s, e). teco_qreg_current s = None \<and> sp_from_buffer (teco_search_parameters e) \<noteq> Some (teco_ring_current e))) (\<lambda>other.
       whenM other
        (thenM teco_ring_undo_edit
        (bindM (gets (\<lambda>(s, e). sp_from_buffer (teco_search_parameters e))) (\<lambda>b.
           case b of None \<Rightarrow> throw G_assertion_failed | Some b \<Rightarrow> teco_buffer_edit b))))"

definition search_others :: "'v scintilla \<Rightarrow> 're regex \<Rightarrow> 're \<Rightarrow> search_parameters \<Rightarrow> int \<Rightarrow> ('v, int) em" where
  "search_others S RX re p count =
     (case (sp_from_buffer p, sp_to_buffer p) of
        (Some b, Some to_buf) \<Rightarrow>
          if count = 0 then ret count
          else
            thenM (bindM (gets (\<lambda>(s, e). teco_ring_current e = b)) (\<lambda>here. whenM here teco_ring_undo_edit))
           (bindM (gets (\<lambda>(s, e). ring_size e)) (\<lambda>n.
            bindM (ring_search n S RX re (0 < count) (sp_dot p) to_buf b count) (\<lambda>(c, count).
              thenM (modify (\<lambda>(s, e). (s, e\<lparr>teco_ring_current := c\<rparr>))) (ret count))))
      | _ \<Rightarrow> ret count)"

text \<open>What follows once the expression is compiled; the result is the count that is left.\<close>

definition search_compiled :: "'v scintilla \<Rightarrow> 're regex \<Rightarrow> 're \<Rightarrow> ('v, int) em" where
  "search_compiled S RX re =
     thenM edit_first_buffer
    (bindM (gets (\<lambda>(s, e). teco_search_parameters e)) (\<lambda>p.
     bindM (teco_do_search S RX re (sp_from p) (sp_to p) (sp_count p)) (\<lambda>count.
     bindM (search_others S RX re p count) (\<lambda>count.
       thenM (interp (qreg_set_integer search_reg (teco_bool (count = 0)))) (ret count)))))"

definition goto_dot :: "'v scintilla \<Rightarrow> ('v, unit) em" where
  "goto_dot S = bindM (gets (\<lambda>(s, e). sp_dot (teco_search_parameters e))) (\<lambda>dot. ssm (sci_goto_pos S dot))"

definition search_flags :: "teco_int \<Rightarrow> nat \<Rightarrow> nat \<Rightarrow> regex_flags" where
  "search_flags search_mode colon codepage =
     \<lparr>re_caseless = teco_is_failure search_mode, re_anchored = (colon = 2), re_raw = (codepage \<noteq> SC_CP_UTF8)\<rparr>"

definition teco_state_search_process :: "'v scintilla \<Rightarrow> 're regex \<Rightarrow> glib \<Rightarrow> string \<Rightarrow> ('v, unit) em" where
  "teco_state_search_process S RX G str =
     bindM (interp (gets (\<lambda>s. (Locals (qreg_table_locals (ctx s)), [CHR 0x18])))) (\<lambda>reg.
     bindM (interp (qreg_get_integer reg)) (\<lambda>search_mode.
     bindM (interp (gets (\<lambda>s. modifier_colon (ctx_flags s)))) (\<lambda>colon.
     bindM (interp (gets (\<lambda>s. sb_codepage (es_machine (ctx s))))) (\<lambda>codepage.
       if codepage = SC_CP_UTF8 \<and> \<not> teco_string_validate_utf8 G str
       then throw (TECO_ERROR_CODEPOINT ''Invalid UTF-8 byte sequence in search pattern'')
       else
         bindM (ssm_get (\<lambda>w. (sci_anchor S w, sci_current_pos S w))) (\<lambda>(anchor, pos).
         thenM (undo_ssm (\<lambda>d. Undo_set_sel d anchor pos))
        (thenM (interp (thenM (qreg_undo_set_integer search_reg) (qreg_set_integer search_reg TECO_FAILURE)))
        (bindM (interp (gets (\<lambda>s. let R = registers_of (qreg_table_locals (ctx s)) s in
             teco_pattern2regexp G R codepage False (teco_machine_qregspec_new TECO_QREG_REQUIRED R) str))) (\<lambda>r.
         bindM (from_sum r) (\<lambda>(re_pattern, _, _).
           case (if re_pattern = [] then None else g_regex_new RX re_pattern (search_flags search_mode colon codepage)) of
             None \<Rightarrow> goto_dot S
           | Some re \<Rightarrow> bindM (search_compiled S RX re) (\<lambda>count. whenM (count \<noteq> 0) (goto_dot S)))))))))))"

section \<open>After the pattern\<close>

text \<open>
  Messages to the user are left out. Setting the register does not change the current document (it is not the one that
  is edited).
\<close>

definition teco_state_search_done :: "'v scintilla \<Rightarrow> 're regex \<Rightarrow> glib \<Rightarrow> string \<Rightarrow> ('v, teco_state) em" where
  "teco_state_search_done S RX G str =
     bindM (interp (gets executing)) (\<lambda>normal.
       if \<not> normal then ret teco_state_start
       else
         thenM
          (if str \<noteq> [] then
             bindM (ssm_get (sci_anchor S)) (\<lambda>anchor.
               thenM (undo_ssm (\<lambda>d. Undo_set_anchor d anchor))
              (thenM (interp (thenM (qreg_undo_set_string search_reg) (qreg_set_string search_reg str)))
                 (ssm (sci_set_anchor S anchor))))
           else bindM (interp (qreg_get_string search_reg)) (teco_state_search_process S RX G))
         (bindM (interp (qreg_get_integer search_reg)) (\<lambda>search_state.
          bindM (interp teco_machine_main_eval_colon) (\<lambda>colon.
            thenM (whenM (0 < colon) (interp (teco_expressions_push_int search_state))) (ret teco_state_start)))))"

text \<open>The hook that is run when another buffer gets edited, a macro of the user, is a parameter.\<close>

definition hook_if_other :: "('v, unit) em \<Rightarrow> ('v, 'a) em \<Rightarrow> ('v, 'a) em" where
  "hook_if_other hook m =
     bindM (gets (\<lambda>(s, e). teco_ring_current e)) (\<lambda>curbuf.
     bindM m (\<lambda>x.
     bindM (gets (\<lambda>(s, e). teco_ring_current e \<noteq> curbuf)) (\<lambda>other.
       thenM (whenM other hook) (ret x))))"

definition teco_state_search_all_done :: "('v, unit) em \<Rightarrow> 'v scintilla \<Rightarrow> 're regex \<Rightarrow> glib \<Rightarrow> string \<Rightarrow> ('v, teco_state) em" where
  "teco_state_search_all_done hook S RX G str =
     bindM (interp (gets executing)) (\<lambda>normal.
       if \<not> normal then ret teco_state_start
       else thenM (hook_if_other hook (teco_state_search_done S RX G str)) (ret teco_state_start))"

text \<open>Killing forwards ends before the match, backwards it includes the match. The ranges of the match move with the text.\<close>

definition kill_forwards :: "'v scintilla \<Rightarrow> int \<Rightarrow> int \<Rightarrow> ('v, unit) em" where
  "kill_forwards S from_dot dot =
     bindM (ssm_get (sci_anchor S)) (\<lambda>anchor.
     bindM (ssm_get (\<lambda>w. teco_view_bytes2glyphs S w anchor - teco_view_bytes2glyphs S w from_dot)) (\<lambda>len_glyphs.
       thenM (undo_ssm (\<lambda>d. Undo_goto_pos d dot))
      (thenM (ssm (sci_goto_pos S anchor))
      (thenM (ssm (sci_delete_range S from_dot (anchor - from_dot)))
      (thenM (if from_dot \<noteq> anchor then undo_ssm Undo_sci_undo else ret ())
         (modify (\<lambda>(s, e). (s, e\<lparr>teco_ranges := map (\<lambda>(a, b). (a - len_glyphs, b - len_glyphs)) (teco_ranges e)\<rparr>))))))))"

definition kill_backwards :: "'v scintilla \<Rightarrow> int \<Rightarrow> int \<Rightarrow> ('v, unit) em" where
  "kill_backwards S from_dot dot =
     thenM (ssm (sci_delete_range S dot (from_dot - dot)))
       (if from_dot \<noteq> dot then undo_ssm Undo_sci_undo else ret ())"

definition teco_state_search_kill_done :: "'v scintilla \<Rightarrow> 're regex \<Rightarrow> glib \<Rightarrow> string \<Rightarrow> ('v, teco_state) em" where
  "teco_state_search_kill_done S RX G str =
     bindM (interp (gets executing)) (\<lambda>normal.
       if \<not> normal then ret teco_state_start
       else
         thenM (teco_state_search_done S RX G str)
        (bindM (interp (qreg_get_integer search_reg)) (\<lambda>search_state.
           if teco_is_failure search_state then ret teco_state_start
           else
             bindM (ssm_get (sci_current_pos S)) (\<lambda>dot.
             bindM (gets (\<lambda>(s, e). sp_dot (teco_search_parameters e))) (\<lambda>from_dot.
               thenM (ssm (sci_begin_undo_action S))
              (thenM (if from_dot < dot then kill_forwards S from_dot dot else kill_backwards S from_dot dot)
              (thenM (ssm (sci_end_undo_action S))
              (thenM teco_ring_dirtify (ret teco_state_start)))))))))"

definition teco_state_search_delete_done :: "'v scintilla \<Rightarrow> 're regex \<Rightarrow> glib \<Rightarrow> string \<Rightarrow> ('v, teco_state) em" where
  "teco_state_search_delete_done S RX G str =
     bindM (interp (gets executing)) (\<lambda>normal.
       if \<not> normal then ret teco_state_start
       else
         thenM (teco_state_search_done S RX G str)
        (bindM (interp (qreg_get_integer search_reg)) (\<lambda>search_state.
           thenM (whenM (teco_is_success search_state)
              (thenM (ssm (sci_begin_undo_action S))
              (thenM (ssm (sci_replace_sel S []))
              (thenM (ssm (sci_end_undo_action S))
              (thenM teco_ring_dirtify (undo_ssm Undo_sci_undo))))))
            (ret teco_state_start))))"

section \<open>Replacing\<close>

definition teco_state_replace_insert_initial :: "'v scintilla \<Rightarrow> ('v, unit) em" where
  "teco_state_replace_insert_initial S =
     bindM (interp (gets executing)) (\<lambda>normal. whenM normal
       (bindM (ssm_get (teco_view_get_codepage S)) (\<lambda>cp. interp (teco_machine_stringbuilding_set_codepage cp))))"

text \<open>After the pattern the match is deleted; the next state depends on whether there was one.\<close>

definition replace_pattern_done :: "string_state \<Rightarrow> string_state \<Rightarrow> 'v scintilla \<Rightarrow> 're regex \<Rightarrow> glib \<Rightarrow> string \<Rightarrow> ('v, teco_state) em" where
  "replace_pattern_done found missing S RX G str =
     bindM (interp (gets executing)) (\<lambda>normal.
       if \<not> normal then ret (Expect_string missing)
       else
         thenM (teco_state_search_delete_done S RX G str)
        (bindM (interp (qreg_get_integer search_reg)) (\<lambda>search_state.
           ret (Expect_string (if teco_is_success search_state then found else missing)))))"

definition teco_state_replace_done :: "'v scintilla \<Rightarrow> 're regex \<Rightarrow> glib \<Rightarrow> string \<Rightarrow> ('v, teco_state) em" where
  "teco_state_replace_done = replace_pattern_done E_replace_insert E_replace_ignore"

definition teco_state_replace_default_done :: "'v scintilla \<Rightarrow> 're regex \<Rightarrow> glib \<Rightarrow> string \<Rightarrow> ('v, teco_state) em" where
  "teco_state_replace_default_done = replace_pattern_done E_replace_default_insert E_replace_default_ignore"

definition teco_state_replace_default_insert_done_overwrite :: "'v scintilla \<Rightarrow> string \<Rightarrow> ('v, teco_state) em" where
  "teco_state_replace_default_insert_done_overwrite S str =
     bindM (interp (gets executing)) (\<lambda>normal.
       if \<not> normal then ret teco_state_start
       else
         thenM
          (if str \<noteq> [] then
             interp (thenM (qreg_undo_set_string (Globals, ''-'')) (qreg_set_string (Globals, ''-'') str))
           else
             bindM (interp (qreg_get_string (Globals, ''-''))) (\<lambda>replace_str.
               whenM (replace_str \<noteq> []) (teco_state_insert_process S replace_str (length replace_str))))
          (ret teco_state_start))"

definition teco_state_replace_default_all_done :: "('v, unit) em \<Rightarrow> 'v scintilla \<Rightarrow> 're regex \<Rightarrow> glib \<Rightarrow> string \<Rightarrow> ('v, teco_state) em" where
  "teco_state_replace_default_all_done hook S RX G str =
     bindM (interp (gets executing)) (\<lambda>normal.
       if \<not> normal then ret (Expect_string E_replace_default_ignore)
       else hook_if_other hook (teco_state_replace_default_done S RX G str))"

end
