(* ===== verification/Search_Laws.thy ===== *)
theory Search_Laws
  imports Search_Commands
begin

text \<open>
  Laws of the search commands: which match is the n-th forwards and backwards; which buffers are searched; what is
  undone; and where the buffer that is shown is not the one that is edited.
\<close>

section \<open>The match that is found\<close>

text \<open>
  The reference: the n-th match, counted from the last one if the count is negative, and the count that is left if there are not as
  many. The error that ends the matches is noticed if the search gets that far.
\<close>

definition search_reference :: "'re regex \<Rightarrow> int \<Rightarrow> match list \<times> teco_error option \<Rightarrow> teco_error + int \<times> match" where
  "search_reference RX count = (\<lambda>(ms, err).
     let n = int (length ms) in
     case (if count < 0 \<and> (ms = [] \<longrightarrow> err = None) then teco_memory_check RX (16 * nat (- count)) else None) of Some e \<Rightarrow> Inl e
     | None \<Rightarrow>
       if err \<noteq> None \<and> (ms = [] \<or> count \<le> 0 \<or> n < count) then Inl (the err)
       else if 0 < count then (if count \<le> n then Inr (0, ms ! nat (count - 1)) else Inr (count - n, []))
       else if count = 0 then Inr (- n, [])
       else if - count \<le> n then Inr (0, ms ! nat (n + count)) else Inr (n + count, []))"

lemma forward_loop:
  "ms \<noteq> [] \<or> err = None \<Longrightarrow> forward_loop count ms err =
     (if 0 < count \<and> count \<le> int (length ms) then Inr (0, ms ! nat (count - 1))
      else case err of Some e \<Rightarrow> Inl e | None \<Rightarrow> Inr (count - int (length ms), []))"
proof (induction ms arbitrary: count)
  case (Cons m ms)
  have step: "(m # ms) ! nat (count - 1) = ms ! nat (count - 1 - 1)" if "1 < count"
  proof -
    have "nat (count - 1) = Suc (nat (count - 1 - 1))" using that by simp
    then show ?thesis by simp
  qed
  show ?case
  proof (cases "count = 1 \<or> ms = []")
    case True
    then show ?thesis by (cases err) auto
  next
    case False
    then have l: "0 < count \<and> count \<le> int (length (m # ms)) \<longleftrightarrow> 0 < count - 1 \<and> count - 1 \<le> int (length ms)" by auto
    have "forward_loop count (m # ms) err = forward_loop (count - 1) ms err" using False by (cases ms) (auto split: option.split)
    also have "\<dots> = (if 0 < count - 1 \<and> count - 1 \<le> int (length ms) then Inr (0, ms ! nat (count - 1 - 1))
        else case err of Some e \<Rightarrow> Inl e | None \<Rightarrow> Inr (count - 1 - int (length ms), []))"
      using False by (intro Cons.IH) simp
    finally show ?thesis using l step False by (auto split: option.split)
  qed
qed auto

text \<open>The circular buffer holds the last \<open>n\<close> matches of those that were seen.\<close>

definition keeps_last :: "nat \<Rightarrow> match list \<Rightarrow> match list \<Rightarrow> bool" where
  "keeps_last n buf old \<longleftrightarrow> length buf = n \<and> (\<forall>k < length old. length old \<le> k + n \<longrightarrow> buf ! (k mod n) = old ! k)"

lemma keeps_last_snoc:
  assumes n: "0 < n" and k: "keeps_last n buf old"
  shows "keeps_last n (buf[length old mod n := m]) (old @ [m])"
  unfolding keeps_last_def
proof (intro conjI allI impI)
  show "length (buf[length old mod n := m]) = n" using k by (simp add: keeps_last_def)
  fix i assume i: "i < length (old @ [m])" "length (old @ [m]) \<le> i + n"
  show "buf[length old mod n := m] ! (i mod n) = (old @ [m]) ! i"
  proof (cases "i = length old")
    case True
    then show ?thesis using k n by (simp add: keeps_last_def)
  next
    case False
    then have l: "i < length old" "length old - i < n" using i by auto
    have "i mod n \<noteq> length old mod n"
    proof
      assume "i mod n = length old mod n"
      then have "n dvd length old - i" using l(1) mod_eq_dvd_iff_nat [of i "length old" n] by simp
      then show False using l dvd_imp_le [of n "length old - i"] by simp
    qed
    then show ?thesis using k l i by (simp add: keeps_last_def nth_append)
  qed
qed

lemma backward_loop:
  assumes "0 < n" "keeps_last n buf old" "ms \<noteq> [] \<or> err = None"
  shows "case err of
      Some e \<Rightarrow> backward_loop n buf (length old mod n) (length old) ms err = Inl e
    | None \<Rightarrow> \<exists>buf'. backward_loop n buf (length old mod n) (length old) ms err =
        Inr (buf', length (old @ ms) mod n, length (old @ ms)) \<and> keeps_last n buf' (old @ ms)"
  using assms(2,3)
proof (induction ms arbitrary: buf old)
  case (Cons m ms)
  let ?b = "buf[length old mod n := m]"
  have k: "keeps_last n ?b (old @ [m])" by (rule keeps_last_snoc [OF assms(1) Cons.prems(1)])
  show ?case
  proof (cases "ms = [] \<and> err \<noteq> None")
    case True
    then show ?thesis by auto
  next
    case False
    then have "backward_loop n buf (length old mod n) (length old) (m # ms) err =
        backward_loop n ?b (length (old @ [m]) mod n) (length (old @ [m])) ms err"
      by (cases ms) (auto simp: Let_def split: option.split)
    then show ?thesis using Cons.IH [OF k] False by (cases err) simp_all
  qed
qed (simp split: option.split)

lemma find_match_reference_free: "find_match RX count (ms, err) = search_reference RX count (ms, err)"
proof -
  consider (failing) "ms = []" "\<exists>e. err = Some e" | (ahead) "ms \<noteq> [] \<or> err = None" "0 \<le> count" | (behind) "ms \<noteq> [] \<or> err = None" "count < 0"
    by fastforce
  then show ?thesis
  proof cases
    case failing
    then show ?thesis by (auto simp: find_match_def search_reference_def)
  next
    case ahead
    then have "find_match RX count (ms, err) = forward_loop count ms err"
      by (cases ms; cases err) (auto simp: find_match_def)
    then show ?thesis using ahead by (cases err) (auto simp: forward_loop search_reference_def Let_def)
  next
    case behind
    obtain n where n: "0 < n" "count = - int n"
      using behind(2) by (metis minus_minus neg_0_less_iff_less zero_less_imp_eq_int)
    have k: "keeps_last n (replicate n []) []" by (simp add: keeps_last_def)
    have c: "(ms = [] \<longrightarrow> err = None)" using behind(1) by blast
    have f: "find_match RX count (ms, err) = (case teco_memory_check RX (16 * n) of Some e \<Rightarrow> Inl e
        | None \<Rightarrow> (case backward_loop n (replicate n []) 0 0 ms err of Inl e \<Rightarrow> Inl e
           | Inr (matched, i, seen) \<Rightarrow> let c = min (count + int seen) 0 in Inr (c, if c = 0 then matched ! i else [])))"
      using behind unfolding find_match_def n(2) minus_minus nat_int by (cases ms; cases err) auto
    show ?thesis
    proof (cases "teco_memory_check RX (16 * n)")
      case (Some e)
      then show ?thesis using behind c unfolding f by (simp add: search_reference_def Let_def n(2))
    next
      case None
      note L = backward_loop [OF n(1) k behind(1)]
      show ?thesis
      proof (cases err)
        case (Some e)
        then have "backward_loop n (replicate n []) 0 0 ms err = Inl e" using L by simp
        then show ?thesis using None behind c unfolding f by (simp add: search_reference_def Let_def n(2) Some)
      next
        case err: None
        obtain buf where b: "backward_loop n (replicate n []) 0 0 ms err = Inr (buf, length ms mod n, length ms)" "keeps_last n buf ms"
          using L err by auto
        have "buf ! (length ms mod n) = ms ! (length ms - n)" if "n \<le> length ms"
        proof -
          have "(length ms - n) mod n = length ms mod n" using that by (simp add: le_mod_geq)
          then show ?thesis using b(2) n(1) that unfolding keeps_last_def by (metis diff_less le_add_diff_inverse2 order_refl
                less_le_trans)
        qed
        moreover have "nat (int (length ms) - int n) = length ms - n" by simp
        ultimately show ?thesis
          using None err behind c n(1) unfolding f b(1) by (auto simp: search_reference_def Let_def n(2) min_def)
      qed
    qed
  qed
qed

text \<open>
  C26: Which match a search finds. Counting down forwards finds the n-th match and the circular buffer of the backward search the
  n-th from the end; with fewer matches both leave the count by which it was missed, with which the search goes on in the
  next buffer.
\<close>

theorem find_match_reference: "find_match RX count r = search_reference RX count r"
  by (cases r) (simp add: find_match_reference_free)

text \<open>A count of 0 is reached without any match only: such a search succeeds exactly if nothing matches.\<close>

lemma zero_count:
  "find_match RX 0 ([], None) = Inr (0, [])" "ms \<noteq> [] \<Longrightarrow> find_match RX 0 (ms, None) = Inr (- int (length ms), [])"
  by (simp_all add: find_match_reference_free search_reference_def)

section \<open>The buffers that are searched\<close>

text \<open>Steps that change the text, the selection and the ranges at most.\<close>

definition staying :: "teco \<times> 'v editor \<Rightarrow> teco \<times> 'v editor \<Rightarrow> bool" where
  "staying p q \<longleftrightarrow> fst q = fst p \<and> teco_interface_current_view (snd q) = teco_interface_current_view (snd p) \<and>
     ring_size (snd q) = ring_size (snd p) \<and> teco_ring_current (snd q) = teco_ring_current (snd p) \<and>
     teco_search_parameters (snd q) = teco_search_parameters (snd p)"

interpretation st: step_preorder staying
  by unfold_locales (simp_all add: staying_def)

lemma staying_steps:
  "obeys staying (ssm f)" "obeys staying (ssm_get g)" "obeys staying (from_sum r)" "obeys staying (set_ranges h)"
  by (auto simp: ssm_def ssm_get_def from_sum_def set_ranges_def editor_push_def staying_def update_view_def
      intro!: st.modify st.gets st.thenM st.ret st.throw split: sum.split)

lemma staying_do_search: "obeys staying (teco_do_search S RX re a b count)"
  unfolding teco_do_search_def by (intro st.bind staying_steps) (auto intro!: st.bind st.thenM st.ret staying_steps split: list.split prod.split)

lemma staying_search_buffer:
  "ring_size (snd (snd (search_buffer S RX re forward dot l b count (s, e)))) = ring_size e"
proof -
  have "obeys staying (if l \<and> forward then teco_do_search S RX re 0 dot count
       else bindM (ssm_get (sci_length S)) (\<lambda>len. teco_do_search S RX re (if l then dot else 0) len count))"
    by (intro st.if_then st.bind staying_do_search staying_steps)
  then show ?thesis
    unfolding search_buffer_def teco_buffer_edit_def thenM_run modify_run prod.case sum.case
    by (drule_tac s = "(s, e\<lparr>teco_interface_current_view := Buffer b\<rparr>)" in obeysD) (simp add: staying_def)
qed

text \<open>
  The buffers in the order in which they are searched: to the last one of the ring and on from the first one, or the
  other way round, until the buffer \<open>t\<close>.
\<close>

definition ring_path :: "nat \<Rightarrow> bool \<Rightarrow> nat \<Rightarrow> nat \<Rightarrow> nat list" where
  "ring_path n forward b t =
     (if forward then (if b < t then [Suc b..<Suc t] else [Suc b..<n] @ [0..<Suc t])
      else (if t < b then rev [t..<b] else rev [0..<b] @ rev [t..<n]))"

fun search_path :: "'v scintilla \<Rightarrow> 're regex \<Rightarrow> 're \<Rightarrow> bool \<Rightarrow> int \<Rightarrow> nat list \<Rightarrow> int \<Rightarrow> ('v, nat \<times> int) em" where
  "search_path S RX re forward dot [] count = throw Out_of_fuel"
| "search_path S RX re forward dot (b # bs) count =
     bindM (search_buffer S RX re forward dot (bs = []) b count) (\<lambda>count.
       if bs = [] \<or> count = 0 then ret (b, count) else search_path S RX re forward dot bs count)"

lemma ring_path_step:
  assumes "b < ring_size e" "t < ring_size e"
  shows "\<exists>rest. ring_path (ring_size e) forward b t = ring_step e forward b # rest \<and> ring_step e forward b < ring_size e \<and>
    (rest = [] \<longleftrightarrow> ring_step e forward b = t) \<and>
    (ring_step e forward b \<noteq> t \<longrightarrow> rest = ring_path (ring_size e) forward (ring_step e forward b) t)"
proof (cases forward)
  case True
  show ?thesis
  proof (cases "b < t \<or> Suc b = ring_size e")
    case near: True
    then show ?thesis
      using True assms upt_conv_Cons [of "Suc b" "Suc t"] upt_conv_Cons [of 0 "Suc t"]
      by (auto simp: ring_path_def ring_step_def teco_buffer_next_def simp del: upt_Suc)
  next
    case False
    then show ?thesis
      using True assms upt_conv_Cons [of "Suc b" "ring_size e"]
      by (auto simp: ring_path_def ring_step_def teco_buffer_next_def simp del: upt_Suc)
  qed
next
  case False
  have s: "rev [i..<j] = (j - 1) # rev [i..<j - 1]" if "i < j" for i j :: nat
    using that by (cases j) simp_all
  show ?thesis
  proof (cases "t < b \<or> b = 0")
    case near: True
    then show ?thesis
      using False assms s [of t b] s [of t "ring_size e"]
      by (auto simp: ring_path_def ring_step_def teco_buffer_prev_def)
  next
    case far: False
    then show ?thesis
      using False assms s [of 0 b]
      by (auto simp: ring_path_def ring_step_def teco_buffer_prev_def)
  qed
qed

lemma ring_path_length: "b < n \<Longrightarrow> t < n \<Longrightarrow> length (ring_path n forward b t) \<le> n"
  by (auto simp: ring_path_def)

lemma ring_path_distinct: "b < n \<Longrightarrow> t < n \<Longrightarrow> distinct (ring_path n forward b t)"
  by (auto simp: ring_path_def)

lemma ring_search_path_fuel:
  assumes "b < ring_size e" "t < ring_size e" "length (ring_path (ring_size e) forward b t) \<le> n"
  shows "ring_search n S RX re forward dot t b count (s, e) =
    search_path S RX re forward dot (ring_path (ring_size e) forward b t) count (s, e)"
  using assms
proof (induction n arbitrary: b s e count)
  case 0
  then show ?case using ring_path_step [OF 0(1,2), of forward] by auto
next
  case (Suc n)
  obtain rest where r: "ring_path (ring_size e) forward b t = ring_step e forward b # rest" "ring_step e forward b < ring_size e"
    "rest = [] \<longleftrightarrow> ring_step e forward b = t" "ring_step e forward b \<noteq> t \<longrightarrow> rest = ring_path (ring_size e) forward (ring_step e forward b) t"
    using ring_path_step [OF Suc.prems(1,2)] by blast
  let ?c = "ring_step e forward b" and ?m = "search_buffer S RX re forward dot (ring_step e forward b = t) (ring_step e forward b) count (s, e)"
  obtain s' e' where m: "snd ?m = (s', e')" by (cases "snd ?m")
  have size: "ring_size e' = ring_size e" using staying_search_buffer [of S RX re forward dot "?c = t" ?c count s e] by (simp add: m)
  show ?case
  proof (cases "fst ?m")
    case (Inl x)
    then have "?m = (Inl x, (s', e'))" using m by (cases ?m) simp
    then show ?thesis unfolding r(1) by (simp add: bindM_def gets_def r(3))
  next
    case (Inr c')
    then have c: "?m = (Inr c', (s', e'))" using m by (cases ?m) simp
    have "ring_search n S RX re forward dot t ?c c' (s', e') = search_path S RX re forward dot rest c' (s', e')" if "?c \<noteq> t"
      using Suc.IH [of ?c e' c' s'] Suc.prems r that by (simp add: size)
    then show ?thesis unfolding r(1) using c by (simp add: bindM_def gets_def r(3))
  qed
qed

text \<open>
  C27: The order of a search through the ring. The loops over the buffers end, and search every buffer on the way at most once,
  up to the ends of the ring and around them, the last one in part; after the first one in which the count gets 0 no more.
\<close>

theorem ring_search_order:
  assumes "b < ring_size e" "t < ring_size e"
  shows "ring_search (ring_size e) S RX re forward dot t b count (s, e) =
      search_path S RX re forward dot (ring_path (ring_size e) forward b t) count (s, e) \<and>
    distinct (ring_path (ring_size e) forward b t) \<and> ring_path (ring_size e) forward b t \<noteq> [] \<and> last (ring_path (ring_size e) forward b t) = t"
proof -
  have "last (ring_path (ring_size e) forward b t) = t" using assms by (auto simp: ring_path_def last_rev)
  moreover have "ring_path (ring_size e) forward b t \<noteq> []" using assms by (auto simp: ring_path_def)
  ultimately show ?thesis
    by (simp add: ring_search_path_fuel [OF assms ring_path_length [OF assms]] ring_path_distinct [OF assms])
qed

text \<open>A matcher that finds the whole of a text, if it is not empty.\<close>

definition whole_regex :: "unit regex" where
  "whole_regex = \<lparr>g_regex_new = (\<lambda>_ _. Some ()), g_regex_match = (\<lambda>_ str. (if str = [] then [] else [[(0, int (length str))]], None)),
     teco_memory_check = (\<lambda>_. None)\<rparr>"

text \<open>Three buffers, of which the second one is edited; backwards from the first one the ring is left at its beginning.\<close>

definition three_buffers :: "plain_view editor" where
  "three_buffers = plain_editor\<lparr>ring_size := 3, teco_ring_current := 1, teco_interface_current_view := Buffer 1\<rparr>"

theorem ring_search_order_witness:
  "ring_search 3 plain_scintilla whole_regex () False 1 1 0 (- 2) (teco_initial True, three_buffers) =
     search_path plain_scintilla whole_regex () False 1 [2, 1] (- 2) (teco_initial True, three_buffers)"
proof -
  have r: "ring_size three_buffers = 3" by (simp add: three_buffers_def)
  have "0 < ring_size three_buffers" "1 < ring_size three_buffers" by (simp_all add: r)
  moreover have "ring_path 3 False 0 1 = [2, 1]" by (simp add: ring_path_def upt_rec numeral_2_eq_2)
  ultimately show ?thesis using ring_search_order [of 0 three_buffers 1 plain_scintilla whole_regex "()" False 1 "- 2" "teco_initial True"] unfolding r by simp
qed

section \<open>Another buffer than the one that is shown\<close>

text \<open>
  C28: A search that starts in another buffer and finds its match there. The buffer is shown, but the buffer
  that counts as edited is still the old one: a change of the text that follows marks the old buffer as modified,
  not the one with the change.
\<close>

theorem found_in_first_buffer:
  assumes "teco_qreg_current s = None" "teco_search_parameters e = p" "sp_from_buffer p = Some b" "b \<noteq> teco_ring_current e"
    and "fst (teco_do_search S RX re (sp_from p) (sp_to p) (sp_count p) (snd (edit_first_buffer (s, e)))) = Inr 0"
    and "snd (search_compiled S RX re (s, e)) = (s', e')"
  shows "teco_interface_current_view e' = Buffer b \<and> teco_ring_current e' = teco_ring_current e \<and>
    dirty (snd (snd (teco_ring_dirtify (s', e')))) b = dirty e' b"
proof -
  let ?first = "edit_first_buffer (s, e)"
  obtain l where f: "?first = (Inr (), (s, e\<lparr>editor_log := l, teco_interface_current_view := Buffer b\<rparr>))"
    using assms(1-4) that [of "if teco_undo_enabled s
        then Undo_show_view (Buffer (teco_ring_current e)) # Undo_ring_current (teco_ring_current e) # editor_log e else editor_log e"]
    by (cases "teco_undo_enabled s")
      (simp_all add: edit_first_buffer_def teco_ring_undo_edit_def teco_buffer_edit_def editor_push_def run_simps)
  let ?e = "e\<lparr>editor_log := l, teco_interface_current_view := Buffer b\<rparr>"
  let ?m = "teco_do_search S RX re (sp_from p) (sp_to p) (sp_count p)"
  obtain s1 e1 where m: "?m (s, ?e) = (Inr 0, (s1, e1))"
    using assms(5) by (cases "?m (s, ?e)") (auto simp: f)
  have e1: "teco_interface_current_view e1 = Buffer b" "teco_ring_current e1 = teco_ring_current e"
    using obeysD [OF staying_do_search [of S RX re "sp_from p" "sp_to p" "sp_count p"], of "(s, ?e)"] by (simp_all add: m staying_def)
  have "snd (snd (search_compiled S RX re (s, e))) = e1"
    using m assms(2) by (simp add: search_compiled_def thenM_def bindM_def f gets_def search_others_def ret_def interp_def
        split: option.split prod.split sum.split)
  then have "e' = e1" using assms(6) by simp
  then show ?thesis using e1 assms(4) by (simp add: dirtify_run)
qed

definition first_of_three :: "plain_view editor" where
  "first_of_three = three_buffers\<lparr>teco_search_parameters :=
     \<lparr>sp_dot = 0, sp_from = 0, sp_to = 3, sp_count = 1, sp_from_buffer = Some 0, sp_to_buffer = Some 1\<rparr>\<rparr>"

theorem found_in_first_buffer_witness:
  "teco_interface_current_view (snd (snd (search_compiled plain_scintilla whole_regex () (teco_initial True, first_of_three)))) = Buffer 0 \<and>
   teco_ring_current (snd (snd (search_compiled plain_scintilla whole_regex () (teco_initial True, first_of_three)))) = 1"
proof -
  let ?s = "teco_initial True" and ?e = first_of_three
  obtain s' e' where r: "snd (search_compiled plain_scintilla whole_regex () (?s, ?e)) = (s', e')"
    by (cases "snd (search_compiled plain_scintilla whole_regex () (?s, ?e))")
  have s: "teco_qreg_current ?s = None" "teco_undo_enabled ?s" by (simp_all add: teco_initial_def)
  have b: "sp_from_buffer (teco_search_parameters ?e) = Some 0" "0 \<noteq> teco_ring_current ?e" "teco_ring_current ?e = 1"
    by (simp_all add: first_of_three_def three_buffers_def)
  have "fst (teco_do_search plain_scintilla whole_regex () (sp_from (teco_search_parameters ?e)) (sp_to (teco_search_parameters ?e))
      (sp_count (teco_search_parameters ?e)) (snd (edit_first_buffer (?s, ?e)))) = Inr 0"
    using s b by (simp add: edit_first_buffer_def teco_ring_undo_edit_def teco_buffer_edit_def editor_push_def run_simps)
      (simp add: first_of_three_def three_buffers_def plain_editor_def teco_do_search_def ssm_get_run bindM_run find_match_def whole_regex_def
        plain_scintilla_def current_view_def teco_get_ranges_def from_sum_def ssm_run thenM_run set_ranges_def editor_push_def run_simps)
  from found_in_first_buffer [OF s(1) refl b(1,2) this r] show ?thesis by (simp add: r b(3))
qed

section \<open>Rubbing out a search\<close>

text \<open>Setting the selection does not change the text, and the position it gives depends on the document and the arguments.\<close>

definition selection_laws :: "'v scintilla \<Rightarrow> ('v \<Rightarrow> 'd) \<Rightarrow> bool" where
  "selection_laws S doc \<longleftrightarrow>
     (\<forall>v v' a p. doc v' = doc v \<longrightarrow> doc (sci_set_sel S a p v') = doc v \<and>
        sci_current_pos S (sci_set_sel S a p v') = sci_current_pos S (sci_set_sel S a p v)) \<and>
     (\<forall>v a. sci_current_pos S (sci_set_sel S a (sci_current_pos S v) v) = sci_current_pos S v) \<and>
     (\<forall>v p. doc (sci_goto_pos S p v) = doc v)"

text \<open>A search in the one document that is edited.\<close>

definition one_document :: "teco \<times> 'v editor \<Rightarrow> bool" where
  "one_document p \<longleftrightarrow> sp_to_buffer (teco_search_parameters (snd p)) = None \<and>
     (teco_qreg_current (fst p) \<noteq> None \<or> sp_from_buffer (teco_search_parameters (snd p)) = Some (teco_ring_current (snd p)))"

text \<open>Alike up to the position in the current document.\<close>

definition loosely :: "'v scintilla \<Rightarrow> ('v \<Rightarrow> 'd) \<Rightarrow> 'v editor \<Rightarrow> 'v editor \<Rightarrow> bool" where
  "loosely S doc x e \<longleftrightarrow>
     teco_interface_current_view x = teco_interface_current_view e \<and> ring_size x = ring_size e \<and>
     teco_ring_current x = teco_ring_current e \<and> dirty x = dirty e \<and>
     teco_search_parameters x = teco_search_parameters e \<and> teco_ranges x = teco_ranges e \<and>
     (\<forall>d. doc (views x d) = doc (views e d) \<and>
        (d \<noteq> teco_interface_current_view e \<longrightarrow> sci_current_pos S (views x d) = sci_current_pos S (views e d)))"

text \<open>The steps after the token for the selection: they move the pointer, and their tokens undo everything else.\<close>

definition wandering :: "'v scintilla \<Rightarrow> ('v \<Rightarrow> 'd) \<Rightarrow> teco \<times> 'v editor \<Rightarrow> teco \<times> 'v editor \<Rightarrow> bool" where
  "wandering S doc p q \<longleftrightarrow> (one_document p \<longrightarrow> one_document q \<and> same_editing (fst p) (fst q) \<and>
     (teco_undo_enabled (fst p) \<longrightarrow>
       (\<exists>new. editor_log (snd q) = new @ editor_log (snd p) \<and>
          (\<forall>x. loosely S doc x (snd q) \<longrightarrow> loosely S doc (fold (editor_undo S) new x) (snd p)))))"

lemma wandering_trans:
  assumes "wandering S doc p q" "wandering S doc q r"
  shows "wandering S doc p r"
  unfolding wandering_def
proof (intro impI conjI)
  assume p: "one_document p"
  then have q: "one_document q" "same_editing (fst p) (fst q)" using assms(1) by (simp_all add: wandering_def)
  then have r: "one_document r" "same_editing (fst q) (fst r)" using assms(2) by (simp_all add: wandering_def)
  show "one_document r" by (rule r)
  show "same_editing (fst p) (fst r)" using q(2) r(2) by (simp add: same_editing_def)
  assume u: "teco_undo_enabled (fst p)"
  then have u': "teco_undo_enabled (fst q)" using q(2) by (simp add: same_editing_def)
  obtain n where n: "editor_log (snd q) = n @ editor_log (snd p)"
    "\<And>x. loosely S doc x (snd q) \<Longrightarrow> loosely S doc (fold (editor_undo S) n x) (snd p)"
    using assms(1) p u unfolding wandering_def by blast
  obtain m where m: "editor_log (snd r) = m @ editor_log (snd q)"
    "\<And>x. loosely S doc x (snd r) \<Longrightarrow> loosely S doc (fold (editor_undo S) m x) (snd q)"
    using assms(2) q(1) u' unfolding wandering_def by blast
  show "\<exists>new. editor_log (snd r) = new @ editor_log (snd p) \<and>
      (\<forall>x. loosely S doc x (snd r) \<longrightarrow> loosely S doc (fold (editor_undo S) new x) (snd p))"
    using n m by (intro exI [of _ "m @ n"]) simp
qed

lemma wandering_refl: "wandering S doc p p"
  unfolding wandering_def same_editing_def by (intro impI conjI exI [of _ "[]"]) simp_all

interpretation wa: step_preorder "wandering S doc" for S :: "'v scintilla" and doc :: "'v \<Rightarrow> 'd"
  by unfold_locales (rule wandering_refl, rule wandering_trans)

lemma wandering_interp: "obeys same_editing m \<Longrightarrow> obeys (wandering S doc) (interp m)"
proof -
  assume m: "obeys same_editing m"
  have "wandering S doc (s, e) (snd (interp m (s, e)))" for s e
  proof -
    obtain r t where t: "m s = (r, t)" by (cases "m s")
    have "same_editing s t" using obeysD [OF m, of s] by (simp add: t)
    then show ?thesis by (auto simp: interp_def t wandering_def one_document_def same_editing_def intro: exI [of _ "[]"])
  qed
  then show ?thesis by (simp add: obeys_def split_paired_all)
qed

lemma wandering_pure: "obeys (wandering S doc) (ssm_get g)" "obeys (wandering S doc) (from_sum r)" "obeys (wandering S doc) (gets h)"
  by (simp_all add: ssm_get_def from_sum_def wa.gets wa.ret wa.throw split: sum.split)

lemma wandering_ssm:
  assumes "\<And>v. doc (f v) = doc v"
  shows "obeys (wandering S doc) (ssm f)"
proof -
  have "wandering S doc (s, e) (s, update_view (teco_interface_current_view e) f e)" for s e
    unfolding wandering_def same_editing_def
    by (intro impI conjI exI [of _ "[]"]) (auto simp: one_document_def loosely_def update_view_def assms split: if_splits)
  then show ?thesis by (simp add: obeys_def split_paired_all ssm_run)
qed

lemma wandering_ranges: "obeys (wandering (S :: 'a scintilla) doc) (set_ranges f)"
proof -
  have "wandering S doc (s, e) (s, ranged r s e)" for s e r
  proof (cases "teco_undo_enabled s")
    case True
    then show ?thesis
      unfolding wandering_def same_editing_def
      by (intro impI conjI exI [of _ "[Undo_ranges (teco_ranges e)]"]) (simp_all add: one_document_def loosely_def ranged_def)
  next
    case False
    then show ?thesis by (simp add: wandering_def one_document_def ranged_def same_editing_def)
  qed
  moreover have "set_ranges f (s, e) = (Inr (), (s, ranged (f (teco_ranges e)) s e))" for s and e :: "'a editor"
    by (simp add: set_ranges_def editor_push_def ranged_def run_simps)
  ultimately show ?thesis by (simp add: obeys_def split_paired_all)
qed

lemma same_editing_qreg:
  "obeys same_editing (qreg_get_integer r)" "obeys same_editing (qreg_set_integer r n)" "obeys same_editing (qreg_undo_set_integer r)"
proof -
  have u: "same_editing s (update_qreg r f s)" for s f
    by (simp add: same_editing_def table_defs split: table_ref.split locals_ref.split)
  show "obeys same_editing (qreg_get_integer r)" "obeys same_editing (qreg_undo_set_integer r)"
    unfolding qreg_get_integer_def qreg_undo_set_integer_def deref_def push_if_def
    by (intro se.bind se.gets; auto split: option.split intro!: se.ret se.throw se.bind se.gets se.whenM same_editing_push)+
  show "obeys same_editing (qreg_set_integer r n)"
    unfolding qreg_set_integer_def deref_def
    by (intro se.bind se.gets; auto split: option.split intro!: se.ret se.throw se.bind se.gets se.modify u)+
qed

lemma wandering_do_search:
  assumes "selection_laws S doc"
  shows "obeys (wandering S doc) (teco_do_search S RX re a b count)"
proof -
  have "doc (sci_set_sel S i j v) = doc v" for i j v using assms by (simp add: selection_laws_def)
  then show ?thesis
    unfolding teco_do_search_def
    by (intro wa.bind wandering_pure) (auto intro!: wa.ret wa.bind wa.thenM wandering_pure wandering_ssm wandering_ranges split: list.split prod.split)
qed

lemma wandering_compiled:
  assumes "selection_laws (S :: 'a scintilla) doc"
  shows "obeys (wandering S doc) (search_compiled S RX re)"
proof -
  have "wandering S doc (s, e) (snd (search_compiled S RX re (s, e)))" for s and e :: "'a editor"
  proof (cases "one_document (s, e)")
    case True
    then have "edit_first_buffer (s, e) = (Inr (), (s, e))"
      by (auto simp: one_document_def edit_first_buffer_def run_simps)
    moreover have "search_others S RX re (teco_search_parameters e) count = ret count" for count
      using True by (auto simp: search_others_def one_document_def split: option.split)
    moreover have "bindM (ret x) k = k x" for x and k :: "int \<Rightarrow> ('a, int) em" by (simp add: bindM_def ret_def fun_eq_iff)
    ultimately have "search_compiled S RX re (s, e) =
        bindM (teco_do_search S RX re (sp_from (teco_search_parameters e)) (sp_to (teco_search_parameters e)) (sp_count (teco_search_parameters e)))
          (\<lambda>count. thenM (interp (qreg_set_integer search_reg (teco_bool (count = 0)))) (ret count)) (s, e)"
      by (simp add: search_compiled_def thenM_run bindM_run gets_def split: prod.split sum.split)
    moreover have "obeys (wandering S doc) (bindM (teco_do_search S RX re i j n)
        (\<lambda>count. thenM (interp (qreg_set_integer search_reg (teco_bool (count = 0)))) (ret count)))" for i j n
      by (intro wa.bind wa.thenM wa.ret wandering_do_search assms wandering_interp same_editing_qreg)
    ultimately show ?thesis by (simp add: obeys_def)
  qed (simp add: wandering_def)
  then show ?thesis by (simp add: obeys_def split_paired_all)
qed


lemma undoing_search:
  assumes L: "selection_laws S doc" and one: "one_document (s, e)" and m: "obeys (wandering S doc) m"
  shows "undoing S doc (s, e) (snd (bindM (ssm_get (\<lambda>w. (sci_anchor S w, sci_current_pos S w))) (\<lambda>(anchor, pos).
    thenM (undo_ssm (\<lambda>d. Undo_set_sel d anchor pos)) m) (s, e)))"
proof -
  let ?d = "teco_interface_current_view e" and ?v = "current_view e"
  let ?t = "Undo_set_sel ?d (sci_anchor S ?v) (sci_current_pos S ?v)"
  let ?e = "if teco_undo_enabled s \<and> teco_current_doc_must_undo s then e\<lparr>editor_log := ?t # editor_log e\<rparr> else e"
  have r: "bindM (ssm_get (\<lambda>w. (sci_anchor S w, sci_current_pos S w))) (\<lambda>(anchor, pos).
    thenM (undo_ssm (\<lambda>d. Undo_set_sel d anchor pos)) m) (s, e) = m (s, ?e)"
    by (simp add: ssm_get_step thenM_run undo_ssm_run)
  have o: "one_document (s, ?e)" using one by (simp add: one_document_def)
  have w: "wandering S doc (s, ?e) (snd (m (s, ?e)))" by (rule obeysD [OF m])
  then have same: "same_editing s (fst (snd (m (s, ?e))))" using o by (simp add: wandering_def)
  have "undone S doc e (snd (snd (m (s, ?e))))" if u: "teco_undo_enabled s" "teco_current_doc_must_undo s"
  proof -
    obtain new where n: "editor_log (snd (snd (m (s, ?e)))) = new @ editor_log ?e"
      "\<And>x. loosely S doc x (snd (snd (m (s, ?e)))) \<Longrightarrow> loosely S doc (fold (editor_undo S) new x) ?e"
      using w o u(1) unfolding wandering_def by auto
    have l: "loosely S doc x y" if "alike S doc x y" for x y using that by (simp add: loosely_def alike_def)
    have t: "alike S doc (editor_undo S ?t x) e" if "loosely S doc x ?e" for x
      using that u L by (auto simp: loosely_def alike_def selection_laws_def update_view_def current_view_def)
    show ?thesis
      unfolding undone_def
    proof (intro exI [of _ "new @ [?t]"] conjI allI impI)
      show "editor_log (snd (snd (m (s, ?e)))) = (new @ [?t]) @ editor_log e" using n(1) u by simp
      show "alike S doc (fold (editor_undo S) (new @ [?t]) x) e" if "alike S doc x (snd (snd (m (s, ?e))))" for x
        using t [OF n(2) [OF l [OF that]]] by (simp del: editor_undo.simps)
    qed
  qed
  then show ?thesis using same unfolding r by (simp add: undoing_def)
qed

lemma undoing_search_process:
  assumes L: "selection_laws (S :: 'a scintilla) doc" and one: "one_document (s, e)"
  shows "undoing S doc (s, e) (snd (teco_state_search_process S RX G str (s, e)))"
proof -
  have "doc (sci_goto_pos S p v) = doc v" for p v using L by (simp add: selection_laws_def)
  then have goto: "obeys (wandering S doc) (goto_dot S)"
    unfolding goto_dot_def by (intro wa.bind wandering_pure wandering_ssm)
  have m: "obeys (wandering S doc)
      (thenM (interp (thenM (qreg_undo_set_integer search_reg) (qreg_set_integer search_reg TECO_FAILURE)))
        (bindM (interp (gets (\<lambda>s. let R = registers_of (qreg_table_locals (ctx s)) s in
             teco_pattern2regexp G R codepage False (teco_machine_qregspec_new TECO_QREG_REQUIRED R) str))) (\<lambda>r.
         bindM (from_sum r) (\<lambda>(re_pattern, _, _).
           case (if re_pattern = [] then None else g_regex_new RX re_pattern flags) of
             None \<Rightarrow> goto_dot S
           | Some re \<Rightarrow> bindM (search_compiled S RX re) (\<lambda>count. whenM (count \<noteq> 0) (goto_dot S))))))" for codepage flags
    by (intro wa.bind wa.thenM wandering_interp se.thenM se.gets same_editing_qreg wandering_pure)
      (auto split: option.split intro!: wa.bind wa.whenM goto wandering_compiled [OF L])
  let ?reads = "\<lambda>k. bindM (interp (gets (\<lambda>s. (Locals (qreg_table_locals (ctx s)), [CHR 0x18])))) (\<lambda>reg.
     bindM (interp (qreg_get_integer reg)) (\<lambda>search_mode.
     bindM (interp (gets (\<lambda>s. modifier_colon (ctx_flags s)))) (\<lambda>colon.
     bindM (interp (gets (\<lambda>s. sb_codepage (es_machine (ctx s))))) (k search_mode colon))))"
  have reads: "undoing S doc (s, e) (snd (?reads k (s, e)))" if "\<And>a b c. undoing S doc (s, e) (snd (k a b c (s, e)))" for k :: "_ \<Rightarrow> _ \<Rightarrow> _ \<Rightarrow> ('a, unit) em"
    using that by (cases "get_table (Locals (qreg_table_locals (ctx s))) s [CHR 0x18]")
      (auto simp: interp_def bindM_def gets_def qreg_get_integer_def deref_def ret_def throw_def un.R_refl)
  show ?thesis
    unfolding teco_state_search_process_def
  proof (rule reads)
    fix search_mode colon codepage
    show "undoing S doc (s, e) (snd ((if codepage = SC_CP_UTF8 \<and> \<not> teco_string_validate_utf8 G str
       then throw (TECO_ERROR_CODEPOINT ''Invalid UTF-8 byte sequence in search pattern'')
       else
         bindM (ssm_get (\<lambda>w. (sci_anchor S w, sci_current_pos S w))) (\<lambda>(anchor, pos).
         thenM (undo_ssm (\<lambda>d. Undo_set_sel d anchor pos))
        (thenM (interp (thenM (qreg_undo_set_integer search_reg) (qreg_set_integer search_reg TECO_FAILURE)))
        (bindM (interp (gets (\<lambda>s. let R = registers_of (qreg_table_locals (ctx s)) s in
             teco_pattern2regexp G R codepage False (teco_machine_qregspec_new TECO_QREG_REQUIRED R) str))) (\<lambda>r.
         bindM (from_sum r) (\<lambda>(re_pattern, _, _).
           case (if re_pattern = [] then None else g_regex_new RX re_pattern (search_flags search_mode colon codepage)) of
             None \<Rightarrow> goto_dot S
           | Some re \<Rightarrow> bindM (search_compiled S RX re) (\<lambda>count. whenM (count \<noteq> 0) (goto_dot S)))))))) (s, e)))"
      using undoing_search [OF L one m] by (simp add: throw_def un.R_refl)
  qed
qed

text \<open>
  C23: Rubbing out a search. Whatever the pattern, found or not, also when it is invalid: if the search is in the document that is
  edited, its undo tokens bring back the position and the ranges of the last match, and leave the text and everything else as it was.
\<close>

theorem search_rubout:
  assumes "selection_laws S doc" "one_document (s, e)" "teco_undo_enabled s" "teco_current_doc_must_undo s"
  shows "\<exists>new. editor_log (snd (snd (teco_state_search_process S RX G str (s, e)))) = new @ editor_log e \<and>
    alike S doc (fold (editor_undo S) new (snd (snd (teco_state_search_process S RX G str (s, e))))) e"
proof -
  have "undone S doc e (snd (snd (teco_state_search_process S RX G str (s, e))))"
    using undoing_search_process [OF assms(1,2), of RX G str] assms(3,4) by (simp add: undoing_def)
  then show ?thesis unfolding undone_def using alike_refl by blast
qed

theorem search_rubout_witness:
  "\<exists>new. editor_log (snd (snd (teco_state_search_process plain_scintilla whole_regex ascii_glib ''abc'' (teco_initial True, first_of_three
       \<lparr>teco_ring_current := 0, teco_search_parameters := (teco_search_parameters first_of_three)\<lparr>sp_to_buffer := None\<rparr>\<rparr>)))) = new @ [] \<and>
   alike plain_scintilla (\<lambda>(t, p, h). (t, h))
     (fold (editor_undo plain_scintilla) new (snd (snd (teco_state_search_process plain_scintilla whole_regex ascii_glib ''abc'' (teco_initial True, first_of_three
       \<lparr>teco_ring_current := 0, teco_search_parameters := (teco_search_parameters first_of_three)\<lparr>sp_to_buffer := None\<rparr>\<rparr>)))))
     (first_of_three\<lparr>teco_ring_current := 0, teco_search_parameters := (teco_search_parameters first_of_three)\<lparr>sp_to_buffer := None\<rparr>\<rparr>)"
proof -
  let ?e = "first_of_three\<lparr>teco_ring_current := 0, teco_search_parameters := (teco_search_parameters first_of_three)\<lparr>sp_to_buffer := None\<rparr>\<rparr>"
  have L: "selection_laws plain_scintilla (\<lambda>(t, p, h). (t, h))" by (auto simp: selection_laws_def plain_scintilla_def)
  have o: "one_document (teco_initial True, ?e)" by (simp add: one_document_def first_of_three_def)
  have u: "teco_undo_enabled (teco_initial True)" "teco_current_doc_must_undo (teco_initial True)"
    by (simp_all add: teco_initial_def teco_current_doc_must_undo_def)
  have "editor_log ?e = []" by (simp add: first_of_three_def three_buffers_def plain_editor_def)
  with search_rubout [OF L o u, of whole_regex ascii_glib "''abc''"] show ?thesis by simp
qed

end
