(* ===== verification/Completion.thy ===== *)
theory Completion
  imports Text "HOL-Library.Tree" "HOL-Library.List_Lexorder" "HOL-Library.Char_ord" "HOL-Library.Sublist"
begin

text \<open>
  Looking up and auto-completing names: in trees of strings (\<open>src/rb3str.c\<close>), which the tables of registers, labels
  and help topics are, in the file system (\<open>src/file-utils.c\<close>) and in the sorted tables of Scintilla's symbols
  (\<open>src/symbols.c\<close>). A completion inserts the longest extension the candidates agree on.
\<close>

section \<open>Trees of strings\<close>

text \<open>
  The balancing of the trees is that of a library. \<open>teco_rb3str_nfind\<close> descends by itself, and looks for the
  first key that is not less than a string: the nearest that was passed on the way to the left.
\<close>

fun nfind_loop :: "('k \<Rightarrow> 's \<Rightarrow> int) \<Rightarrow> 's \<Rightarrow> 'k tree \<Rightarrow> 'k option \<Rightarrow> 'k option" where
  "nfind_loop cmp data \<langle>\<rangle> res = res"
| "nfind_loop cmp data \<langle>l, k, r\<rangle> res =
     (let c = cmp k data in
      if c = 0 then Some k
      else if c < 0 then nfind_loop cmp data r res
      else nfind_loop cmp data l (Some k))"

definition rb3str_cmp :: "glib \<Rightarrow> bool \<Rightarrow> string \<Rightarrow> string \<Rightarrow> int" where
  "rb3str_cmp G case_sensitive = (if case_sensitive then teco_string_cmp else teco_string_casecmp G)"

definition teco_rb3str_nfind :: "glib \<Rightarrow> string tree \<Rightarrow> bool \<Rightarrow> string \<Rightarrow> string option" where
  "teco_rb3str_nfind G t case_sensitive str = nfind_loop (rb3str_cmp G case_sensitive) str t None"

text \<open>\<open>teco_rb3str_get_next\<close> goes through the tree in the order of its keys; the keys from a node of it on.\<close>

definition keys_from :: "'k tree \<Rightarrow> 'k option \<Rightarrow> 'k list" where
  "keys_from t k = (case k of None \<Rightarrow> [] | Some k \<Rightarrow> dropWhile (\<lambda>x. x \<noteq> k) (inorder t))"

definition string_diff :: "glib \<Rightarrow> bool \<Rightarrow> string \<Rightarrow> string \<Rightarrow> nat" where
  "string_diff G case_sensitive = (if case_sensitive then teco_string_diff else teco_string_casediff G)"

text \<open>\<open>gsize\<close> wraps around: characters that differ in case may differ in their length.\<close>

definition gsize_minus :: "nat \<Rightarrow> nat \<Rightarrow> nat" where
  "gsize_minus a b = (if b \<le> a then a - b else a + 2 ^ 64 - b)"

text \<open>\<open>unichars\<close> is \<open>g_utf8_strlen\<close>. The loop keeps the first match, the length all matches agree on and their number.\<close>

fun complete_loop :: "(string \<Rightarrow> string \<Rightarrow> nat) \<Rightarrow> (string \<Rightarrow> nat) \<Rightarrow> string \<Rightarrow> nat \<Rightarrow> string list \<Rightarrow>
    string option \<times> nat \<times> nat \<Rightarrow> string option \<times> nat \<times> nat" where
  "complete_loop diff unichars str restrict_len [] acc = acc"
| "complete_loop diff unichars str restrict_len (cur # keys) (first, prefix_len, n) =
     (if length str \<le> length cur \<and> diff cur str = length str then
        complete_loop diff unichars str restrict_len keys
         (if restrict_len \<noteq> 0 \<and> unichars cur \<noteq> restrict_len then (first, prefix_len, n)
          else
            case first of
              None \<Rightarrow> (Some cur, length cur - length str, Suc n)
            | Some f \<Rightarrow>
                let len = gsize_minus (diff cur f) (length str)
                in (first, if len < prefix_len then len else prefix_len, Suc n))
      else (first, prefix_len, n))"

text \<open>The result is the string to insert, whether the completion was unambiguous, and the entries that pop up.\<close>

definition teco_rb3str_auto_complete :: "glib \<Rightarrow> (string \<Rightarrow> nat) \<Rightarrow> string tree \<Rightarrow> bool \<Rightarrow> string \<Rightarrow> nat \<Rightarrow>
    string \<times> bool \<times> string list" where
  "teco_rb3str_auto_complete G unichars t case_sensitive str restrict_len =
     (let diff = string_diff G case_sensitive;
          (first, prefix_len, n) = complete_loop diff unichars str restrict_len
             (keys_from t (teco_rb3str_nfind G t case_sensitive str)) (None, 0, 0)
      in (if 0 < prefix_len then take prefix_len (drop (length str) (the first)) else [],
          n = 1,
          if 0 < prefix_len \<or> n \<le> 1 then []
          else filter (\<lambda>cur. \<not> (restrict_len \<noteq> 0 \<and> unichars cur \<noteq> restrict_len))
            (takeWhile (\<lambda>cur. length str \<le> length cur \<and> diff cur str = length str) (keys_from t first))))"

section \<open>Completing in trees\<close>

lemma find_split: "find P (xs @ ys) = (case find P xs of Some x \<Rightarrow> Some x | None \<Rightarrow> find P ys)"
  by (induction xs) auto

context key_order
begin

lemma nfind_loop_find:
  assumes "sorted_wrt (\<lambda>a b. cmp a b < 0) (inorder t)"
  shows "nfind_loop cmp x t res = (case find (\<lambda>k. 0 \<le> cmp k x) (inorder t) of Some k \<Rightarrow> Some k | None \<Rightarrow> res)"
  using assms
proof (induction t arbitrary: res)
  case (Node l k r)
  have s: "sorted_wrt (\<lambda>a b. cmp a b < 0) (inorder l)" "sorted_wrt (\<lambda>a b. cmp a b < 0) (inorder r)"
    "\<forall>a \<in> set (inorder l). cmp a k < 0"
    using Node.prems by (auto simp: sorted_wrt_append)
  have left: "find (\<lambda>k. 0 \<le> cmp k x) (inorder l) = None" if "cmp k x \<le> 0"
    using cmp_less_trans [OF _ that] s(3) by (force simp: find_None_iff)
  show ?case
    using Node.IH(1) [OF s(1)] Node.IH(2) [OF s(2)] left by (auto simp: Let_def find_split split: option.split)
qed simp

lemma keys_from_find:
  assumes "sorted_wrt (\<lambda>a b. cmp a b < 0) (inorder t)"
  shows "keys_from t (find (\<lambda>k. 0 \<le> cmp k x) (inorder t)) = dropWhile (\<lambda>k. cmp k x < 0) (inorder t)"
proof -
  have "(case find (\<lambda>k. 0 \<le> cmp k x) ks of None \<Rightarrow> [] | Some k \<Rightarrow> dropWhile (\<lambda>y. y \<noteq> k) ks) = dropWhile (\<lambda>k. cmp k x < 0) ks"
    if "sorted_wrt (\<lambda>a b. cmp a b < 0) ks" for ks
    using that
  proof (induction ks)
    case (Cons y ys)
    have "y \<noteq> k" if "cmp y x < 0" "find (\<lambda>k. 0 \<le> cmp k x) ys = Some k" for k
      using that by (auto simp: find_Some_iff)
    then show ?case using Cons by (auto split: option.splits)
  qed simp
  then show ?thesis unfolding keys_from_def using assms by blast
qed

end

text \<open>The keys with a prefix follow each other, from the prefix on.\<close>

lemma cmp_extends: "prefix p k \<Longrightarrow> 0 \<le> teco_string_cmp k p"
proof (induction p arbitrary: k)
  case Nil
  then show ?case by (cases k) (simp_all add: teco_string_cmp_def)
next
  case (Cons x p)
  then obtain k' where "k = x # k'" "prefix p k'" by (cases k) auto
  then show ?case using Cons.IH [of k'] by (simp add: teco_string_cmp_def Let_def)
qed

lemma cmp_beyond:
  assumes "0 \<le> teco_string_cmp a p" "\<not> prefix p a" "teco_string_cmp a b \<le> 0"
  shows "\<not> prefix p b"
  using assms
proof (induction p arbitrary: a b)
  case (Cons x p)
  then obtain y a' where a: "a = y # a'" by (cases a) (auto simp: teco_string_cmp_def)
  then obtain z b' where b: "b = z # b'" using Cons.prems(3) by (cases b) (auto simp: teco_string_cmp_def)
  show ?case
    using Cons.prems Cons.IH [of a' b'] by (auto simp: a b teco_string_cmp_def Let_def split: if_splits)
qed simp

lemma takeWhile_prefix:
  assumes "sorted_wrt (\<lambda>a b. teco_string_cmp a b < 0) ks"
  shows "takeWhile (prefix p) (dropWhile (\<lambda>k. teco_string_cmp k p < 0) ks) = filter (prefix p) ks"
  using assms
proof (induction ks)
  case (Cons k ks)
  show ?case
  proof (cases "teco_string_cmp k p < 0")
    case True
    then have "\<not> prefix p k" using cmp_extends [of p k] by linarith
    then show ?thesis using True Cons by simp
  next
    case ge: False
    have after: "\<not> teco_string_cmp x p < 0" if "x \<in> set ks" for x
    proof
      assume "teco_string_cmp x p < 0"
      moreover have "teco_string_cmp k x \<le> 0" using Cons.prems that by fastforce
      ultimately have "teco_string_cmp k p < 0" unfolding teco_string_cmp_def by (rule cmp_by.cmp_le_less_trans [rotated])
      then show False using ge by simp
    qed
    then have drop: "dropWhile (\<lambda>k. teco_string_cmp k p < 0) ks = ks" by (cases ks) auto
    show ?thesis
    proof (cases "prefix p k")
      case True
      then show ?thesis using Cons ge drop by simp
    next
      case False
      then have "\<not> prefix p x" if "x \<in> set ks" for x
        using cmp_beyond [of k p x] ge that Cons.prems by fastforce
      then show ?thesis using False ge by (simp add: filter_empty_conv)
    qed
  qed
qed simp

text \<open>What strings agree on, as it grows less by one string after the other.\<close>

definition agreed :: "string set \<Rightarrow> string \<Rightarrow> bool" where
  "agreed A w \<longleftrightarrow> (\<forall>x. (\<forall>a \<in> A. prefix x a) \<longleftrightarrow> prefix x w)"

lemma agreed_one: "agreed {k} k"
  by (simp add: agreed_def)

lemma agreed_lcp: "agreed A w \<Longrightarrow> A \<noteq> {} \<Longrightarrow> Longest_common_prefix A = w"
  by (rule Longest_common_prefix_eq) (auto simp: agreed_def prefix_length_le)

lemma prefix_diff: "prefix x f \<and> prefix x k \<longleftrightarrow> prefix x (take (teco_string_diff k f) f)"
proof
  assume "prefix x f \<and> prefix x k"
  then have "prefix x (longest_common_prefix k f)" by (blast intro: longest_common_prefix_max_prefix)
  then show "prefix x (take (teco_string_diff k f) f)" by (simp add: diff_lcp [symmetric] diff_take)
next
  assume p: "prefix x (take (teco_string_diff k f) f)"
  then have "prefix x (take (teco_string_diff k f) k)" by (simp add: diff_take)
  with p show "prefix x f \<and> prefix x k" by (blast intro: prefix_order.trans take_is_prefix)
qed

lemma prefix_take: "prefix x (take n f) \<longleftrightarrow> prefix x f \<and> (length x \<le> n \<or> length f \<le> n)"
proof
  assume p: "prefix x (take n f)"
  then have "length x \<le> min n (length f)" using prefix_length_le [OF p] by simp
  then show "prefix x f \<and> (length x \<le> n \<or> length f \<le> n)" using prefix_order.trans [OF p take_is_prefix] by simp
next
  assume "prefix x f \<and> (length x \<le> n \<or> length f \<le> n)"
  then show "prefix x (take n f)" by (auto simp: prefix_def)
qed

lemma agreed_step:
  assumes "agreed A (take m f)" "f \<in> A"
  shows "agreed (insert k A) (take (min m (teco_string_diff k f)) f)"
proof -
  let ?d = "teco_string_diff k f"
  have "prefix x k \<and> prefix x (take m f) \<longleftrightarrow> prefix x (take (min m ?d) f)" for x
    using prefix_diff [of x f k] by (auto simp: prefix_take)
  then show ?thesis using assms by (auto simp: agreed_def)
qed

text \<open>The candidates of a completion, and the loop over them.\<close>

definition candidates :: "(string \<Rightarrow> nat) \<Rightarrow> string \<Rightarrow> nat \<Rightarrow> string list \<Rightarrow> string list" where
  "candidates unichars str restrict_len = filter (\<lambda>k. prefix str k \<and> (restrict_len = 0 \<or> unichars k = restrict_len))"

lemma prefix_test: "length str \<le> length k \<and> teco_string_diff k str = length str \<longleftrightarrow> prefix str k"
  by (auto simp: diff_prefix prefix_length_le)

lemma both_extend: "prefix str k \<Longrightarrow> prefix str f \<Longrightarrow> length str \<le> teco_string_diff k f"
  using prefix_diff [of str f k] prefix_length_le [of str "take (teco_string_diff k f) f"] by simp

fun counted :: "string \<Rightarrow> string list \<Rightarrow> string option \<times> nat \<times> nat \<Rightarrow> bool" where
  "counted str qs (first, p, n) \<longleftrightarrow>
     n = length qs \<and> (\<forall>q \<in> set qs. prefix str q) \<and>
     (case first of None \<Rightarrow> qs = [] \<and> p = 0
      | Some f \<Rightarrow> qs \<noteq> [] \<and> f = hd qs \<and> length str + p \<le> length f \<and> agreed (set qs) (take (length str + p) f))"

lemma complete_loop_counted:
  assumes "counted str qs acc"
  shows "counted str (qs @ candidates unichars str restrict_len (takeWhile (prefix str) ks))
    (complete_loop teco_string_diff unichars str restrict_len ks acc)"
  using assms
proof (induction ks arbitrary: qs acc)
  case Nil
  then show ?case by (simp add: candidates_def)
next
  case (Cons k ks)
  obtain first p n where acc: "acc = (first, p, n)" by (cases acc)
  show ?case
  proof (cases "prefix str k")
    case False
    then show ?thesis using Cons.prems by (simp add: acc candidates_def prefix_test)
  next
    case pre: True
    show ?thesis
    proof (cases "restrict_len \<noteq> 0 \<and> unichars k \<noteq> restrict_len")
      case True
      then show ?thesis using Cons.IH [OF Cons.prems] pre by (simp add: acc candidates_def prefix_test)
    next
      case False
      let ?acc = "case first of None \<Rightarrow> (Some k, length k - length str, Suc n)
            | Some f \<Rightarrow> let len = gsize_minus (teco_string_diff k f) (length str) in (first, if len < p then len else p, Suc n)"
      have "counted str (qs @ [k]) ?acc"
      proof (cases first)
        case None
        then show ?thesis using Cons.prems pre prefix_length_le [OF pre] agreed_one [of k] by (simp add: acc)
      next
        case (Some f)
        then have f: "f \<in> set qs" "prefix str f" "length str + p \<le> length f" "agreed (set qs) (take (length str + p) f)" "qs \<noteq> []" "f = hd qs"
          using Cons.prems by (auto simp: acc)
        let ?d = "teco_string_diff k f"
        have d: "length str \<le> ?d" by (rule both_extend [OF pre f(2)])
        define q where "q = (if ?d - length str < p then ?d - length str else p)"
        have q: "length str + q = min (length str + p) ?d" using d by (auto simp: q_def)
        have "counted str (qs @ [k]) (Some f, q, Suc n)"
          using Cons.prems Some pre f agreed_step [OF f(4,1), of k] q by (simp add: acc min.coboundedI1)
        moreover have "?acc = (Some f, q, Suc n)" using d Some by (simp add: gsize_minus_def Let_def q_def)
        ultimately show ?thesis by (simp only:)
      qed
      then show ?thesis using Cons.IH [of "qs @ [k]" ?acc] pre False
        by (cases "restrict_len = 0") (simp_all add: acc candidates_def prefix_test)
    qed
  qed
qed

lemma candidates_from_first:
  assumes s: "sorted_wrt (\<lambda>a b. teco_string_cmp a b < 0) (inorder t)" and ne: "candidates unichars str restrict_len (inorder t) \<noteq> []"
  shows "candidates unichars str restrict_len (takeWhile (prefix str)
      (keys_from t (Some (hd (candidates unichars str restrict_len (inorder t)))))) = candidates unichars str restrict_len (inorder t)"
proof -
  let ?P = "\<lambda>k. prefix str k \<and> (restrict_len = 0 \<or> unichars k = restrict_len)" and ?ks = "inorder t"
  obtain a f b where ks: "?ks = a @ f # b" and f: "?P f" and a: "\<forall>x \<in> set a. \<not> ?P x"
    using ne split_list_first_prop [of ?ks ?P] by (auto simp: candidates_def filter_empty_conv)
  have c: "candidates unichars str restrict_len ?ks = candidates unichars str restrict_len (f # b)"
    using a by (simp add: ks candidates_def filter_empty_conv)
  then have h: "hd (candidates unichars str restrict_len ?ks) = f" using f by (simp add: candidates_def)
  have "x \<noteq> f" if "x \<in> set a" for x
  proof
    assume "x = f"
    moreover have "teco_string_cmp x f < 0" using s that by (simp add: ks sorted_wrt_append)
    moreover have "teco_string_cmp f f = 0" by simp
    ultimately show False by (metis less_irrefl)
  qed
  then have start: "keys_from t (Some f) = f # b" by (simp add: keys_from_def ks dropWhile_append2)
  have "sorted_wrt (\<lambda>a b. teco_string_cmp a b < 0) (f # b)" using s by (simp add: ks sorted_wrt_append)
  then have "takeWhile (prefix str) (f # b) = filter (prefix str) (f # b)"
    using takeWhile_prefix [of "f # b" str] cmp_extends [of str f] f by simp
  moreover have "candidates unichars str restrict_len (filter (prefix str) ks) = candidates unichars str restrict_len ks" for ks
    unfolding candidates_def filter_filter by (rule filter_cong) auto
  ultimately show ?thesis by (simp only: h [unfolded c] start c)
qed

text \<open>
  C37: Auto-completion in a tree of strings. The candidates are the keys with the prefix, and with the length in
  characters that is asked for; the prefix and the string inserted after it are the longest string all candidates begin
  with; the completion is unambiguous if there is just one candidate; and all of them pop up, in order, if there are several
  that agree on nothing more.
\<close>

theorem tree_completion:
  assumes "sorted_wrt (\<lambda>a b. teco_string_cmp a b < 0) (inorder t)"
    and "candidates unichars str restrict_len (inorder t) = ms"
    and "teco_rb3str_auto_complete G unichars t True str restrict_len = (inserted, unambiguous, entries)"
  shows "(ms = [] \<longrightarrow> inserted = []) \<and> (ms \<noteq> [] \<longrightarrow> str @ inserted = Longest_common_prefix (set ms)) \<and>
    (unambiguous \<longleftrightarrow> length ms = 1) \<and>
    entries = (if inserted = [] \<and> 1 < length ms then ms else [])"
proof -
  let ?ks = "inorder t" and ?from = "keys_from t (teco_rb3str_nfind G t True str)"
  have k: "key_order teco_string_cmp" unfolding teco_string_cmp_def by unfold_locales
  have "teco_rb3str_nfind G t True str = find (\<lambda>k. 0 \<le> teco_string_cmp k str) ?ks"
    by (simp add: teco_rb3str_nfind_def rb3str_cmp_def key_order.nfind_loop_find [OF k assms(1)] split: option.split)
  then have "?from = dropWhile (\<lambda>k. teco_string_cmp k str < 0) ?ks"
    by (simp add: key_order.keys_from_find [OF k assms(1)])
  then have s: "takeWhile (prefix str) ?from = filter (prefix str) ?ks"
    by (simp add: takeWhile_prefix [OF assms(1)])
  have ms: "candidates unichars str restrict_len (takeWhile (prefix str) ?from) = ms"
    unfolding s assms(2) [symmetric] by (simp add: candidates_def conj_commute)
  obtain first p n where l: "complete_loop teco_string_diff unichars str restrict_len ?from (None, 0, 0) = (first, p, n)"
    by (cases "complete_loop teco_string_diff unichars str restrict_len ?from (None, 0, 0)")
  have c: "counted str ms (first, p, n)"
    using complete_loop_counted [of str "[]" "(None, 0, 0)" unichars restrict_len ?from] unfolding l ms by simp
  have agree: "str @ take p (drop (length str) f) = take (length str + p) f" if "first = Some f" for f
  proof -
    have "prefix str f" using c that by simp
    then show ?thesis by (auto elim!: prefixE)
  qed
  have entries: "entries = (if 0 < p \<or> n \<le> 1 then [] else candidates unichars str restrict_len (takeWhile (prefix str) (keys_from t first)))"
    "inserted = (if 0 < p then take p (drop (length str) (the first)) else [])" "unambiguous = (n = 1)"
    using assms(3) unfolding teco_rb3str_auto_complete_def string_diff_def if_True Let_def l prefix_test candidates_def
    by (auto intro!: filter_cong dest: set_takeWhileD)
  show ?thesis
  proof (cases first)
    case None
    then show ?thesis using c by (simp add: entries)
  next
    case (Some f)
    have f: "ms \<noteq> []" "f = hd ms" "n = length ms" "agreed (set ms) (take (length str + p) f)" "length str + p \<le> length f"
      using c unfolding Some counted.simps option.case by blast+
    have "candidates unichars str restrict_len (takeWhile (prefix str) (keys_from t first)) = ms"
      using candidates_from_first [OF assms(1), of unichars str restrict_len] f(1) by (simp add: assms(2) Some f(2))
    moreover have "inserted = [] \<longleftrightarrow> p = 0" using f(5) entries(2) by (auto simp: Some)
    moreover have "str @ inserted = take (length str + p) f" using agree [OF Some] entries(2) by (auto simp: Some)
    ultimately show ?thesis using agreed_lcp [OF f(4)] f(1,3) entries by auto
  qed
qed

theorem tree_completion_witness:
  "teco_rb3str_auto_complete ascii_glib length \<langle>\<langle>\<langle>\<rangle>, ''ab'', \<langle>\<rangle>\<rangle>, ''abcd'', \<langle>\<langle>\<rangle>, ''abce'', \<langle>\<rangle>\<rangle>\<rangle> True ''ab'' 4 = (''c'', False, [])"
proof -
  let ?t = "\<langle>\<langle>\<langle>\<rangle>, ''ab'', \<langle>\<rangle>\<rangle>, ''abcd'', \<langle>\<langle>\<rangle>, ''abce'', \<langle>\<rangle>\<rangle>\<rangle>"
  obtain i u es where r: "teco_rb3str_auto_complete ascii_glib length ?t True ''ab'' 4 = (i, u, es)"
    by (cases "teco_rb3str_auto_complete ascii_glib length ?t True ''ab'' 4")
  have s: "sorted_wrt (\<lambda>a b. teco_string_cmp a b < 0) (inorder ?t)" by (simp add: teco_string_cmp_def schar_def)
  have c: "candidates length ''ab'' 4 (inorder ?t) = [''abcd'', ''abce'']" by (simp add: candidates_def)
  have "agreed {''abcd''} (take 4 ''abcd'')" using agreed_one [of "''abcd''"] by simp
  then have "agreed {''abce'', ''abcd''} (take (min 4 (teco_string_diff ''abce'' ''abcd'')) ''abcd'')"
    by (rule agreed_step) simp
  then have "Longest_common_prefix {''abcd'', ''abce''} = ''abc''"
    using agreed_lcp [of "{''abce'', ''abcd''}" "''abc''"] by (simp add: insert_commute)
  then show ?thesis using tree_completion [OF s c r] by (auto simp: r)
qed

section \<open>File names\<close>

text \<open>
  File names on Unix. The directory with its entries in the order in which they are read, the tests on files, the last
  component of a path and the joining of paths are parameters.
\<close>

datatype file_test = G_FILE_TEST_IS_REGULAR | G_FILE_TEST_IS_SYMLINK | G_FILE_TEST_IS_DIR | G_FILE_TEST_IS_EXECUTABLE | G_FILE_TEST_EXISTS

record file_system =
  g_dir_entries :: "string \<Rightarrow> string list option"
  g_file_test :: "string \<Rightarrow> file_test \<Rightarrow> bool"
  g_path_get_basename :: "string \<Rightarrow> string"
  g_build_filename :: "string \<Rightarrow> string \<Rightarrow> string"

definition is_dir_separator :: "char \<Rightarrow> bool" where
  "is_dir_separator c \<longleftrightarrow> c = CHR ''/''"

fun dirname_loop :: "string \<Rightarrow> nat \<Rightarrow> nat \<Rightarrow> nat" where
  "dirname_loop [] i len = len"
| "dirname_loop (c # p) i len = dirname_loop p (Suc i) (if is_dir_separator c then i + 1 else len)"

definition teco_file_get_dirname_len :: "string \<Rightarrow> nat" where
  "teco_file_get_dirname_len path = dirname_loop path 0 0"

definition teco_file_is_dir :: "string \<Rightarrow> bool" where
  "teco_file_is_dir filename \<longleftrightarrow> filename \<noteq> [] \<and> is_dir_separator (last filename)"

definition teco_file_is_visible :: "file_system \<Rightarrow> string \<Rightarrow> bool" where
  "teco_file_is_visible F path \<longleftrightarrow> take 1 (g_path_get_basename F path) \<noteq> ''.''"

text \<open>
  \<open>home\<close> is what reading the register \<open>$HOME\<close> returns, \<open>None\<close> for an error; the string itself is \<open>None\<close> for the
  \<open>NULL\<close> of a register that has no document. The result \<open>None\<close> is the failing assertion on the latter.
\<close>

definition teco_file_expand_path :: "file_system \<Rightarrow> string option option \<Rightarrow> string option \<Rightarrow> string option" where
  "teco_file_expand_path F home path =
     (case path of
        None \<Rightarrow> Some []
      | Some path \<Rightarrow>
          if path = [] \<or> hd path \<noteq> CHR ''~'' \<or> (1 < length path \<and> \<not> is_dir_separator (path ! 1)) then Some path
          else
            case home of
              None \<Rightarrow> Some path
            | Some None \<Rightarrow> None
            | Some (Some dir) \<Rightarrow>
                if teco_string_contains dir (CHR 0x00) then Some path else Some (g_build_filename F dir (drop 1 path)))"

definition teco_file_is_case_sensitive :: "string \<Rightarrow> bool" where
  "teco_file_is_case_sensitive path \<longleftrightarrow> True"

text \<open>The entry as it is offered, if it is.\<close>

definition file_candidate :: "file_system \<Rightarrow> (string \<Rightarrow> string \<Rightarrow> nat) \<Rightarrow> file_test \<Rightarrow> string \<Rightarrow> string \<Rightarrow> string \<Rightarrow> string option" where
  "file_candidate F diff test dirname basename cur_basename =
     (if diff cur_basename basename \<noteq> length basename then None
      else
        let cur_filename = dirname @ cur_basename in
        if (basename = [] \<and> \<not> teco_file_is_visible F cur_filename) \<or>
           (test \<noteq> G_FILE_TEST_EXISTS \<and> \<not> g_file_test F cur_filename test) then None
        else if test = G_FILE_TEST_IS_DIR \<or> g_file_test F cur_filename G_FILE_TEST_IS_DIR then
          Some (cur_filename @ (if dirname \<noteq> [] then [last dirname] else ''/''))
        else Some cur_filename)"

fun files_loop :: "(string \<Rightarrow> string option) \<Rightarrow> (string \<Rightarrow> string \<Rightarrow> nat) \<Rightarrow> nat \<Rightarrow> string list \<Rightarrow> string list \<times> nat \<Rightarrow> string list \<times> nat" where
  "files_loop candidate diff filename_len [] acc = acc"
| "files_loop candidate diff filename_len (entry # entries) (files, prefix_len) =
     (case candidate entry of
        None \<Rightarrow> files_loop candidate diff filename_len entries (files, prefix_len)
      | Some cur_filename \<Rightarrow>
          files_loop candidate diff filename_len entries
            (cur_filename # files,
             case files of
               [] \<Rightarrow> length (drop filename_len cur_filename)
             | other # _ \<Rightarrow>
                 let len = diff (drop filename_len other) (drop filename_len cur_filename)
                 in if len < prefix_len then len else prefix_len))"

text \<open>
  The result, as for trees; an entry that pops up is shown as a directory, or as a file with whether there is a buffer
  for it. \<open>sort\<close> is by \<open>strcmp\<close>.
\<close>

datatype popup_entry = TECO_POPUP_DIRECTORY string | TECO_POPUP_FILE string bool

definition teco_file_auto_complete :: "file_system \<Rightarrow> glib \<Rightarrow> (string \<Rightarrow> bool) \<Rightarrow> string option option \<Rightarrow> string option \<Rightarrow> file_test \<Rightarrow>
    (string \<times> bool \<times> popup_entry list) option" where
  "teco_file_auto_complete F G in_ring home filename test =
     (case teco_file_expand_path F home filename of None \<Rightarrow> None | Some filename_expanded \<Rightarrow>
      Some (let filename_len = length filename_expanded;
          dirname_len = teco_file_get_dirname_len filename_expanded;
          dirname = take dirname_len filename_expanded;
          basename = drop dirname_len filename_expanded;
          dir = (if dirname_len \<noteq> 0 then dirname else ''.'')
      in case g_dir_entries F dir of
           None \<Rightarrow> ([], False, [])
         | Some entries \<Rightarrow>
             let diff = string_diff G (teco_file_is_case_sensitive dir);
                 (files, prefix_len) = files_loop (file_candidate F diff test dirname basename) diff filename_len entries ([], 0)
             in (if 0 < prefix_len then take prefix_len (drop filename_len (hd files)) else [],
                 length files = 1 \<and> \<not> teco_file_is_dir (hd files),
                 if 0 < prefix_len \<or> length files \<le> 1 then []
                 else map (\<lambda>f. if teco_file_is_dir f then TECO_POPUP_DIRECTORY f else TECO_POPUP_FILE f (in_ring f)) (sort files))))"

lemma diff_commute: "teco_string_diff a b = teco_string_diff b a"
  by (induction a b rule: teco_string_diff.induct) auto

lemma diff_append: "teco_string_diff (w @ a) (w @ b) = length w + teco_string_diff a b"
  by (induction w) auto

text \<open>The loop over the entries: the file names so far agree on \<open>filename_len + prefix_len\<close> characters of the last one.\<close>

fun files_agree :: "string \<Rightarrow> string list \<times> nat \<Rightarrow> bool" where
  "files_agree filename (files, p) \<longleftrightarrow>
     (\<forall>f \<in> set files. prefix filename f) \<and>
     (if files = [] then p = 0
      else length filename + p \<le> length (hd files) \<and> agreed (set files) (take (length filename + p) (hd files)))"

lemma files_loop_agree:
  assumes "files_agree filename (files, p)" "\<And>e f. candidate e = Some f \<Longrightarrow> prefix filename f"
  shows "fst (files_loop candidate teco_string_diff (length filename) entries (files, p)) = rev (List.map_filter candidate entries) @ files \<and>
    files_agree filename (files_loop candidate teco_string_diff (length filename) entries (files, p))"
  using assms(1)
proof (induction entries arbitrary: files p)
  case Nil
  then show ?case by (simp add: List.map_filter_def)
next
  case (Cons e entries)
  show ?case
  proof (cases "candidate e")
    case None
    then show ?thesis using Cons by (simp add: List.map_filter_simps)
  next
    case (Some cur)
    then have pre: "prefix filename cur" by (rule assms(2))
    let ?p = "case files of [] \<Rightarrow> length (drop (length filename) cur)
        | other # _ \<Rightarrow> let len = teco_string_diff (drop (length filename) other) (drop (length filename) cur) in if len < p then len else p"
    have "files_agree filename (cur # files, ?p)"
    proof (cases files)
      case Nil
      then show ?thesis using pre agreed_one [of cur] prefix_length_le [OF pre] by (simp add: Let_def)
    next
      case (Cons other rest)
      then have o: "prefix filename other" "length filename + p \<le> length other" "agreed (set files) (take (length filename + p) other)"
        using Cons.prems by simp_all
      obtain a b where ab: "other = filename @ a" "cur = filename @ b" using pre o(1) by (auto elim!: prefixE)
      have d: "teco_string_diff cur other = length filename + teco_string_diff a b"
        by (simp add: ab diff_append diff_commute)
      have q: "length filename + ?p = min (length filename + p) (teco_string_diff cur other)"
        unfolding d by (simp add: Cons ab Let_def)
      have same: "take (length filename + ?p) other = take (length filename + ?p) cur"
        unfolding q by (metis (no_types, lifting) diff_take min.commute take_take)
      have "agreed (insert cur (set files)) (take (length filename + ?p) cur)"
        using agreed_step [OF o(3), of cur] same unfolding q by (simp add: Cons)
      moreover have "length filename + ?p \<le> length cur" using diff_le [of cur other] by (simp only: q min.coboundedI2)
      ultimately show ?thesis using Cons.prems pre by (simp del: list.case)
    qed
    then show ?thesis using Cons.IH [of "cur # files" ?p] Some by (simp add: List.map_filter_simps)
  qed
qed

lemma file_candidate_prefix:
  assumes "file_candidate F teco_string_diff test dirname basename e = Some f"
  shows "prefix (dirname @ basename) f"
proof -
  have "prefix basename e" using assms by (auto simp: file_candidate_def diff_prefix split: if_splits)
  then show ?thesis using assms by (auto simp: file_candidate_def Let_def elim!: prefixE split: if_splits)
qed

lemma dirname_loop_le: "len \<le> i \<Longrightarrow> dirname_loop p i len \<le> i + length p"
proof (induction p i len rule: dirname_loop.induct)
  case (2 c p i len)
  then have "dirname_loop p (Suc i) (if is_dir_separator c then i + 1 else len) \<le> Suc i + length p" by (intro "2.IH") auto
  then show ?case by simp
qed simp

text \<open>
  C38: Auto-completion of file names. The candidates are the entries of the directory that begin as the file name does, are visible
  or asked for, and pass the test, with a separator after directories; the file name and what is inserted after it are the
  longest string all candidates begin with; it is unambiguous if the only candidate is no directory; and the candidates pop
  up if there are several that agree on nothing more.
\<close>

theorem file_completion:
  assumes "teco_file_expand_path F home filename = Some expanded" "take (teco_file_get_dirname_len expanded) expanded = dirname"
    and "g_dir_entries F (if dirname \<noteq> [] then dirname else ''.'') = Some entries"
    and "List.map_filter (file_candidate F teco_string_diff test dirname (drop (length dirname) expanded)) entries = fs"
    and "teco_file_auto_complete F G in_ring home filename test = Some (inserted, unambiguous, popups)"
  shows "(fs = [] \<longrightarrow> inserted = []) \<and> (fs \<noteq> [] \<longrightarrow> expanded @ inserted = Longest_common_prefix (set fs)) \<and>
    (unambiguous \<longleftrightarrow> (\<exists>f. fs = [f] \<and> \<not> teco_file_is_dir f)) \<and> (popups \<noteq> [] \<longleftrightarrow> inserted = [] \<and> 1 < length fs)"
proof -
  have "teco_file_get_dirname_len expanded \<le> length expanded"
    using dirname_loop_le [of 0 0 expanded] by (simp add: teco_file_get_dirname_len_def)
  then have len: "teco_file_get_dirname_len expanded = length dirname" using assms(2) by auto
  have prefix_is: "take (length dirname) expanded = dirname" using assms(2) by (simp only: len)
  have nz: "teco_file_get_dirname_len expanded \<noteq> 0 \<longleftrightarrow> dirname \<noteq> []" by (simp add: len)
  have split: "expanded = dirname @ drop (length dirname) expanded" using assms(2) len by (metis append_take_drop_id)
  let ?cand = "file_candidate F teco_string_diff test dirname (drop (length dirname) expanded)"
  obtain files p where l: "files_loop ?cand teco_string_diff (length expanded) entries ([], 0) = (files, p)"
    by (cases "files_loop ?cand teco_string_diff (length expanded) entries ([], 0)")
  have pre: "prefix expanded f" if "?cand e = Some f" for e f
    using file_candidate_prefix [OF that] split by simp
  have l_agree: "fst (files, p) = rev fs @ [] \<and> files_agree expanded (files, p)"
    unfolding l [symmetric] assms(4) [symmetric] by (rule files_loop_agree) (simp, rule pre)
  then have files: "files = rev fs" by simp
  note a = l_agree [THEN conjunct2]
  have open_dir: "g_dir_entries F (if dirname = [] then ''.'' else dirname) = Some entries" using assms(3) by (cases "dirname = []") simp_all
  have "teco_file_auto_complete F G in_ring home filename test = Some
    (if 0 < p then take p (drop (length expanded) (hd files)) else [], length files = 1 \<and> \<not> teco_file_is_dir (hd files),
     if 0 < p \<or> length files \<le> 1 then []
     else map (\<lambda>f. if teco_file_is_dir f then TECO_POPUP_DIRECTORY f else TECO_POPUP_FILE f (in_ring f)) (sort files))"
    unfolding teco_file_auto_complete_def Let_def assms(1) option.case len prefix_is
    by (cases "dirname = []") (use open_dir l in \<open>simp_all add: string_diff_def teco_file_is_case_sensitive_def\<close>)
  then have r: "inserted = (if 0 < p then take p (drop (length expanded) (hd files)) else [])"
    "unambiguous \<longleftrightarrow> length files = 1 \<and> \<not> teco_file_is_dir (hd files)"
    "popups = (if 0 < p \<or> length files \<le> 1 then []
       else map (\<lambda>f. if teco_file_is_dir f then TECO_POPUP_DIRECTORY f else TECO_POPUP_FILE f (in_ring f)) (sort files))"
    unfolding assms(5) option.inject prod.inject by blast+
  show ?thesis
  proof (cases "files = []")
    case True
    then show ?thesis using files a r by simp
  next
    case False
    then have h: "prefix expanded (hd files)" "length expanded + p \<le> length (hd files)" "agreed (set files) (take (length expanded + p) (hd files))"
      using a by simp_all
    have fs: "set files = set fs" by (simp add: files)
    have "expanded @ inserted = take (length expanded + p) (hd files)" using h(1) r(1) by (auto elim!: prefixE)
    then have "expanded @ inserted = Longest_common_prefix (set fs)" using agreed_lcp [OF h(3)] False by (simp flip: fs)
    moreover have "inserted = [] \<longleftrightarrow> p = 0" using h(2) r(1) by auto
    moreover have "popups \<noteq> [] \<longleftrightarrow> p = 0 \<and> 1 < length fs"
    proof -
      have "sort files = [] \<longleftrightarrow> fs = []" unfolding files by (metis length_0_conv length_rev length_sort)
      then show ?thesis unfolding r(3) by (cases fs) (simp_all add: files)
    qed
    moreover have "unambiguous \<longleftrightarrow> (\<exists>f. fs = [f] \<and> \<not> teco_file_is_dir f)" unfolding r(2) files by (auto simp: length_Suc_conv)
    moreover have "fs \<noteq> []" using False files by simp
    ultimately show ?thesis by blast
  qed
qed

text \<open>For the witness: a directory with a file, a directory and a hidden file.\<close>

definition plain_files :: file_system where
  "plain_files = \<lparr>g_dir_entries = (\<lambda>d. if d = ''.'' then Some [''notes'', ''note'', ''.x''] else None),
     g_file_test = (\<lambda>f t. if t = G_FILE_TEST_IS_DIR then f = ''note'' else True),
     g_path_get_basename = (\<lambda>p. drop (teco_file_get_dirname_len p) p), g_build_filename = (\<lambda>a b. a @ b)\<rparr>"

theorem file_completion_witness:
  "teco_file_auto_complete plain_files ascii_glib (\<lambda>_. False) None (Some ''n'') G_FILE_TEST_EXISTS = Some (''ote'', False, [])"
proof -
  let ?fs = "[''notes'', ''note/'']"
  have e: "teco_file_expand_path plain_files None (Some ''n'') = Some ''n''" by (simp add: teco_file_expand_path_def)
  obtain x where x: "teco_file_auto_complete plain_files ascii_glib (\<lambda>_. False) None (Some ''n'') G_FILE_TEST_EXISTS = Some x"
    unfolding teco_file_auto_complete_def e option.case by blast
  obtain i u ps where "x = (i, u, ps)" by (cases x)
  with x have r: "teco_file_auto_complete plain_files ascii_glib (\<lambda>_. False) None (Some ''n'') G_FILE_TEST_EXISTS = Some (i, u, ps)" by simp
  have d: "take (teco_file_get_dirname_len ''n'') ''n'' = []" by (simp add: teco_file_get_dirname_len_def is_dir_separator_def)
  have g: "g_dir_entries plain_files (if [] \<noteq> [] then [] else ''.'') = Some [''notes'', ''note'', ''.x'']" by (simp add: plain_files_def)
  have c: "List.map_filter (file_candidate plain_files teco_string_diff G_FILE_TEST_EXISTS [] (drop (length []) ''n'')) [''notes'', ''note'', ''.x''] = ?fs"
    by (simp add: List.map_filter_simps file_candidate_def plain_files_def)
  have "agreed {''notes''} (take 5 ''notes'')" using agreed_one [of "''notes''"] by simp
  then have "agreed {''note/'', ''notes''} (take (min 5 (teco_string_diff ''note/'' ''notes'')) ''notes'')"
    by (rule agreed_step) simp
  then have "Longest_common_prefix {''notes'', ''note/''} = ''note''"
    using agreed_lcp [of "{''note/'', ''notes''}" "''note''"] by (simp add: insert_commute)
  then show ?thesis using file_completion [OF e d g c r] by (auto simp: r)
qed

section \<open>Symbols\<close>

text \<open>
  \<open>strncmp\<close> and \<open>g_ascii_strncasecmp\<close>, on strings that are followed by a null byte: the sign is what is used.
\<close>

definition head_byte :: "string \<Rightarrow> char" where
  "head_byte s = (case s of [] \<Rightarrow> CHR 0x00 | c # _ \<Rightarrow> c)"

fun strncmp_by :: "(char \<Rightarrow> char) \<Rightarrow> string \<Rightarrow> string \<Rightarrow> nat \<Rightarrow> int" where
  "strncmp_by f a b 0 = 0"
| "strncmp_by f a b (Suc n) =
     (let c = f (head_byte a); d = f (head_byte b) in
      if c \<noteq> d then of_char c - of_char d
      else if head_byte a = CHR 0x00 then 0
      else strncmp_by f (tl a) (tl b) n)"

record symbol_list =
  entries :: "(string \<times> int) list"
  cmp_fnc :: "string \<Rightarrow> string \<Rightarrow> nat \<Rightarrow> int"

definition teco_symbol_list_init :: "glib \<Rightarrow> (string \<times> int) list \<Rightarrow> bool \<Rightarrow> symbol_list" where
  "teco_symbol_list_init G es case_sensitive =
     \<lparr>entries = es, cmp_fnc = strncmp_by (if case_sensitive then (\<lambda>c. c) else g_ascii_tolower G)\<rparr>"

function lookup_loop :: "symbol_list \<Rightarrow> nat \<Rightarrow> string \<Rightarrow> int \<Rightarrow> int \<Rightarrow> int" where
  "lookup_loop L prefix_skip name lo hi =
     (if lo \<le> hi then
        let cur = lo + (hi - lo) div 2;
            c = cmp_fnc L (drop prefix_skip (fst (entries L ! nat cur))) name (length name + 1)
        in if c = 0 then snd (entries L ! nat cur)
           else if 0 < c then lookup_loop L prefix_skip name lo (cur - 1)
           else lookup_loop L prefix_skip name (cur + 1) hi
      else - 1)"
  by pat_completeness auto
termination
  by (relation "measure (\<lambda>(L, s, n, lo, hi). nat (hi - lo + 1))") auto

declare lookup_loop.simps [simp del]

definition teco_symbol_list_lookup :: "symbol_list \<Rightarrow> string \<Rightarrow> string \<Rightarrow> int" where
  "teco_symbol_list_lookup L name pre =
     (let prefix_skip = (if cmp_fnc L name pre (length pre) = 0 then 0 else length pre)
      in lookup_loop L prefix_skip name 0 (int (length (entries L)) - 1))"

text \<open>
  Completion: the entries left of the list, the length agreed on and their number. The first of those left is
  what the others are compared with. A length of 0 is taken for none yet.
\<close>

fun symbols_loop :: "glib \<Rightarrow> string \<Rightarrow> string list \<Rightarrow> string list \<times> nat \<times> nat \<Rightarrow> string list \<times> nat \<times> nat" where
  "symbols_loop G symbol [] acc = acc"
| "symbols_loop G symbol (entry # list) (glist, prefix_len, n) =
     (if strncmp_by (g_ascii_tolower G) entry symbol (length symbol) \<noteq> 0 then symbols_loop G symbol list (glist, prefix_len, n)
      else
        let glist = glist @ [entry];
            len = teco_string_casediff G (drop (length symbol) (hd glist)) (drop (length symbol) entry)
        in symbols_loop G symbol list (glist, if prefix_len = 0 \<or> len < prefix_len then len else prefix_len, Suc n))"

definition teco_symbol_list_auto_complete :: "glib \<Rightarrow> symbol_list \<Rightarrow> string option \<Rightarrow> string \<times> bool \<times> string list" where
  "teco_symbol_list_auto_complete G L symbol =
     (let symbol = (case symbol of None \<Rightarrow> [] | Some s \<Rightarrow> s);
          (glist, prefix_len, n) = symbols_loop G symbol (map fst (entries L)) ([], 0, 0)
      in (if 0 < prefix_len then take prefix_len (drop (length symbol) (hd glist)) else [],
          n = 1,
          if 0 < prefix_len \<or> n \<le> 1 then [] else glist))"

text \<open>The comparison is that of the folded strings.\<close>

lemma nonzero_char: "c \<noteq> CHR 0x00 \<Longrightarrow> 0 < (of_char c :: int)"
proof -
  assume "c \<noteq> CHR 0x00"
  then have "(of_char c :: int) \<noteq> of_char (CHR 0x00)" by (simp only: of_char_eq_iff not_False_eq_True)
  moreover have "of_char (CHR 0x00) = (0 :: int)" by simp
  ultimately show ?thesis using of_char_int_bounds [of c] by linarith
qed

lemma strncmp_by_less:
  assumes "\<And>c. f c = CHR 0x00 \<longleftrightarrow> c = CHR 0x00" "CHR 0x00 \<notin> set a" "CHR 0x00 \<notin> set b" "length b < n"
  shows "(strncmp_by f a b n = 0 \<longleftrightarrow> map f a = map f b) \<and> (strncmp_by f a b n < 0 \<longleftrightarrow> map f a < map f b)"
  using assms(2-4)
proof (induction n arbitrary: a b)
  case (Suc n)
  have ord: "of_char c < (of_char d :: int) \<longleftrightarrow> c < d" for c d :: char
    by (simp add: less_char_def flip: of_nat_of_char [where ?'a = int])
  show ?case
  proof (cases a; cases b)
    fix x xs y ys assume ab: "a = x # xs" "b = y # ys"
    then show ?thesis using Suc.prems Suc.IH [of xs ys] by (auto simp: head_byte_def Let_def ord)
  next
    fix y ys assume ab: "a = []" "b = y # ys"
    have n: "f (CHR 0x00) = CHR 0x00" "f y \<noteq> CHR 0x00" using assms(1) Suc.prems ab by auto
    then show ?thesis using ab nonzero_char [of "f y"] by (simp add: head_byte_def Let_def ord)
  next
    fix x xs assume ab: "a = x # xs" "b = []"
    have n: "f (CHR 0x00) = CHR 0x00" "f x \<noteq> CHR 0x00" using assms(1) Suc.prems ab by auto
    then show ?thesis using ab nonzero_char [of "f x"] by (auto simp add: head_byte_def Let_def ord)
  next
    assume "a = []" "b = []"
    then show ?thesis by (simp add: head_byte_def Let_def)
  qed
qed simp


lemma strncmp_by_zero:
  assumes "\<And>c. f c = CHR 0x00 \<longleftrightarrow> c = CHR 0x00" "CHR 0x00 \<notin> set a" "CHR 0x00 \<notin> set b"
  shows "strncmp_by f a b (length b) = 0 \<longleftrightarrow> prefix (map f b) (map f a)"
  using assms(2,3)
proof (induction b arbitrary: a)
  case (Cons y ys)
  have n: "f (CHR 0x00) = CHR 0x00" "f y \<noteq> CHR 0x00" using assms(1) Cons.prems by auto
  have inj: "of_char c = (of_char d :: int) \<longleftrightarrow> c = d" for c d :: char by (rule of_char_eq_iff)
  show ?case
  proof (cases a)
    case Nil
    then show ?thesis using n nonzero_char [of "f y"] by (simp add: head_byte_def Let_def)
  next
    case (Cons x xs)
    then show ?thesis using Cons.IH [of xs] Cons.prems by (auto simp: head_byte_def Let_def inj)
  qed
qed simp

text \<open>The search between two indices finds a key of a sorted list, or that it is none.\<close>

lemma lookup_loop_finds:
  assumes sorted: "sorted_wrt (<) keys" "length keys = length (entries L)"
    and cmp: "\<And>i. i < length keys \<Longrightarrow> (cmp_fnc L (drop skip (fst (entries L ! i))) name (length name + 1) = 0 \<longleftrightarrow> keys ! i = (x :: string)) \<and>
        (cmp_fnc L (drop skip (fst (entries L ! i))) name (length name + 1) < 0 \<longleftrightarrow> keys ! i < x)"
    and range: "0 \<le> lo" "hi < int (length keys)" "\<And>i. i < nat lo \<Longrightarrow> keys ! i < x" "\<And>i. hi < int i \<Longrightarrow> i < length keys \<Longrightarrow> x < keys ! i"
  shows "lookup_loop L skip name lo hi = (case map_of (zip keys (map snd (entries L))) x of Some v \<Rightarrow> v | None \<Rightarrow> - 1)"
  using range
proof (induction "nat (hi - lo + 1)" arbitrary: lo hi rule: less_induct)
  case less
  have later: "keys ! i < keys ! j" if "i < j" "j < length keys" for i j
    using sorted(1) that by (rule sorted_wrt_nth_less)
  show ?case
  proof (cases "lo \<le> hi")
    case False
    have "x \<notin> set keys"
    proof
      assume "x \<in> set keys"
      then obtain i where i: "i < length keys" "keys ! i = x" by (auto simp: in_set_conv_nth)
      have "i < nat lo \<or> hi < int i" using False less.prems(1) by linarith
      then show False using less.prems(3) [of i] less.prems(4) [of i] i by auto
    qed
    then have "map_of (zip keys (map snd (entries L))) x = None" using sorted(2) by (simp add: map_of_zip_is_None)
    then show ?thesis using False by (simp add: lookup_loop.simps [of L skip name lo hi])
  next
    case True
    define cur where "cur = lo + (hi - lo) div 2"
    have c: "lo \<le> cur" "cur \<le> hi" using True by (auto simp: cur_def)
    then have i: "nat cur < length keys" using less.prems(1,2) by simp
    let ?c = "cmp_fnc L (drop skip (fst (entries L ! nat cur))) name (length name + 1)"
    have step: "lookup_loop L skip name lo hi = (if ?c = 0 then snd (entries L ! nat cur)
        else if 0 < ?c then lookup_loop L skip name lo (cur - 1) else lookup_loop L skip name (cur + 1) hi)"
      using True by (simp add: lookup_loop.simps [of L skip name lo hi] cur_def Let_def)
    consider "keys ! nat cur = x" "?c = 0" | "x < keys ! nat cur" "0 < ?c" | "keys ! nat cur < x" "?c < 0"
      using cmp [OF i] by (metis linorder_cases linorder_neqE_linordered_idom)
    then show ?thesis
    proof cases
      case 1
      have "distinct keys" using sorted(1) by (simp add: strict_sorted_iff)
      then have "map_of (zip keys (map snd (entries L))) x = Some (snd (entries L ! nat cur))"
        using map_of_zip_nth [of keys "map snd (entries L)" "nat cur"] sorted(2) i 1(1) by simp
      then show ?thesis using step 1(2) by simp
    next
      case 2
      have "lookup_loop L skip name lo (cur - 1) = (case map_of (zip keys (map snd (entries L))) x of Some v \<Rightarrow> v | None \<Rightarrow> - 1)"
      proof (rule less.hyps)
        show "x < keys ! j" if "cur - 1 < int j" "j < length keys" for j
          using that 2(1) later [of "nat cur" j] c less.prems(1) by (cases "j = nat cur") (auto intro: less_trans)
      qed (use c less.prems in auto)
      then show ?thesis using step 2(2) by simp
    next
      case 3
      have "lookup_loop L skip name (cur + 1) hi = (case map_of (zip keys (map snd (entries L))) x of Some v \<Rightarrow> v | None \<Rightarrow> - 1)"
      proof (rule less.hyps)
        show "keys ! j < x" if "j < nat (cur + 1)" for j
        proof (cases "j = nat cur")
          case False
          then have "j < nat cur" using that c less.prems(1) by simp
          then show ?thesis using 3(1) later [of j "nat cur"] i by (auto intro: less_trans)
        qed (simp add: 3)
      qed (use c less.prems in auto)
      then show ?thesis using step 3(2) by simp
    qed
  qed
qed

text \<open>
  C39: Looking up symbols. In a table sorted by its names, all of which begin with the prefix, the binary search finds the
  value of the symbol with the given name, which may lack the prefix, and otherwise returns -1; cases are distinguished as
  the table was initialized.
\<close>

theorem symbol_lookup:
  assumes "teco_symbol_list_init G es case_sensitive = L" "(if case_sensitive then (\<lambda>c. c) else g_ascii_tolower G) = f"
    and "\<And>c. f c = CHR 0x00 \<longleftrightarrow> c = CHR 0x00" "sorted_wrt (<) (map (map f \<circ> fst) es)"
    and "\<And>s v. (s, v) \<in> set es \<Longrightarrow> CHR 0x00 \<notin> set s \<and> prefix (map f pre) (map f s)"
    and "CHR 0x00 \<notin> set name" "CHR 0x00 \<notin> set pre"
  shows "teco_symbol_list_lookup L name pre =
    (case map_of (map (\<lambda>(s, v). (map f s, v)) es) (if prefix (map f pre) (map f name) then map f name else map f (pre @ name)) of
       Some v \<Rightarrow> v | None \<Rightarrow> - 1)"
proof -
  let ?key = "if prefix (map f pre) (map f name) then map f name else map f (pre @ name)"
  let ?skip = "if prefix (map f pre) (map f name) then 0 else length pre"
  have L: "entries L = es" "cmp_fnc L = strncmp_by f" using assms(1,2) by (auto simp: teco_symbol_list_init_def)
  have z: "zip (map (map f \<circ> fst) es) (map snd es) = map (\<lambda>(s, v). (map f s, v)) es" by (induction es) auto
  have "lookup_loop L ?skip name 0 (int (length es) - 1) =
      (case map_of (zip (map (map f \<circ> fst) es) (map snd (entries L))) ?key of Some v \<Rightarrow> v | None \<Rightarrow> - 1)"
  proof (rule lookup_loop_finds [OF assms(4)])
    fix i assume i: "i < length (map (map f \<circ> fst) es)"
    define s where "s = fst (es ! i)"
    have s: "CHR 0x00 \<notin> set s" "prefix (map f pre) (map f s)"
      using assms(5) [of s "snd (es ! i)"] i by (simp_all add: s_def)
    have n: "CHR 0x00 \<notin> set (drop ?skip s)" using s(1) by (auto dest: in_set_dropD)
    have k: "map f s = (if prefix (map f pre) (map f name) then [] else map f pre) @ map f (drop ?skip s)"
      using s(2) by (auto simp: prefix_def drop_map [symmetric])
    have less: "w @ a < w @ b \<longleftrightarrow> a < b" for w a b :: string by (induction w) auto
    show "(cmp_fnc L (drop ?skip (fst (entries L ! i))) name (length name + 1) = 0 \<longleftrightarrow> map (map f \<circ> fst) es ! i = ?key) \<and>
        (cmp_fnc L (drop ?skip (fst (entries L ! i))) name (length name + 1) < 0 \<longleftrightarrow> map (map f \<circ> fst) es ! i < ?key)"
      unfolding L nth_map [OF i [unfolded length_map]] comp_apply s_def [symmetric]
    proof (cases "prefix (map f pre) (map f name)")
      case True
      then show "(strncmp_by f (drop ?skip s) name (length name + 1) = 0 \<longleftrightarrow> map f s = ?key) \<and>
          (strncmp_by f (drop ?skip s) name (length name + 1) < 0 \<longleftrightarrow> map f s < ?key)"
        using strncmp_by_less [OF assms(3) n assms(6), of "length name + 1"] by simp
    next
      case False
      then have "map f s = map f pre @ map f (drop (length pre) s)" using k by simp
      then show "(strncmp_by f (drop ?skip s) name (length name + 1) = 0 \<longleftrightarrow> map f s = ?key) \<and>
          (strncmp_by f (drop ?skip s) name (length name + 1) < 0 \<longleftrightarrow> map f s < ?key)"
        using False strncmp_by_less [OF assms(3) n assms(6), of "length name + 1"]
        by (simp only: if_False map_append append_same_eq same_append_eq less)
    qed
  qed (simp_all add: L)
  then show ?thesis
    using strncmp_by_zero [OF assms(3,6,7)] by (simp add: teco_symbol_list_lookup_def L z)
qed


theorem symbol_lookup_witness:
  "teco_symbol_list_lookup (teco_symbol_list_init ascii_glib [(''SCI_ADDTEXT'', 2001), (''SCI_CLEARALL'', 2004)] True) ''CLEARALL'' ''SCI_'' = 2004 \<and>
   teco_symbol_list_lookup (teco_symbol_list_init ascii_glib [(''SCI_ADDTEXT'', 2001), (''SCI_CLEARALL'', 2004)] True) ''SCI_'' ''SCI_'' = - 1"
proof -
  let ?es = "[(''SCI_ADDTEXT'', 2001 :: int), (''SCI_CLEARALL'', 2004)]"
  have f: "(if True then (\<lambda>c :: char. c) else g_ascii_tolower ascii_glib) = (\<lambda>c. c)" by simp
  have z: "((\<lambda>c :: char. c) c = CHR 0x00) = (c = CHR 0x00)" for c by simp
  have s: "sorted_wrt (<) (map (map (\<lambda>c. c) \<circ> fst) ?es)" by (simp add: list.map_ident)
  have p: "CHR 0x00 \<notin> set s \<and> prefix (map (\<lambda>c. c) ''SCI_'') (map (\<lambda>c. c) s)" if "(s, v) \<in> set ?es" for s v
    using that by auto
  show ?thesis
    using symbol_lookup [OF refl f z s p, where name = "''CLEARALL''"] symbol_lookup [OF refl f z s p, where name = "''SCI_''"]
    by (simp add: list.map_ident)
qed

end
