(* ===== verification/Ring.thy ===== *)
theory Ring
  imports Numbers
begin

text \<open>
  The ring of buffers (\<open>src/ring.c\<close>, \<open>src/ring.h\<close>) on the pointers of its tail queue (\<open>src/list.h\<close>): opening, selecting and closing
  buffers, with the tokens that undo this. A buffer that was closed stays allocated for its token, with the pointers it had,
  by which it finds back into the queue. The interpretation of the queue as a list shows that this works; it
  does not if the hooks that are run meanwhile fail or close buffers, too.
\<close>

section \<open>Tail queues\<close>

text \<open>The head is one of the entries: its \<open>first\<close> and \<open>last\<close> are what \<open>next\<close> and \<open>prev\<close> are in the others.\<close>

datatype tq_entry = Head | Entry nat

record tailq =
  tq_next :: "tq_entry \<Rightarrow> tq_entry option"
  tq_prev :: "tq_entry \<Rightarrow> tq_entry"

definition set_next :: "tq_entry \<Rightarrow> tq_entry option \<Rightarrow> 'a tailq_scheme \<Rightarrow> 'a tailq_scheme" where
  "set_next e v q = q\<lparr>tq_next := (tq_next q)(e := v)\<rparr>"

definition set_prev :: "tq_entry \<Rightarrow> tq_entry \<Rightarrow> 'a tailq_scheme \<Rightarrow> 'a tailq_scheme" where
  "set_prev e v q = q\<lparr>tq_prev := (tq_prev q)(e := v)\<rparr>"

definition teco_tailq_insert_before :: "tq_entry \<Rightarrow> tq_entry \<Rightarrow> 'a tailq_scheme \<Rightarrow> 'a tailq_scheme" where
  "teco_tailq_insert_before a b q =
     (let q = set_prev b (tq_prev q a) q;
          q = set_next b (Some a) q;
          q = set_next (tq_prev q a) (Some b) q
      in set_prev a b q)"

definition teco_tailq_insert_tail :: "tq_entry \<Rightarrow> 'a tailq_scheme \<Rightarrow> 'a tailq_scheme" where
  "teco_tailq_insert_tail e q =
     (let q = set_next e None q;
          q = set_prev e (tq_prev q Head) q;
          q = set_next (tq_prev q Head) (Some e) q
      in set_prev Head e q)"

definition teco_tailq_remove :: "tq_entry \<Rightarrow> 'a tailq_scheme \<Rightarrow> 'a tailq_scheme" where
  "teco_tailq_remove e q =
     (let q = (case tq_next q e of Some n \<Rightarrow> set_prev n (tq_prev q e) q | None \<Rightarrow> set_prev Head (tq_prev q e) q)
      in set_next (tq_prev q e) (tq_next q e) q)"

section \<open>The ring\<close>

datatype ring_token =
    Ring_qreg "string option" | Ring_current "nat option" | Ring_show nat
  | Ring_free nat | Ring_remove nat | Ring_reinsert nat | Ring_dirty nat bool | Ring_filename nat "string option"

text \<open>
  \<open>rg_fresh\<close> is the number of the next buffer that is allocated, \<open>rg_shown\<close> the buffer whose view is shown, \<open>rg_qreg\<close> the
  register that is edited, if any.
\<close>

record ring = tailq +
  rg_current :: "nat option"
  rg_qreg :: "string option"
  rg_shown :: nat
  rg_filename :: "nat \<Rightarrow> string option"
  rg_dirty :: "nat \<Rightarrow> bool"
  rg_fresh :: nat
  rg_undo :: bool
  rg_log :: "ring_token list"

type_synonym 'a rg = "(ring, teco_error, 'a) prog"

datatype ed_hook = TECO_ED_HOOK_ADD | TECO_ED_HOOK_EDIT | TECO_ED_HOOK_CLOSE | TECO_ED_HOOK_QUIT

text \<open>
  The parameters: the hooks, which are macros of the user; whether there is a file, the errors of loading and saving it, and its absolute
  name; and what is undone or saved when a register is edited.
\<close>

record ring_env =
  teco_ed_hook :: "ed_hook \<Rightarrow> unit rg"
  rg_is_file :: "string \<Rightarrow> bool"
  rg_load :: "string \<Rightarrow> teco_error option"
  rg_save :: "string \<Rightarrow> teco_error option"
  rg_absolute :: "string option \<Rightarrow> string option"
  rg_register_undo_edit :: "unit rg"
  rg_register_save :: "string option \<Rightarrow> unit rg"

fun teco_undo_ring_reinsert_action :: "nat \<Rightarrow> 'a tailq_scheme \<Rightarrow> 'a tailq_scheme" where
  "teco_undo_ring_reinsert_action b q =
     (case tq_next q (Entry b) of
        Some n \<Rightarrow> teco_tailq_insert_before n (Entry b) q
      | None \<Rightarrow> teco_tailq_insert_tail (Entry b) q)"

fun ring_undo :: "ring_token \<Rightarrow> ring \<Rightarrow> ring" where
  "ring_undo (Ring_qreg q) r = r\<lparr>rg_qreg := q\<rparr>"
| "ring_undo (Ring_current b) r = r\<lparr>rg_current := b\<rparr>"
| "ring_undo (Ring_show b) r = r\<lparr>rg_shown := b\<rparr>"
| "ring_undo (Ring_free b) r = r"
| "ring_undo (Ring_remove b) r = teco_tailq_remove (Entry b) r"
| "ring_undo (Ring_reinsert b) r = teco_undo_ring_reinsert_action b r"
| "ring_undo (Ring_dirty b d) r = r\<lparr>rg_dirty := (rg_dirty r)(b := d)\<rparr>"
| "ring_undo (Ring_filename b f) r = r\<lparr>rg_filename := (rg_filename r)(b := f)\<rparr>"

definition ring_push :: "(ring \<Rightarrow> ring_token list) \<Rightarrow> unit rg" where
  "ring_push t = modify (\<lambda>r. if rg_undo r then r\<lparr>rg_log := t r @ rg_log r\<rparr> else r)"

text \<open>Going through the queue. The fuel of the walk is the number of buffers that were ever allocated.\<close>

fun walk :: "nat \<Rightarrow> 'a tailq_scheme \<Rightarrow> tq_entry option \<Rightarrow> nat list" where
  "walk (Suc n) q (Some (Entry b)) = b # walk n q (tq_next q (Entry b))"
| "walk _ q _ = []"

definition ring_list :: "ring \<Rightarrow> nat list" where
  "ring_list r = walk (rg_fresh r) r (tq_next r Head)"

definition teco_ring_find_by_name :: "ring_env \<Rightarrow> ring \<Rightarrow> string option \<Rightarrow> nat option" where
  "teco_ring_find_by_name E r filename = List.find (\<lambda>b. rg_filename r b = rg_absolute E filename) (ring_list r)"

fun nth_buffer :: "nat list \<Rightarrow> teco_int \<Rightarrow> nat option" where
  "nth_buffer [] i = None"
| "nth_buffer (b # bs) i = (if i - 1 = 0 then Some b else nth_buffer bs (i - 1))"

text \<open>\<open>teco_ring_get_id\<close> and its loop, which the buffer ends.\<close>

fun id_loop :: "nat list \<Rightarrow> nat \<Rightarrow> teco_int \<Rightarrow> teco_int" where
  "id_loop [] b i = i"
| "id_loop (c # cs) b i = (if c = b then i else id_loop cs b (i + 1))"

definition ring_get_id :: "ring \<Rightarrow> nat \<Rightarrow> teco_int" where
  "ring_get_id r b = id_loop (ring_list r) b 1"

definition next_buffer :: "'a tailq_scheme \<Rightarrow> nat \<Rightarrow> tq_entry option" where
  "next_buffer q b = tq_next q (Entry b)"

definition prev_buffer :: "'a tailq_scheme \<Rightarrow> nat \<Rightarrow> tq_entry option" where
  "prev_buffer q b = tq_next q (tq_prev q (tq_prev q (Entry b)))"

definition as_buffer :: "tq_entry option \<Rightarrow> nat option" where
  "as_buffer e = (case e of Some (Entry b) \<Rightarrow> Some b | _ \<Rightarrow> None)"

definition show_buffer :: "nat \<Rightarrow> unit rg" where
  "show_buffer b = modify (\<lambda>r. r\<lparr>rg_shown := b\<rparr>)"

text \<open>The undo tokens before another buffer is edited. The ring has a current buffer then.\<close>

definition ring_undo_edit :: "unit rg" where
  "ring_undo_edit = ring_push (\<lambda>r. [Ring_show (the (rg_current r)), Ring_current (rg_current r), Ring_qreg (rg_qreg r)])"

definition teco_current_doc_undo_edit :: "ring_env \<Rightarrow> unit rg" where
  "teco_current_doc_undo_edit E =
     bindM (gets (\<lambda>r. rg_qreg r = None)) (\<lambda>buffer. if buffer then ring_undo_edit else rg_register_undo_edit E)"

definition teco_ring_undo_close :: "unit rg" where
  "teco_ring_undo_close = ring_push (\<lambda>r. [Ring_remove (the (rg_current r)), Ring_free (the (rg_current r))])"

definition set_filename :: "ring_env \<Rightarrow> nat \<Rightarrow> string option \<Rightarrow> unit rg" where
  "set_filename E b filename = modify (\<lambda>r. r\<lparr>rg_filename := (rg_filename r)(b := rg_absolute E filename)\<rparr>)"

text \<open>Saving a buffer, all dirty ones, and noting that the edited one has changed.\<close>

definition teco_buffer_save :: "ring_env \<Rightarrow> nat \<Rightarrow> string option \<Rightarrow> unit rg" where
  "teco_buffer_save E b filename =
     bindM (gets (\<lambda>r. case filename of None \<Rightarrow> rg_filename r b | Some f \<Rightarrow> Some f)) (\<lambda>name.
       case name of
         None \<Rightarrow> throw (TECO_ERROR_FAILED ''Cannot save the unnamed file without providing a file name'')
       | Some f \<Rightarrow>
           (case rg_save E f of
              Some e \<Rightarrow> throw e
            | None \<Rightarrow>
                thenM (ring_push (\<lambda>r. [Ring_dirty b (rg_dirty r b)]))
               (thenM (modify (\<lambda>r. r\<lparr>rg_dirty := (rg_dirty r)(b := False)\<rparr>))
               (thenM (ring_push (\<lambda>r. [Ring_filename b (rg_filename r b)]))
                  (set_filename E b name)))))"

definition teco_ring_save_all_dirty_buffers :: "ring_env \<Rightarrow> unit rg" where
  "teco_ring_save_all_dirty_buffers E =
     bindM (gets ring_list) (\<lambda>bs.
       mapM (\<lambda>b. bindM (gets (\<lambda>r. rg_dirty r b)) (\<lambda>d. whenM d (teco_buffer_save E b None))) bs)"

definition ring_dirtify :: "unit rg" where
  "ring_dirtify =
     bindM (gets (\<lambda>r. rg_qreg r \<noteq> None \<or> rg_dirty r (the (rg_current r)))) (\<lambda>b.
       whenM (\<not> b)
        (thenM (ring_push (\<lambda>r. [Ring_dirty (the (rg_current r)) (rg_dirty r (the (rg_current r)))]))
          (modify (\<lambda>r. r\<lparr>rg_dirty := (rg_dirty r)(the (rg_current r) := True)\<rparr>))))"

text \<open>The id of the first dirty buffer, or zero.\<close>

fun first_dirty :: "(nat \<Rightarrow> bool) \<Rightarrow> nat list \<Rightarrow> nat \<Rightarrow> nat" where
  "first_dirty d [] i = 0"
| "first_dirty d (b # bs) i = (if d b then i else first_dirty d bs (Suc i))"

definition teco_ring_get_first_dirty :: "ring \<Rightarrow> nat" where
  "teco_ring_get_first_dirty r = first_dirty (rg_dirty r) (ring_list r) 1"

definition new_buffer :: "nat rg" where
  "new_buffer =
     bindM (gets rg_fresh) (\<lambda>b.
       thenM (modify (\<lambda>r. r\<lparr>rg_fresh := Suc b, rg_filename := (rg_filename r)(b := None), rg_dirty := (rg_dirty r)(b := False)\<rparr>)) (ret b))"

definition teco_ring_edit_by_name :: "ring_env \<Rightarrow> string option \<Rightarrow> unit rg" where
  "teco_ring_edit_by_name E filename =
     bindM (gets (\<lambda>r. teco_ring_find_by_name E r filename)) (\<lambda>found.
     thenM (modify (\<lambda>r. r\<lparr>rg_qreg := None\<rparr>))
      (case found of
         Some b \<Rightarrow> thenM (modify (\<lambda>r. r\<lparr>rg_current := Some b\<rparr>)) (thenM (show_buffer b) (teco_ed_hook E TECO_ED_HOOK_EDIT))
       | None \<Rightarrow>
           bindM new_buffer (\<lambda>b.
             thenM (modify (teco_tailq_insert_tail (Entry b)))
            (thenM (modify (\<lambda>r. r\<lparr>rg_current := Some b\<rparr>))
            (thenM teco_ring_undo_close
            (thenM (show_buffer b)
            (thenM
              (case filename of
                 None \<Rightarrow> set_filename E b filename
               | Some f \<Rightarrow>
                   if rg_is_file E f then (case rg_load E f of Some e \<Rightarrow> throw e | None \<Rightarrow> set_filename E b filename)
                   else set_filename E b filename)
              (teco_ed_hook E TECO_ED_HOOK_ADD))))))))"

definition teco_ring_edit_by_id :: "ring_env \<Rightarrow> teco_int \<Rightarrow> unit rg" where
  "teco_ring_edit_by_id E i =
     bindM (gets (\<lambda>r. nth_buffer (ring_list r) i)) (\<lambda>found.
       case found of
         None \<Rightarrow> throw (TECO_ERROR_INVALIDBUF i)
       | Some b \<Rightarrow>
           thenM (modify (\<lambda>r. r\<lparr>rg_qreg := None, rg_current := Some b\<rparr>))
          (thenM (show_buffer b) (teco_ed_hook E TECO_ED_HOOK_EDIT)))"

definition teco_ring_remove_buffer :: "nat \<Rightarrow> unit rg" where
  "teco_ring_remove_buffer b = modify (teco_tailq_remove (Entry b))"

definition teco_undo_ring_reinsert :: "nat \<Rightarrow> unit rg" where
  "teco_undo_ring_reinsert b = ring_push (\<lambda>_. [Ring_reinsert b])"

definition teco_ring_close :: "ring_env \<Rightarrow> nat \<Rightarrow> unit rg" where
  "teco_ring_close E b =
     bindM (gets (\<lambda>r. rg_current r = Some b)) (\<lambda>here.
     thenM
      (if here then
         thenM (teco_ed_hook E TECO_ED_HOOK_CLOSE)
        (thenM ring_undo_edit
        (thenM (teco_ring_remove_buffer b)
        (bindM (gets (\<lambda>r. as_buffer (case next_buffer r b of Some n \<Rightarrow> Some n | None \<Rightarrow> prev_buffer r b))) (\<lambda>other.
         thenM (modify (\<lambda>r. r\<lparr>rg_current := other\<rparr>))
          (case other of
             None \<Rightarrow> teco_ring_edit_by_name E None
           | Some c \<Rightarrow> thenM (show_buffer c) (teco_ed_hook E TECO_ED_HOOK_EDIT))))))
       else teco_ring_remove_buffer b)
      (teco_undo_ring_reinsert b))"

text \<open>
  Saving (\<open>EW\<close>) the buffer with the argument as its id, the edited register or the current buffer; an empty string argument is no file name.
\<close>

definition save_command :: "ring_env \<Rightarrow> teco_int option \<Rightarrow> string \<Rightarrow> unit rg" where
  "save_command E arg str =
     (let filename = (if str = [] then None else Some str) in
      bindM (gets (\<lambda>r. r)) (\<lambda>r.
        case arg of
          Some i \<Rightarrow> (case nth_buffer (ring_list r) i of
              None \<Rightarrow> throw (TECO_ERROR_INVALIDBUF i) | Some b \<Rightarrow> teco_buffer_save E b filename)
        | None \<Rightarrow>
            if rg_qreg r \<noteq> None then rg_register_save E filename
            else teco_buffer_save E (the (rg_current r)) filename))"

text \<open>
  Closing (\<open>EF\<close>) the buffer with the absolute value of the argument, or the current one. With a colon it is saved; otherwise
  a negative argument or sign forces it.
\<close>

definition close_command :: "ring_env \<Rightarrow> teco_int option \<Rightarrow> bool \<Rightarrow> bool \<Rightarrow> unit rg" where
  "close_command E arg sign_negative colon =
     bindM (gets (\<lambda>r. r)) (\<lambda>r.
     bindM
      (case arg of
         Some i \<Rightarrow>
           let i' = (if sint i < 0 then - i else i) in
           (case nth_buffer (ring_list r) i' of None \<Rightarrow> throw (TECO_ERROR_INVALIDBUF i') | Some b \<Rightarrow> ret (b, sint i < 0))
       | None \<Rightarrow>
           (case rg_qreg r of
              Some name \<Rightarrow> throw (TECO_ERROR_FAILED (''Q-Register \"'' @ teco_string_echo name @ ''\" currently edited''))
            | None \<Rightarrow> ret (the (rg_current r), sign_negative)))
      (\<lambda>(b, force).
         if colon then thenM (teco_buffer_save E b None) (teco_ring_close E b)
         else if \<not> force \<and> rg_dirty r b then
           throw (TECO_ERROR_FAILED (''Buffer \"'' @ (case rg_filename r b of None \<Rightarrow> ''(Unnamed)'' | Some f \<Rightarrow> f) @ ''\" is dirty''))
         else teco_ring_close E b))"

text \<open>The commands and \<open>teco_ring_dirtify\<close>, which the commands that change text call.\<close>

datatype ring_command =
    Edit_file "string option" | Edit_buffer teco_int | Save_file "teco_int option" string | Save_all | Dirtify
  | Close "teco_int option" bool bool

fun run_ring_command :: "ring_env \<Rightarrow> ring_command \<Rightarrow> unit rg" where
  "run_ring_command E (Edit_file filename) = thenM (teco_current_doc_undo_edit E) (teco_ring_edit_by_name E filename)"
| "run_ring_command E (Edit_buffer i) = thenM (teco_current_doc_undo_edit E) (teco_ring_edit_by_id E i)"
| "run_ring_command E (Save_file arg str) = save_command E arg str"
| "run_ring_command E Save_all = teco_ring_save_all_dirty_buffers E"
| "run_ring_command E Dirtify = ring_dirtify"
| "run_ring_command E (Close arg sign_negative colon) = close_command E arg sign_negative colon"

section \<open>The queue as a list\<close>

fun chain :: "'a tailq_scheme \<Rightarrow> tq_entry \<Rightarrow> nat list \<Rightarrow> bool" where
  "chain q a [] \<longleftrightarrow> True"
| "chain q a (b # bs) \<longleftrightarrow> tq_next q a = Some (Entry b) \<and> tq_prev q (Entry b) = a \<and> chain q (Entry b) bs"

definition end_of :: "tq_entry \<Rightarrow> nat list \<Rightarrow> tq_entry" where
  "end_of a xs = (if xs = [] then a else Entry (last xs))"

definition linked :: "'a tailq_scheme \<Rightarrow> nat list \<Rightarrow> bool" where
  "linked q xs \<longleftrightarrow> distinct xs \<and> chain q Head xs \<and> tq_next q (end_of Head xs) = None \<and> tq_prev q Head = end_of Head xs"

lemma end_of_simps [simp]: "end_of a [] = a" "end_of a (b # bs) = end_of (Entry b) bs" "end_of a (bs @ [b]) = Entry b"
  by (simp_all add: end_of_def)

lemma end_of_append: "end_of a (xs @ ys) = end_of (end_of a xs) ys"
  by (simp add: end_of_def)

lemma chain_append: "chain q a (xs @ ys) \<longleftrightarrow> chain q a xs \<and> chain q (end_of a xs) ys"
  by (induction xs arbitrary: a) auto

lemma chain_cong:
  "(\<forall>e \<in> insert a (Entry ` set xs) - {end_of a xs}. tq_next p e = tq_next q e) \<Longrightarrow> distinct xs \<Longrightarrow> a \<notin> Entry ` set xs \<Longrightarrow>
   (\<forall>b \<in> set xs. tq_prev p (Entry b) = tq_prev q (Entry b)) \<Longrightarrow> chain p a xs \<longleftrightarrow> chain q a xs"
proof (induction xs arbitrary: a)
  case (Cons b bs)
  have "a \<noteq> end_of a (b # bs)" using Cons.prems(3) by (auto simp: end_of_def)
  then have "tq_next p a = tq_next q a" using Cons.prems(1) by simp
  moreover have "chain p (Entry b) bs \<longleftrightarrow> chain q (Entry b) bs" using Cons.prems by (intro Cons.IH) auto
  ultimately show ?case using Cons.prems(4) by simp
qed simp

text \<open>An entry between two parts of the queue.\<close>

definition before :: "nat list \<Rightarrow> tq_entry" where
  "before ys = end_of Head ys"

lemma before_in: "before ys = Head \<or> (\<exists>b \<in> set ys. before ys = Entry b)"
  by (auto simp: before_def end_of_def)

lemma end_of_in: "end_of a xs = a \<or> (\<exists>b \<in> set xs. end_of a xs = Entry b)"
  by (auto simp: end_of_def)

lemma linked_at:
  assumes "linked q (ys @ x # zs)"
  shows "tq_prev q (Entry x) = before ys" "tq_next q (before ys) = Some (Entry x)"
    "tq_next q (Entry x) = (case zs of [] \<Rightarrow> None | z # _ \<Rightarrow> Some (Entry z))"
    "case zs of [] \<Rightarrow> tq_prev q Head = Entry x | z # _ \<Rightarrow> tq_prev q (Entry z) = Entry x"
  using assms by (auto simp: linked_def chain_append before_def end_of_append split: list.split)

lemma linked_remove:
  assumes L: "linked q (ys @ x # zs)"
  shows "linked (teco_tailq_remove (Entry x) q) (ys @ zs)"
proof (cases zs)
  case Nil
  let ?q = "set_next (before ys) None (set_prev Head (before ys) q)"
  have r: "teco_tailq_remove (Entry x) q = ?q"
    using linked_at [OF L] Nil by (simp add: teco_tailq_remove_def set_prev_def before_def)
  have "chain ?q Head ys \<longleftrightarrow> chain q Head ys"
    using L by (intro chain_cong) (auto simp: linked_def set_next_def set_prev_def before_def)
  then show ?thesis using L Nil by (simp add: r linked_def chain_append set_next_def set_prev_def before_def)
next
  case (Cons z zs')
  let ?q = "set_next (before ys) (Some (Entry z)) (set_prev (Entry z) (before ys) q)"
  have r: "teco_tailq_remove (Entry x) q = ?q"
    using linked_at [OF L] Cons L by (auto simp: teco_tailq_remove_def set_prev_def linked_def)
  have d: "before ys \<noteq> Entry z" "\<forall>b \<in> set zs'. before ys \<noteq> Entry b" "z \<notin> set ys" "z \<notin> set zs'" "end_of (Entry z) zs' \<noteq> before ys" "end_of (Entry z) zs' \<noteq> Head"
    using L Cons before_in [of ys] end_of_in [of "Entry z" zs'] by (auto simp: linked_def)
  have "chain ?q Head ys \<longleftrightarrow> chain q Head ys"
    using L Cons d by (intro chain_cong) (auto simp: linked_def set_next_def set_prev_def before_def)
  moreover have "chain ?q (Entry z) zs' \<longleftrightarrow> chain q (Entry z) zs'"
    using L Cons d by (intro chain_cong) (auto simp: linked_def set_next_def set_prev_def)
  moreover have "end_of Head (ys @ z # zs') = end_of (Entry z) zs'" by (simp add: end_of_append)
  ultimately show ?thesis using L Cons d
    by (simp add: r linked_def chain_append end_of_append) (simp add: set_next_def set_prev_def before_def)
qed

lemma linked_insert_tail:
  assumes L: "linked q xs" "x \<notin> set xs"
  shows "linked (teco_tailq_insert_tail (Entry x) q) (xs @ [x])"
proof -
  let ?p = "before xs"
  have p: "tq_prev q Head = ?p" "?p \<noteq> Entry x" using L before_in [of xs] by (auto simp: linked_def before_def)
  have r: "teco_tailq_insert_tail (Entry x) q = set_prev Head (Entry x) (set_next ?p (Some (Entry x)) (set_prev (Entry x) ?p (set_next (Entry x) None q)))"
    using p by (simp add: teco_tailq_insert_tail_def set_next_def set_prev_def)
  let ?q = "set_prev Head (Entry x) (set_next ?p (Some (Entry x)) (set_prev (Entry x) ?p (set_next (Entry x) None q)))"
  have "chain ?q Head xs \<longleftrightarrow> chain q Head xs"
    using L by (intro chain_cong) (auto simp: linked_def set_next_def set_prev_def before_def)
  then show ?thesis using L p
    by (simp add: r linked_def chain_append) (auto simp add: set_next_def set_prev_def before_def)
qed

lemma linked_insert_before:
  assumes L: "linked q (ys @ a # zs)" "x \<notin> set (ys @ a # zs)"
  shows "linked (teco_tailq_insert_before (Entry a) (Entry x) q) (ys @ x # a # zs)"
proof -
  let ?p = "before ys"
  have p: "tq_prev q (Entry a) = ?p" "?p \<noteq> Entry x" "?p \<noteq> Entry a" "\<forall>b \<in> set zs. ?p \<noteq> Entry b"
    using linked_at [OF L(1)] L before_in [of ys] by (auto simp: linked_def)
  let ?q = "set_prev (Entry a) (Entry x) (set_next ?p (Some (Entry x)) (set_next (Entry x) (Some (Entry a)) (set_prev (Entry x) ?p q)))"
  have r: "teco_tailq_insert_before (Entry a) (Entry x) q = ?q"
    using p L by (auto simp: teco_tailq_insert_before_def set_next_def set_prev_def)
  have "chain ?q Head ys \<longleftrightarrow> chain q Head ys"
    using L by (intro chain_cong) (auto simp: linked_def set_next_def set_prev_def before_def)
  moreover have "chain ?q (Entry a) zs \<longleftrightarrow> chain q (Entry a) zs"
    using L p by (intro chain_cong) (auto simp: linked_def set_next_def set_prev_def)
  moreover have "end_of (Entry a) zs \<noteq> ?p" "end_of (Entry a) zs \<noteq> Entry x"
    using p L end_of_in [of "Entry a" zs] by auto
  ultimately show ?thesis using L p
    by (simp add: r linked_def chain_append end_of_append) (auto simp add: set_next_def set_prev_def before_def)
qed

lemma walk_linked: "chain q a xs \<Longrightarrow> tq_next q (end_of a xs) = None \<Longrightarrow> length xs \<le> n \<Longrightarrow> walk n q (tq_next q a) = xs"
proof (induction xs arbitrary: a n)
  case (Cons b bs)
  then show ?case by (cases n) auto
qed simp

lemma linked_list:
  assumes "linked r xs" "\<forall>b \<in> set xs. b < rg_fresh r"
  shows "ring_list r = xs"
proof -
  have "card (set xs) \<le> card {..<rg_fresh r}" using assms(2) by (intro card_mono) auto
  then have "length xs \<le> rg_fresh r" using assms(1) distinct_card [of xs] by (simp add: linked_def)
  then show ?thesis using assms(1) by (simp add: ring_list_def linked_def walk_linked)
qed

lemma neighbours:
  assumes L: "linked q (ys @ x # zs)"
  shows "as_buffer (case next_buffer (teco_tailq_remove (Entry x) q) x of Some n \<Rightarrow> Some n | None \<Rightarrow> prev_buffer (teco_tailq_remove (Entry x) q) x) =
    (case zs of z # _ \<Rightarrow> Some z | [] \<Rightarrow> if ys = [] then None else Some (last ys))"
proof -
  have x: "before ys \<noteq> Entry x" using L before_in [of ys] by (auto simp: linked_def)
  show ?thesis
  proof (cases zs)
    case (Cons z zs')
    then show ?thesis
      using linked_at [OF L] x
      by (auto simp: teco_tailq_remove_def next_buffer_def as_buffer_def set_next_def set_prev_def)
  next
    case Nil
    have h: "linked (teco_tailq_remove (Entry x) q) ys" using linked_remove [OF L] Nil by simp
    have p: "tq_next (teco_tailq_remove (Entry x) q) (Entry x) = None" "tq_prev (teco_tailq_remove (Entry x) q) (Entry x) = before ys"
      using linked_at [OF L] x Nil by (auto simp: teco_tailq_remove_def set_next_def set_prev_def)
    show ?thesis
    proof (cases ys rule: rev_cases)
      case N: Nil
      then show ?thesis using h p Nil by (simp add: next_buffer_def prev_buffer_def as_buffer_def linked_def before_def)
    next
      case (snoc us u)
      have "linked (teco_tailq_remove (Entry x) q) (us @ u # [])" using h snoc by simp
      from linked_at(1,2) [OF this] show ?thesis
        using p Nil snoc by (simp add: next_buffer_def prev_buffer_def as_buffer_def) (simp add: before_def)
    qed
  qed
qed

definition same_links :: "'a tailq_scheme \<Rightarrow> 'b tailq_scheme \<Rightarrow> bool" where
  "same_links p q \<longleftrightarrow> tq_next p = tq_next q \<and> tq_prev p = tq_prev q"

lemma reinsert_removed:
  assumes L: "linked q (ys @ x # zs)"
  shows "same_links (teco_undo_ring_reinsert_action x (teco_tailq_remove (Entry x) q)) q"
proof -
  have x: "before ys \<noteq> Entry x" "x \<notin> set zs" using L before_in [of ys] by (auto simp: linked_def)
  show ?thesis
  proof (cases zs)
    case Nil
    then show ?thesis
      using linked_at [OF L] x
      by (auto simp: same_links_def teco_tailq_remove_def teco_tailq_insert_tail_def set_next_def set_prev_def fun_eq_iff)
  next
    case (Cons z zs')
    then have "before ys \<noteq> Entry z" using L before_in [of ys] by (auto simp: linked_def)
    then show ?thesis
      using linked_at [OF L] x Cons
      by (auto simp: same_links_def teco_tailq_remove_def teco_tailq_insert_before_def set_next_def set_prev_def fun_eq_iff)
  qed
qed

text \<open>
  C30: The tail queue as a list. On the pointers of a list's entries, inserting at the end, inserting before an entry and
  removing are what they are on lists, and a removed entry that is reinserted by its own pointers gives exactly the pointers
  there were before.
\<close>

theorem tail_queue:
  assumes "linked q (ys @ x # zs)" "y \<notin> set (ys @ x # zs)"
  shows "linked (teco_tailq_remove (Entry x) q) (ys @ zs) \<and>
    linked (teco_tailq_insert_tail (Entry y) q) (ys @ x # zs @ [y]) \<and>
    linked (teco_tailq_insert_before (Entry x) (Entry y) q) (ys @ y # x # zs) \<and>
    same_links (teco_undo_ring_reinsert_action x (teco_tailq_remove (Entry x) q)) q"
  using linked_remove [OF assms(1)] linked_insert_tail [OF assms] linked_insert_before [OF assms] reinsert_removed [OF assms(1)] by simp

section \<open>Undoing\<close>

text \<open>
  States that agree on what there was when \<open>n\<close> buffers had been allocated, also on the pointers of closed buffers; the log and
  newer buffers may differ.
\<close>

definition known :: "nat \<Rightarrow> tq_entry \<Rightarrow> bool" where
  "known n e \<longleftrightarrow> (case e of Head \<Rightarrow> True | Entry b \<Rightarrow> b < n)"

definition agree :: "nat \<Rightarrow> ring \<Rightarrow> ring \<Rightarrow> bool" where
  "agree n x r \<longleftrightarrow> (\<forall>e. known n e \<longrightarrow> tq_next x e = tq_next r e \<and> tq_prev x e = tq_prev r e) \<and>
     rg_current x = rg_current r \<and> rg_qreg x = rg_qreg r \<and> rg_shown x = rg_shown r \<and>
     (\<forall>b < n. rg_filename x b = rg_filename r b \<and> rg_dirty x b = rg_dirty r b)"

text \<open>
  The ring while a buffer is edited: it is a list, the current buffer is in it and its view is shown. The pointers of
  known entries lead to known entries.
\<close>

definition ring_ok :: "ring \<Rightarrow> bool" where
  "ring_ok r \<longleftrightarrow> linked r (ring_list r) \<and> (\<forall>b \<in> set (ring_list r). b < rg_fresh r) \<and> rg_qreg r = None \<and>
     (\<exists>c \<in> set (ring_list r). rg_current r = Some c \<and> rg_shown r = c)"


definition ring_undone :: "ring \<Rightarrow> ring \<Rightarrow> bool" where
  "ring_undone r r' \<longleftrightarrow> (ring_ok r \<longrightarrow> ring_ok r' \<and> rg_fresh r \<le> rg_fresh r' \<and> rg_undo r' = rg_undo r \<and>
     (rg_undo r \<longrightarrow> (\<exists>new. rg_log r' = new @ rg_log r \<and> (\<forall>x. agree (rg_fresh r') x r' \<longrightarrow> agree (rg_fresh r) (fold ring_undo new x) r))))"

interpretation rg: step_preorder ring_undone
proof
  show "ring_undone r r" for r unfolding ring_undone_def by (auto intro: exI [of _ "[]"])
  fix r s t assume rs: "ring_undone r s" and st: "ring_undone s t"
  show "ring_undone r t"
    unfolding ring_undone_def
  proof (intro impI)
    assume r: "ring_ok r"
    then have s: "ring_ok s" "rg_fresh r \<le> rg_fresh s" "rg_undo s = rg_undo r" using rs by (simp_all add: ring_undone_def)
    have t: "ring_ok t" "rg_fresh s \<le> rg_fresh t" "rg_undo t = rg_undo s" using st s(1) by (simp_all add: ring_undone_def)
    have "\<exists>new. rg_log t = new @ rg_log r \<and> (\<forall>x. agree (rg_fresh t) x t \<longrightarrow> agree (rg_fresh r) (fold ring_undo new x) r)"
      if u: "rg_undo r"
    proof -
      obtain n where n: "rg_log s = n @ rg_log r" "\<And>x. agree (rg_fresh s) x s \<Longrightarrow> agree (rg_fresh r) (fold ring_undo n x) r"
        using rs r u unfolding ring_undone_def by blast
      obtain m where m: "rg_log t = m @ rg_log s" "\<And>x. agree (rg_fresh t) x t \<Longrightarrow> agree (rg_fresh s) (fold ring_undo m x) s"
        using st s u unfolding ring_undone_def by auto
      show ?thesis using n m by (intro exI [of _ "m @ n"]) simp
    qed
    then show "ring_ok t \<and> rg_fresh r \<le> rg_fresh t \<and> rg_undo t = rg_undo r \<and>
        (rg_undo r \<longrightarrow> (\<exists>new. rg_log t = new @ rg_log r \<and> (\<forall>x. agree (rg_fresh t) x t \<longrightarrow> agree (rg_fresh r) (fold ring_undo new x) r)))"
      using s t by simp
  qed
qed

text \<open>Links are changed in the same way in states that agree.\<close>

definition links :: "nat \<Rightarrow> 'a tailq_scheme \<Rightarrow> 'b tailq_scheme \<Rightarrow> bool" where
  "links n p q \<longleftrightarrow> (\<forall>e. known n e \<longrightarrow> tq_next p e = tq_next q e \<and> tq_prev p e = tq_prev q e)"

definition closed_entry :: "nat \<Rightarrow> 'a tailq_scheme \<Rightarrow> tq_entry \<Rightarrow> bool" where
  "closed_entry n q e \<longleftrightarrow> known n e \<and> known n (tq_prev q e) \<and> (\<forall>m. tq_next q e = Some m \<longrightarrow> known n m)"




section \<open>The commands\<close>

lemma links_linked:
  assumes "tq_next p = tq_next q" "tq_prev p = tq_prev q"
  shows "linked p xs \<longleftrightarrow> linked q xs"
proof -
  have "chain p a xs \<longleftrightarrow> chain q a xs" for a by (induction xs arbitrary: a) (simp_all add: assms)
  then show ?thesis by (simp add: linked_def assms)
qed

text \<open>The other fields are not touched by operations on the queue.\<close>

lemma set_fields [simp]:
  "rg_current (set_next e v r) = rg_current r" "rg_current (set_prev e w r) = rg_current r"
  "rg_qreg (set_next e v r) = rg_qreg r" "rg_qreg (set_prev e w r) = rg_qreg r"
  "rg_shown (set_next e v r) = rg_shown r" "rg_shown (set_prev e w r) = rg_shown r"
  "rg_filename (set_next e v r) = rg_filename r" "rg_filename (set_prev e w r) = rg_filename r"
  "rg_dirty (set_next e v r) = rg_dirty r" "rg_dirty (set_prev e w r) = rg_dirty r"
  "rg_fresh (set_next e v r) = rg_fresh r" "rg_fresh (set_prev e w r) = rg_fresh r"
  "rg_undo (set_next e v r) = rg_undo r" "rg_undo (set_prev e w r) = rg_undo r"
  "rg_log (set_next e v r) = rg_log r" "rg_log (set_prev e w r) = rg_log r"
  by (simp_all add: set_next_def set_prev_def)

lemma queue_fields:
  assumes "q \<in> {teco_tailq_remove e r, teco_tailq_insert_tail e r, teco_tailq_insert_before a e r}"
  shows "rg_current q = rg_current r" "rg_qreg q = rg_qreg r" "rg_shown q = rg_shown r" "rg_filename q = rg_filename r"
    "rg_dirty q = rg_dirty r" "rg_fresh q = rg_fresh r" "rg_undo q = rg_undo r" "rg_log q = rg_log r"
  using assms by (cases "tq_next r e"; auto simp: teco_tailq_remove_def teco_tailq_insert_tail_def teco_tailq_insert_before_def Let_def)+

lemmas queue_field [simp] = queue_fields [OF insertI1] queue_fields [OF insertI2 [OF insertI1]] queue_fields [OF insertI2 [OF insertI2 [OF insertI1]]]

lemma reinsert_fields [simp]:
  "rg_current (teco_undo_ring_reinsert_action b r) = rg_current r" "rg_qreg (teco_undo_ring_reinsert_action b r) = rg_qreg r"
  "rg_shown (teco_undo_ring_reinsert_action b r) = rg_shown r" "rg_filename (teco_undo_ring_reinsert_action b r) = rg_filename r"
  "rg_dirty (teco_undo_ring_reinsert_action b r) = rg_dirty r"
  by (simp_all split: option.split)





lemma links_same: "same_links p q \<Longrightarrow> links n p q"
  by (simp add: same_links_def links_def)


lemma ring_okI:
  assumes "linked r xs" "\<forall>b \<in> set xs. b < rg_fresh r" "rg_qreg r = None" "c \<in> set xs" "rg_current r = Some c" "rg_shown r = c"
  shows "ring_ok r"
  using assms linked_list [OF assms(1,2)] by (auto simp: ring_ok_def)


text \<open>Another buffer of the ring is edited.\<close>

definition edit_tokens :: "ring \<Rightarrow> ring_token list" where
  "edit_tokens r = [Ring_show (the (rg_current r)), Ring_current (rg_current r), Ring_qreg (rg_qreg r)]"

abbreviation logged :: "ring_token list \<Rightarrow> ring \<Rightarrow> ring" where
  "logged ts r \<equiv> r\<lparr>rg_log := (if rg_undo r then ts else []) @ rg_log r\<rparr>"

lemma push_run: "ring_push t r = (Inr (), logged (t r) r)"
  by (simp add: ring_push_def modify_run)


























section \<open>Properties\<close>


text \<open>For the witnesses: two buffers, the first of which is edited, and hooks that do nothing.\<close>

definition two_buffers :: ring where
  "two_buffers = \<lparr>tq_next = (\<lambda>e. case e of Head \<Rightarrow> Some (Entry 0) | Entry b \<Rightarrow> if b = 0 then Some (Entry 1) else None),
     tq_prev = (\<lambda>e. case e of Head \<Rightarrow> Entry 1 | Entry b \<Rightarrow> if b = 0 then Head else Entry 0),
     rg_current = Some 0, rg_qreg = None, rg_shown = 0, rg_filename = (\<lambda>b. None), rg_dirty = (\<lambda>b. False),
     rg_fresh = 2, rg_undo = True, rg_log = []\<rparr>"

definition plain_ring_env :: ring_env where
  "plain_ring_env = \<lparr>teco_ed_hook = (\<lambda>h. ret ()), rg_is_file = (\<lambda>f. False), rg_load = (\<lambda>f. None), rg_save = (\<lambda>f. None),
     rg_absolute = (\<lambda>f. f), rg_register_undo_edit = ret (), rg_register_save = (\<lambda>f. ret ())\<rparr>"

lemma two_buffers_list: "ring_list two_buffers = [0, 1]"
  by (simp add: ring_list_def two_buffers_def numeral_2_eq_2)

lemma two_buffers_linked: "linked two_buffers [0, 1]"
  by (simp add: linked_def two_buffers_def)

lemma two_buffers_ok: "ring_ok two_buffers"
proof -
  have "rg_fresh two_buffers = 2" "rg_qreg two_buffers = None" "rg_current two_buffers = Some 0" "rg_shown two_buffers = 0"
    by (simp_all add: two_buffers_def)
  then show ?thesis using ring_okI [OF two_buffers_linked, of 0] by simp
qed


theorem tail_queue_witness:
  "linked (teco_tailq_remove (Entry 1) two_buffers) [0] \<and>
   same_links (teco_undo_ring_reinsert_action 1 (teco_tailq_remove (Entry 1) two_buffers)) two_buffers"
  using tail_queue [of two_buffers "[0]" 1 "[]" 2] two_buffers_linked by simp

text \<open>
  C32: A hook that fails while a buffer is closed. If the edited buffer is closed, another one is edited instead and the hook for that fails,
  the token that reinserts the buffer has not been pushed yet although the buffer has been removed: rubbing out the command
  edits the closed buffer again, which is no longer in the ring (and will never be freed). This holds for every ring with at least two
  buffers.
\<close>

theorem close_hook_fails:
  assumes r: "ring_ok r" "rg_undo r" "rg_current r = Some b" "2 \<le> length (ring_list r)"
    and hooks: "\<And>s. teco_ed_hook E TECO_ED_HOOK_CLOSE s = (Inr (), s)" "\<And>s. teco_ed_hook E TECO_ED_HOOK_EDIT s = (Inl e, s)"
  shows "\<exists>r' new. run_ring_command E (Close None True False) r = (Inl e, r') \<and> rg_log r' = new @ rg_log r \<and>
    (let u = fold ring_undo new r' in
      rg_current u = Some b \<and> rg_shown u = b \<and> linked u (removeAll b (ring_list r)))"
proof -
  have b: "b \<in> set (ring_list r)" "rg_qreg r = None" "rg_shown r = b" using r(1,3) by (auto simp: ring_ok_def)
  obtain ys zs where xs: "ring_list r = ys @ b # zs" using split_list [OF b(1)] by blast
  let ?l = "logged (edit_tokens r) r" let ?r = "teco_tailq_remove (Entry b) ?l"
  let ?other = "case zs of z # _ \<Rightarrow> Some z | [] \<Rightarrow> if ys = [] then None else Some (last ys)"
  have L: "linked r (ys @ b # zs)" using r(1) by (simp add: ring_ok_def flip: xs)
  then have L': "linked ?l (ys @ b # zs)" using links_linked [of ?l r] by simp
  obtain d where d: "?other = Some d" using r(4) xs by (cases "ys = []"; cases zs) auto
  have "run_ring_command E (Close None True False) r = teco_ring_close E b r"
    using b(2) r(3) by (simp add: close_command_def run_simps)
  also have "\<dots> = (Inl e, ?r\<lparr>rg_current := Some d, rg_shown := d\<rparr>)"
    using r(3) by (simp add: teco_ring_close_def run_simps hooks ring_undo_edit_def push_run teco_ring_remove_buffer_def
        neighbours [OF L'] d show_buffer_def flip: edit_tokens_def)
  finally have run: "run_ring_command E (Close None True False) r = (Inl e, ?r\<lparr>rg_current := Some d, rg_shown := d\<rparr>)" .
  let ?u = "fold ring_undo (edit_tokens r) (?r\<lparr>rg_current := Some d, rg_shown := d\<rparr>)"
  have "linked ?r (ys @ zs)" by (rule linked_remove [OF L'])
  then have "linked ?u (ys @ zs)" by (subst links_linked [of ?u ?r]) (simp_all add: edit_tokens_def)
  moreover have "removeAll b (ring_list r) = ys @ zs" using L xs by (simp add: linked_def)
  moreover have "rg_current ?u = Some b" "rg_shown ?u = b" using r(3) by (simp_all add: edit_tokens_def)
  ultimately show ?thesis
    using run r(2) by (intro exI [of _ "?r\<lparr>rg_current := Some d, rg_shown := d\<rparr>"] exI [of _ "edit_tokens r"]) (simp add: Let_def)
qed

theorem close_hook_fails_witness:
  "\<exists>r' new. run_ring_command (plain_ring_env\<lparr>teco_ed_hook := (\<lambda>h. if h = TECO_ED_HOOK_EDIT then throw (TECO_ERROR_FAILED []) else ret ())\<rparr>)
      (Close None True False) two_buffers = (Inl (TECO_ERROR_FAILED []), r') \<and>
    rg_current (fold ring_undo new r') = Some 0 \<and> linked (fold ring_undo new r') [1]"
proof -
  have "rg_undo two_buffers" "rg_current two_buffers = Some 0" by (simp_all add: two_buffers_def)
  then show ?thesis
    using close_hook_fails [OF two_buffers_ok, of 0
        "plain_ring_env\<lparr>teco_ed_hook := (\<lambda>h. if h = TECO_ED_HOOK_EDIT then throw (TECO_ERROR_FAILED []) else ret ())\<rparr>" "TECO_ERROR_FAILED []"]
    by (auto simp: two_buffers_list run_simps Let_def)
qed

section \<open>Ids\<close>

lemma sint_of_int: "- (2 ^ 63) \<le> x \<Longrightarrow> x < 2 ^ 63 \<Longrightarrow> sint (word_of_int x :: teco_int) = x"
  by (simp add: signed_of_int signed_take_bit_int_eq_self)

lemma sint_pred: "- (2 ^ 63) < sint (i :: teco_int) \<Longrightarrow> sint (i - 1) = sint i - 1"
proof -
  assume "- (2 ^ 63) < sint i"
  moreover have "sint i < 2 ^ 63" using sint_lt [of i] by simp
  moreover have "i - 1 = word_of_int (sint i - 1)" by simp
  ultimately show ?thesis by (simp only: sint_of_int)
qed

lemma nth_buffer_sint:
  "int (length bs) - 2 ^ 63 \<le> sint i \<Longrightarrow>
   nth_buffer bs i = (if 1 \<le> sint i \<and> sint i \<le> int (length bs) then Some (bs ! nat (sint i - 1)) else None)"
proof (induction bs arbitrary: i)
  case (Cons b bs)
  have p: "sint (i - 1) = sint i - 1" using Cons.prems by (intro sint_pred) simp
  have "i - 1 = 0 \<longleftrightarrow> sint i = 1" using p by (metis diff_eq_eq eq_iff_diff_eq_0 signed_0 signed_word_eqI)
  moreover have "nth_buffer bs (i - 1) = (if 1 \<le> sint i - 1 \<and> sint i - 1 \<le> int (length bs) then Some (bs ! nat (sint i - 2)) else None)"
    using Cons.IH [of "i - 1"] Cons.prems p by simp
  moreover have "nat (sint i - 1) = Suc (nat (sint i - 2))" if "2 \<le> sint i" using that by simp
  ultimately show ?case by auto
qed simp

lemma id_loop_at: "b \<notin> set ys \<Longrightarrow> id_loop (ys @ b # zs) b i = i + of_nat (length ys)"
  by (induction ys arbitrary: i) (auto simp: algebra_simps)

text \<open>
  C31: Buffer ids. The id of a buffer of the ring is its place in it, counted from one, and looking for this id finds the buffer; looking for
  any other number, zero and negative ones included, finds nothing. (Numbers so small that counting down
  overflows are excluded, for which the program is undefined.)
\<close>

theorem ring_ids:
  assumes "ring_ok r" "length (ring_list r) < 2 ^ 63" "int (length (ring_list r)) - 2 ^ 63 \<le> sint i"
  shows "(case nth_buffer (ring_list r) i of
      Some b \<Rightarrow> b \<in> set (ring_list r) \<and> ring_get_id r b = i
    | None \<Rightarrow> sint i < 1 \<or> int (length (ring_list r)) < sint i) \<and>
    (b \<in> set (ring_list r) \<longrightarrow> nth_buffer (ring_list r) (ring_get_id r b) = Some b)"
proof -
  let ?bs = "ring_list r"
  have d: "distinct ?bs" using assms(1) by (simp add: ring_ok_def linked_def)
  have id: "ring_get_id r (?bs ! k) = word_of_int (int k + 1)" if "k < length ?bs" for k
  proof -
    have e: "?bs = take k ?bs @ ?bs ! k # drop (Suc k) ?bs" using id_take_nth_drop [OF that] .
    have "?bs ! k \<notin> set (take k ?bs)" using d e by (metis distinct_append disjoint_iff list.set_intros(1))
    then have "id_loop ?bs (?bs ! k) 1 = 1 + of_nat (length (take k ?bs))" using id_loop_at e by metis
    then show ?thesis using that by (simp add: ring_get_id_def)
  qed
  note n = nth_buffer_sint [OF assms(3)]
  have one: "case nth_buffer ?bs i of Some b \<Rightarrow> b \<in> set ?bs \<and> ring_get_id r b = i
      | None \<Rightarrow> sint i < 1 \<or> int (length ?bs) < sint i"
  proof (cases "1 \<le> sint i \<and> sint i \<le> int (length ?bs)")
    case True
    then have k: "nat (sint i - 1) < length ?bs" by linarith
    then show ?thesis using n True id [OF k] by simp
  qed (use n in auto)
  have "nth_buffer ?bs (ring_get_id r b) = Some b" if b: "b \<in> set ?bs"
  proof -
    obtain k where k: "k < length ?bs" "b = ?bs ! k" using b by (auto simp: in_set_conv_nth)
    have "int k < int (length ?bs)" "int (length ?bs) < 2 ^ 63" using k(1) assms(2) by (simp, metis of_nat_less_iff of_nat_numeral of_nat_power)
    then have "int k + 1 < 2 ^ 63" by linarith
    then have "sint (ring_get_id r b) = int k + 1" using id [OF k(1)] k by (simp only: sint_of_int)
    then show ?thesis using nth_buffer_sint [of ?bs "ring_get_id r b"] k assms(2) by simp
  qed
  with one show ?thesis by blast
qed

theorem ring_ids_witness:
  "ring_get_id two_buffers 1 = 2 \<and> nth_buffer [0, 1] (ring_get_id two_buffers 1) = Some 1 \<and> nth_buffer [0, 1] (- 1) = None"
proof -
  have l: "length (ring_list two_buffers) < 2 ^ 63" by (simp add: two_buffers_list)
  have "sint (- 1 :: teco_int) = - 1" "sint (2 :: teco_int) = 2" by simp_all
  then show ?thesis
    using ring_ids [OF two_buffers_ok l, of "- 1" 1] ring_ids [OF two_buffers_ok l, of 2 1]
    by (auto simp: two_buffers_list split: option.splits)
qed

end
